(* ===== verification/Prelude.thy ===== *)
theory Prelude
  imports Main "HOL-Library.Word"
begin

text \<open>
  Shared vocabulary of the development: the byte and integer types of the C++ sources, the
  collections of simplification rules that the component theories fill, and generic lemmas on
  lists (overwriting a subvec, resizing a vector) and on big-endian 32-bit integers.

  A byte (C++ \<open>char\<close>) is a HOL \<^typ>\<open>char\<close>, so a \<open>std::string\<close> and a
  \<open>std::vector<char>\<close> are both \<^typ>\<open>string\<close>. Fixed-width identifiers are words;
  sizes, indices and millisecond ticks are natural numbers.
\<close>

section \<open>Types\<close>

type_synonym bytes = string
type_synonym u32 = "32 word"
type_synonym u64 = "64 word"

named_theorems buffer_defs
  \<open>definitions of the Buffer operations\<close>
named_theorems codec_defs
  \<open>definitions of the frame codec\<close>
named_theorems ctrl_defs
  \<open>definitions of the RpcController operations\<close>
named_theorems timer_defs
  \<open>definitions of the TimerQueue operations\<close>
named_theorems chan_defs
  \<open>definitions of the RpcChannel operations\<close>

section \<open>Slices of vectors\<close>

text \<open>\<open>std::copy\<close> of \<open>ys\<close> to position \<open>i\<close> of a vector, inside its bounds.\<close>

definition overwrite :: "'a list \<Rightarrow> nat \<Rightarrow> 'a list \<Rightarrow> 'a list" where
  "overwrite xs i ys = take i xs @ ys @ drop (i + length ys) xs"

text \<open>\<open>std::vector::resize\<close>: truncate, or extend with value-initialised elements.\<close>

definition vec_resize :: "'a \<Rightarrow> nat \<Rightarrow> 'a list \<Rightarrow> 'a list" where
  "vec_resize z n xs = take n xs @ replicate (n - length xs) z"

definition subvec :: "nat \<Rightarrow> nat \<Rightarrow> 'a list \<Rightarrow> 'a list" where
  "subvec i j xs = take (j - i) (drop i xs)"

lemma length_overwrite [simp]:
  "i + length ys \<le> length xs \<Longrightarrow> length (overwrite xs i ys) = length xs"
  by (simp add: overwrite_def)

lemma length_vec_resize [simp]: "length (vec_resize z n xs) = n"
  by (simp add: vec_resize_def)

lemma length_subvec [simp]: "j \<le> length xs \<Longrightarrow> length (subvec i j xs) = j - i"
  by (simp add: subvec_def)

lemma subvec_overwrite_at:
  "i + length ys \<le> length xs \<Longrightarrow> subvec i (i + length ys) (overwrite xs i ys) = ys"
  by (simp add: subvec_def overwrite_def)

lemma subvec_overwrite_append:
  assumes "r \<le> w" "w + length ys \<le> length xs"
  shows "subvec r (w + length ys) (overwrite xs w ys) = subvec r w xs @ ys"
proof -
  have "w + length ys - r = (w - r) + length ys" using assms by simp
  then show ?thesis using assms
    by (simp add: subvec_def overwrite_def drop_take take_add)
qed

lemma subvec_vec_resize:
  "w \<le> length xs \<Longrightarrow> length xs \<le> n \<Longrightarrow> subvec r w (vec_resize z n xs) = subvec r w xs"
  by (cases "r \<le> length xs") (simp_all add: subvec_def vec_resize_def)

lemma subvec_drop: "r + k \<le> w \<Longrightarrow> subvec (r + k) w xs = drop k (subvec r w xs)"
  by (simp add: subvec_def drop_take add.commute diff_diff_eq)

lemma subvec_take: "r + k \<le> w \<Longrightarrow> subvec r (r + k) xs = take k (subvec r w xs)"
  by (simp add: subvec_def)

lemma subvec_append_next:
  "r \<le> w \<Longrightarrow> w \<le> v \<Longrightarrow> subvec r v xs = subvec r w xs @ subvec w v xs"
proof -
  assume "r \<le> w" "w \<le> v"
  then have "v - r = (w - r) + (v - w)" and "drop w xs = drop (w - r) (drop r xs)" by simp_all
  then show ?thesis by (simp only: subvec_def take_add)
qed

section \<open>Big-endian 32-bit integers\<close>

text \<open>
  \<open>htonl\<close> followed by a byte copy gives the four bytes of the value, most significant first;
  \<open>memcpy\<close> followed by \<open>ntohl\<close> reads them back, whatever the host's byte order is.
\<close>

definition htonl_bytes :: "u32 \<Rightarrow> bytes" where
  "htonl_bytes w = (let n = unat w in
     [char_of (n div 2 ^ 24), char_of (n div 2 ^ 16), char_of (n div 2 ^ 8), char_of n])"

definition ntohl_bytes :: "bytes \<Rightarrow> u32" where
  "ntohl_bytes bs = of_nat (fold (\<lambda>c n. n * 256 + of_char c) bs 0)"

lemma length_htonl_bytes [simp]: "length (htonl_bytes w) = 4"
  by (simp add: htonl_bytes_def Let_def)

lemma base256_digits:
  assumes "n < 2 ^ 32"
  shows "(((n div 2 ^ 24) mod 256 * 256 + (n div 2 ^ 16) mod 256) * 256 + (n div 2 ^ 8) mod 256) * 256
     + n mod 256 = (n :: nat)"
proof -
  define a b c where "a = n div 256" and "b = a div 256" and "c = b div 256"
  have "n div 2 ^ 8 = a" "n div 2 ^ 16 = b" "n div 2 ^ 24 = c"
    by (simp_all add: a_def b_def c_def div_mult2_eq [symmetric])
  moreover have "c < 256" using assms by (simp add: a_def b_def c_def div_mult2_eq [symmetric])
  moreover have "c * 256 + b mod 256 = b" "b * 256 + a mod 256 = a" "a * 256 + n mod 256 = n"
    by (simp_all add: a_def b_def c_def)
  ultimately show ?thesis by simp
qed

lemma ntohl_htonl [simp]: "ntohl_bytes (htonl_bytes w) = w"
proof -
  have "unat w < 2 ^ 32" using unsigned_less [of w] by simp
  from base256_digits [OF this]
  have "fold (\<lambda>c n. n * 256 + of_char c) (htonl_bytes w) 0 = unat w"
    by (simp only: htonl_bytes_def Let_def fold_simps id_apply comp_def of_char_of
        add_0_left mult_zero_left)
  then show ?thesis by (simp add: ntohl_bytes_def)
qed

lemma unat_of_nat_u32 [simp]: "n < 2 ^ 32 \<Longrightarrow> unat (of_nat n :: u32) = n"
  by (simp add: unat_of_nat take_bit_eq_mod)

end
