(* ===== verification/Net_Buffer.thy ===== *)
theory Net_Buffer
  imports Prelude
begin

text \<open>
  The byte buffer of \<open>nebula/net/buffer.h\<close>: a vector with a read and a write index and eight
  bytes of cheap prepend space. Every member function is translated; a violated \<open>assert\<close>
  is the value \<^const>\<open>None\<close>. The byte vector that a reader sees is \<open>buf_content\<close>; the lemmas
  show that the operations implement a first-in first-out queue of bytes whatever the
  growing and compacting strategy of \<open>MakeSpace\<close> does, and the interface \<open>byte_queue\<close> is what
  the connections and the frame codec rely on.
\<close>

section \<open>State and operations\<close>

record Buffer =
  buf :: bytes
  read_index :: nat
  write_index :: nat

definition kCheapPrepend :: nat where
  "kCheapPrepend = 8"

definition kInitialSize :: nat where
  "kInitialSize = 1024"

definition Buffer_new :: "nat \<Rightarrow> Buffer" where
  "Buffer_new initial_size =
     \<lparr>buf = replicate (kCheapPrepend + initial_size) (CHR 0x00),
      read_index = kCheapPrepend, write_index = kCheapPrepend\<rparr>"

definition ReadableBytes :: "Buffer \<Rightarrow> nat" where
  "ReadableBytes b = write_index b - read_index b"

definition WritableBytes :: "Buffer \<Rightarrow> nat" where
  "WritableBytes b = length (buf b) - write_index b"

definition PrependableBytes :: "Buffer \<Rightarrow> nat" where
  "PrependableBytes b = read_index b"

definition RetrieveAll :: "Buffer \<Rightarrow> Buffer" where
  "RetrieveAll b = b\<lparr>read_index := kCheapPrepend, write_index := kCheapPrepend\<rparr>"

definition Retrieve :: "nat \<Rightarrow> Buffer \<Rightarrow> Buffer option" where
  "Retrieve len b =
     (if len \<le> ReadableBytes b
      then if len < ReadableBytes b
           then Some (b\<lparr>read_index := read_index b + len\<rparr>)
           else Some (RetrieveAll b)
      else None)"

text \<open>\<open>Peek\<close> with a length: the \<open>len\<close> bytes from the read position.\<close>

definition Peek :: "nat \<Rightarrow> Buffer \<Rightarrow> bytes" where
  "Peek len b = subvec (read_index b) (read_index b + len) (buf b)"

definition RetrieveAsString :: "nat \<Rightarrow> Buffer \<Rightarrow> (bytes \<times> Buffer) option" where
  "RetrieveAsString len b =
     (if len \<le> ReadableBytes b
      then map_option (\<lambda>b'. (Peek len b, b')) (Retrieve len b)
      else None)"

definition RetrieveAllAsString :: "Buffer \<Rightarrow> (bytes \<times> Buffer) option" where
  "RetrieveAllAsString b = RetrieveAsString (ReadableBytes b) b"

definition MakeSpace :: "nat \<Rightarrow> Buffer \<Rightarrow> Buffer" where
  "MakeSpace len b =
     (if WritableBytes b + PrependableBytes b < len + kCheapPrepend
      then b\<lparr>buf := vec_resize (CHR 0x00) (write_index b + len) (buf b)\<rparr>
      else let readable = ReadableBytes b in
        b\<lparr>buf := overwrite (buf b) kCheapPrepend
                   (subvec (read_index b) (write_index b) (buf b)),
          read_index := kCheapPrepend,
          write_index := kCheapPrepend + readable\<rparr>)"

definition EnsureWritableBytes :: "nat \<Rightarrow> Buffer \<Rightarrow> Buffer" where
  "EnsureWritableBytes len b = (if WritableBytes b < len then MakeSpace len b else b)"

definition HasWritten :: "nat \<Rightarrow> Buffer \<Rightarrow> Buffer option" where
  "HasWritten len b =
     (if len \<le> WritableBytes b then Some (b\<lparr>write_index := write_index b + len\<rparr>) else None)"

definition Append :: "bytes \<Rightarrow> Buffer \<Rightarrow> Buffer option" where
  "Append data b =
     (let b1 = EnsureWritableBytes (length data) b;
          b2 = b1\<lparr>buf := overwrite (buf b1) (write_index b1) data\<rparr>
      in HasWritten (length data) b2)"

definition AppendUInt32 :: "u32 \<Rightarrow> Buffer \<Rightarrow> Buffer option" where
  "AppendUInt32 value b = Append (htonl_bytes value) b"

definition PeekUInt32 :: "nat \<Rightarrow> Buffer \<Rightarrow> u32 option" where
  "PeekUInt32 offset b =
     (if offset + 4 \<le> ReadableBytes b
      then Some (ntohl_bytes (subvec (read_index b + offset) (read_index b + offset + 4) (buf b)))
      else None)"

definition RetrieveUInt32 :: "Buffer \<Rightarrow> (u32 \<times> Buffer) option" where
  "RetrieveUInt32 b =
     (case PeekUInt32 0 b of
        None \<Rightarrow> None
      | Some value \<Rightarrow> map_option (\<lambda>b'. (value, b')) (Retrieve 4 b))"

text \<open>
  \<open>ReadFd\<close>: one \<open>readv\<close> into the writable tail and a 65536-byte stack buffer. The system call is
  the argument \<open>readv\<close>, from the total capacity of the vectors to an \<open>errno\<close> or the
  bytes read. The result pairs the return value (bytes read, or the saved \<open>errno\<close>) with the buffer.
\<close>

definition kExtraBuffer :: nat where
  "kExtraBuffer = 65536"

definition ReadFd_capacity :: "Buffer \<Rightarrow> nat" where
  "ReadFd_capacity b =
     (let writable = WritableBytes b
      in if writable < kExtraBuffer then writable + kExtraBuffer else writable)"

definition ReadFd :: "(nat \<Rightarrow> int + bytes) \<Rightarrow> Buffer \<Rightarrow> ((int + nat) \<times> Buffer) option" where
  "ReadFd readv b =
     (let writable = WritableBytes b in
      case readv (ReadFd_capacity b) of
        Inl errno \<Rightarrow> Some (Inl errno, b)
      | Inr data \<Rightarrow>
          let n = length data in
          if n \<le> writable
          then Some (Inr n, b\<lparr>buf := overwrite (buf b) (write_index b) data,
                              write_index := write_index b + n\<rparr>)
          else let b1 = b\<lparr>buf := overwrite (buf b) (write_index b) (take writable data),
                          write_index := length (buf b)\<rparr>
               in map_option (\<lambda>b2. (Inr n, b2)) (Append (drop writable data) b1))"

section \<open>Invariant and contents\<close>

definition buf_inv :: "Buffer \<Rightarrow> bool" where
  "buf_inv b \<longleftrightarrow> kCheapPrepend \<le> read_index b \<and> read_index b \<le> write_index b
     \<and> write_index b \<le> length (buf b)"

definition buf_content :: "Buffer \<Rightarrow> bytes" where
  "buf_content b = subvec (read_index b) (write_index b) (buf b)"

lemmas [buffer_defs] =
  kCheapPrepend_def ReadableBytes_def WritableBytes_def PrependableBytes_def RetrieveAll_def
  Retrieve_def Peek_def MakeSpace_def EnsureWritableBytes_def HasWritten_def buf_inv_def

lemma Buffer_new_inv [simp]: "buf_inv (Buffer_new n)" "buf_content (Buffer_new n) = []"
  by (simp_all add: Buffer_new_def buffer_defs buf_content_def subvec_def)

lemma length_buf_content: "buf_inv b \<Longrightarrow> length (buf_content b) = ReadableBytes b"
  by (simp add: buffer_defs buf_content_def)

lemma Peek_content: "buf_inv b \<Longrightarrow> len \<le> ReadableBytes b \<Longrightarrow> Peek len b = take len (buf_content b)"
  by (auto simp: buffer_defs buf_content_def intro: subvec_take)

lemma RetrieveAll_spec: "buf_inv b \<Longrightarrow> buf_inv (RetrieveAll b) \<and> buf_content (RetrieveAll b) = []"
  by (simp add: buffer_defs buf_content_def subvec_def)

lemma Retrieve_spec:
  assumes "buf_inv b" "len \<le> ReadableBytes b"
  shows "\<exists>b'. Retrieve len b = Some b' \<and> buf_inv b' \<and> buf_content b' = drop len (buf_content b)"
proof (cases "len < ReadableBytes b")
  case True
  then show ?thesis using assms
    by (simp add: buffer_defs buf_content_def subvec_drop)
next
  case False
  then have "len = length (buf_content b)" using assms by (simp add: length_buf_content)
  then show ?thesis using False assms RetrieveAll_spec [OF assms(1)]
    by (simp add: Retrieve_def)
qed

lemma Retrieve_None_iff: "Retrieve len b = None \<longleftrightarrow> ReadableBytes b < len"
  by (auto simp: Retrieve_def)

text \<open>\<open>MakeSpace\<close> makes the room it is asked for and keeps the readable bytes, by growing or by moving.\<close>

lemma EnsureWritableBytes_spec:
  assumes "buf_inv b"
  shows "buf_inv (EnsureWritableBytes len b) \<and> len \<le> WritableBytes (EnsureWritableBytes len b)
    \<and> buf_content (EnsureWritableBytes len b) = buf_content b"
proof (cases "WritableBytes b < len")
  case False
  then show ?thesis using assms by (simp add: EnsureWritableBytes_def)
next
  case need: True
  show ?thesis
  proof (cases "WritableBytes b + PrependableBytes b < len + kCheapPrepend")
    case True
    with need assms show ?thesis
      by (simp add: buffer_defs buf_content_def subvec_vec_resize)
  next
    case False
    define ys where "ys = subvec (read_index b) (write_index b) (buf b)"
    have len_ys: "length ys = ReadableBytes b" and fits: "kCheapPrepend + length ys \<le> length (buf b)"
      using assms by (auto simp: buffer_defs ys_def)
    have "subvec 8 (8 + (write_index b - read_index b)) (overwrite (buf b) 8 ys) = ys"
      using subvec_overwrite_at [OF fits] len_ys by (simp add: buffer_defs)
    with need False assms fits len_ys show ?thesis
      by (auto simp: buffer_defs buf_content_def Let_def ys_def [symmetric])
  qed
qed

lemma Append_spec:
  assumes "buf_inv b"
  shows "\<exists>b'. Append data b = Some b' \<and> buf_inv b' \<and> buf_content b' = buf_content b @ data"
proof -
  define b1 where "b1 = EnsureWritableBytes (length data) b"
  have b1: "buf_inv b1" "length data \<le> WritableBytes b1" "buf_content b1 = buf_content b"
    using EnsureWritableBytes_spec [OF assms, of "length data"] by (simp_all add: b1_def)
  then have fits: "write_index b1 + length data \<le> length (buf b1)" and le: "read_index b1 \<le> write_index b1"
    by (auto simp: buffer_defs)
  from b1 fits show ?thesis
    unfolding Append_def b1_def [symmetric] Let_def
    using subvec_overwrite_append [OF le fits]
    by (simp add: HasWritten_def WritableBytes_def buf_inv_def buf_content_def)
qed

lemma PeekUInt32_content:
  assumes "buf_inv b" "offset + 4 \<le> ReadableBytes b"
  shows "PeekUInt32 offset b = Some (ntohl_bytes (take 4 (drop offset (buf_content b))))"
proof -
  have "subvec (read_index b + offset) (read_index b + offset + 4) (buf b)
        = take 4 (subvec (read_index b + offset) (write_index b) (buf b))"
    using assms by (intro subvec_take) (simp add: ReadableBytes_def)
  also have "subvec (read_index b + offset) (write_index b) (buf b) = drop offset (buf_content b)"
    unfolding buf_content_def using assms by (intro subvec_drop) (simp add: ReadableBytes_def)
  finally show ?thesis using assms by (simp add: PeekUInt32_def)
qed

lemma RetrieveUInt32_Append:
  assumes "buf_inv b" "buf_content b = []"
  shows "\<exists>b1 b2. AppendUInt32 value b = Some b1 \<and> RetrieveUInt32 b1 = Some (value, b2) \<and> buf_inv b2
    \<and> buf_content b2 = []"
proof -
  from Append_spec [OF assms(1), of "htonl_bytes value"] obtain b1 where
    b1: "AppendUInt32 value b = Some b1" "buf_inv b1" "buf_content b1 = htonl_bytes value"
    using assms(2) by (auto simp: AppendUInt32_def)
  have len: "ReadableBytes b1 = 4" using length_buf_content [OF b1(2)] b1(3) by simp
  from Retrieve_spec [OF b1(2), of 4] len b1(3) obtain b2 where
    "Retrieve 4 b1 = Some b2" "buf_inv b2" "buf_content b2 = []"
    by auto
  with b1 len show ?thesis
    by (auto simp: RetrieveUInt32_def PeekUInt32_content)
qed

text \<open>\<open>ReadFd\<close> appends exactly the bytes the kernel delivered, also when they spill into the stack buffer.\<close>

lemma ReadFd_spec:
  assumes inv: "buf_inv b" and cap: "readv (ReadFd_capacity b) = Inr data"
    and len: "length data \<le> ReadFd_capacity b"
  shows "\<exists>b'. ReadFd readv b = Some (Inr (length data), b') \<and> buf_inv b'
    \<and> buf_content b' = buf_content b @ data"
proof (cases "length data \<le> WritableBytes b")
  case True
  with inv have "write_index b + length data \<le> length (buf b)" "read_index b \<le> write_index b"
    by (auto simp: buffer_defs)
  with True inv cap show ?thesis
    by (simp add: ReadFd_def buf_inv_def buf_content_def subvec_overwrite_append Let_def)
next
  case False
  let ?h = "take (WritableBytes b) data"
  let ?b1 = "b\<lparr>buf := overwrite (buf b) (write_index b) ?h, write_index := length (buf b)\<rparr>"
  have h: "length ?h = WritableBytes b" using False by simp
  with inv have fits: "write_index b + length ?h = length (buf b)" "read_index b \<le> write_index b"
    by (auto simp: buffer_defs)
  have "buf_inv ?b1" using inv fits by (simp add: buf_inv_def)
  moreover have "buf_content ?b1 = buf_content b @ ?h"
    using subvec_overwrite_append [OF fits(2) fits(1) [THEN eq_refl]] fits(1)
    by (simp add: buf_content_def)
  moreover note Append_spec [of ?b1 "drop (WritableBytes b) data"]
  ultimately obtain b2 where "Append (drop (WritableBytes b) data) ?b1 = Some b2" "buf_inv b2"
    "buf_content b2 = buf_content b @ data"
    by auto
  with False cap show ?thesis by (simp add: ReadFd_def Let_def)
qed

section \<open>The byte-queue interface\<close>

text \<open>
  What the users of a buffer rely on: bytes come out in the order they went in. \<open>put\<close> appends,
  \<open>get\<close> consumes a prefix and fails (the assertion) when there are not that many bytes.
\<close>

datatype queue_op = Put bytes | Get nat

fun run_queue ::
  "(bytes \<Rightarrow> 'q \<Rightarrow> 'q option) \<Rightarrow> (nat \<Rightarrow> 'q \<Rightarrow> 'q option) \<Rightarrow> ('q \<Rightarrow> bytes) \<Rightarrow>
   queue_op list \<Rightarrow> 'q \<Rightarrow> (bytes \<times> 'q) option" where
  "run_queue put get content [] q = Some ([], q)"
| "run_queue put get content (Put d # ops) q =
     (case put d q of None \<Rightarrow> None | Some q' \<Rightarrow> run_queue put get content ops q')"
| "run_queue put get content (Get n # ops) q =
     (case get n q of None \<Rightarrow> None
      | Some q' \<Rightarrow> map_option (\<lambda>(out, q''). (take n (content q) @ out, q''))
                    (run_queue put get content ops q'))"

fun put_bytes :: "queue_op list \<Rightarrow> bytes" where
  "put_bytes [] = []"
| "put_bytes (Put d # ops) = d @ put_bytes ops"
| "put_bytes (Get n # ops) = put_bytes ops"

text \<open>No \<open>Get\<close> asks for more bytes than are there, starting with \<open>k\<close> bytes.\<close>

fun gets_covered :: "nat \<Rightarrow> queue_op list \<Rightarrow> bool" where
  "gets_covered k [] = True"
| "gets_covered k (Put d # ops) = gets_covered (k + length d) ops"
| "gets_covered k (Get n # ops) = (n \<le> k \<and> gets_covered (k - n) ops)"

locale byte_queue =
  fixes invar :: "'q \<Rightarrow> bool"
    and content :: "'q \<Rightarrow> bytes"
    and put :: "bytes \<Rightarrow> 'q \<Rightarrow> 'q option"
    and get :: "nat \<Rightarrow> 'q \<Rightarrow> 'q option"
  assumes put_ok: "invar q \<Longrightarrow> \<exists>q'. put d q = Some q' \<and> invar q' \<and> content q' = content q @ d"
    and get_ok: "invar q \<Longrightarrow> n \<le> length (content q) \<Longrightarrow>
                 \<exists>q'. get n q = Some q' \<and> invar q' \<and> content q' = drop n (content q)"
    and get_fail: "invar q \<Longrightarrow> length (content q) < n \<Longrightarrow> get n q = None"
begin

lemma putE:
  assumes "invar q"
  obtains q' where "put d q = Some q'" "invar q'" "content q' = content q @ d"
  using put_ok [OF assms] by blast

lemma getE:
  assumes "invar q" "n \<le> length (content q)"
  obtains q' where "get n q = Some q'" "invar q'" "content q' = drop n (content q)"
  using get_ok [OF assms] by blast

lemma run_queue_total:
  assumes "invar q"
  shows "(run_queue put get content ops q \<noteq> None) = gets_covered (length (content q)) ops"
  using assms
proof (induction ops arbitrary: q)
  case Nil
  then show ?case by simp
next
  case (Cons op ops)
  show ?case
  proof (cases op)
    case (Put d)
    from \<open>invar q\<close> obtain q' where "put d q = Some q'" "invar q'" "content q' = content q @ d"
      by (rule putE)
    with Put Cons.IH [of q'] show ?thesis by simp
  next
    case (Get n)
    show ?thesis
    proof (cases "n \<le> length (content q)")
      case True
      with \<open>invar q\<close> obtain q' where "get n q = Some q'" "invar q'" "content q' = drop n (content q)"
        by (rule getE)
      with Get True Cons.IH [of q'] show ?thesis by simp
    next
      case False
      with Get get_fail [OF \<open>invar q\<close>, of n] show ?thesis by simp
    qed
  qed
qed

lemma run_queue_fifo:
  assumes "invar q" "run_queue put get content ops q = Some (out, q')"
  shows "invar q' \<and> out @ content q' = content q @ put_bytes ops"
  using assms
proof (induction ops arbitrary: q out)
  case Nil
  then show ?case by simp
next
  case (Cons op ops)
  show ?case
  proof (cases op)
    case (Put d)
    from \<open>invar q\<close> obtain q1 where "put d q = Some q1" "invar q1" "content q1 = content q @ d"
      by (rule putE)
    with Put Cons.prems Cons.IH [of q1 out] show ?thesis by simp
  next
    case (Get n)
    have n: "n \<le> length (content q)"
      using Get Cons.prems get_fail [of q n] by (cases "n \<le> length (content q)") auto
    with \<open>invar q\<close> obtain q1 where q1: "get n q = Some q1" "invar q1" "content q1 = drop n (content q)"
      by (rule getE)
    with Get Cons.prems obtain out1 where
      "run_queue put get content ops q1 = Some (out1, q')" "out = take n (content q) @ out1"
      by auto
    with Get Cons.IH [of q1 out1] q1 have "invar q'" "out1 @ content q' = drop n (content q) @ put_bytes ops"
      by simp_all
    with Get \<open>out = _\<close> show ?thesis by (simp add: append_assoc [symmetric] del: append_assoc)
       (metis append_assoc append_take_drop_id)
  qed
qed

end

interpretation bq: byte_queue buf_inv buf_content Append Retrieve
  by unfold_locales
    (auto simp: Append_spec Retrieve_spec Retrieve_None_iff length_buf_content)

section \<open>Properties\<close>





end
