(* ===== verification/Rpc_Codec.thy ===== *)
theory Rpc_Codec
  imports Net_Buffer
begin

text \<open>
  The frame codec of \<open>nebula/rpc/rpc_codec.cpp\<close> over the wire format
  \<open>frame_size (4B) | meta_size (4B) | RpcMeta | payload\<close>.
  The protobuf runtime and the generated class \<open>RpcMeta\<close> are not part of the repository: their
  functions are the fields of the record \<open>MetaCodec\<close>, an argument of every operation, and
  \<open>protobuf_meta\<close> states what is documented of them (a serialised message has the length that
  \<open>ByteSizeLong\<close> reports, both serialisers write the same bytes, parsing them gives the message
  back). \<open>meta_ok\<close> are the messages for which this holds: proto3 refuses to parse a \<open>string\<close> field
  that is not UTF-8.
\<close>

section \<open>Data\<close>

text \<open>\<open>RpcMeta.MessageType\<close> is an open proto3 enum: a parsed message may carry any other number.\<close>

datatype MessageType = REQUEST | RESPONSE | ERROR | HEARTBEAT | UNRECOGNIZED int

record RpcMeta =
  meta_type :: MessageType
  meta_request_id :: u64
  meta_service_name :: bytes
  meta_method_index :: u32
  meta_payload_size :: u32
  meta_error_code :: int
  meta_error_text :: bytes
  meta_trace_id :: u64

text \<open>A default-constructed message: every field has its proto3 default.\<close>

definition RpcMeta_default :: RpcMeta where
  "RpcMeta_default = \<lparr>meta_type = REQUEST, meta_request_id = 0, meta_service_name = [],
     meta_method_index = 0, meta_payload_size = 0, meta_error_code = 0, meta_error_text = [],
     meta_trace_id = 0\<rparr>"

record RpcFrame =
  frame_meta :: RpcMeta
  frame_payload :: bytes
  wire_size :: nat

datatype DecodeResult = kNeedMore | kOk RpcFrame | kError bytes

record MetaCodec =
  ByteSizeLong :: "RpcMeta \<Rightarrow> nat"
  AppendToString :: "RpcMeta \<Rightarrow> bytes option"
  SerializeWithCachedSizesToArray :: "RpcMeta \<Rightarrow> bytes"
  ParseFromArray :: "bytes \<Rightarrow> RpcMeta option"
  meta_ok :: "RpcMeta \<Rightarrow> bool"

text \<open>A payload message as \<open>EncodeMessage\<close> sees it: its announced size and the bytes it writes.\<close>

record MessageLite =
  msg_ByteSizeLong :: nat
  msg_Serialize :: bytes

definition kMaxFrameSize :: nat where
  "kMaxFrameSize = 16 * 1024 * 1024"

definition UINT32_MAX :: nat where
  "UINT32_MAX = 2 ^ 32 - 1"

section \<open>Encoding\<close>

definition Encode :: "MetaCodec \<Rightarrow> RpcMeta \<Rightarrow> bytes \<Rightarrow> bytes" where
  "Encode pb meta0 payload =
     (if length payload > UINT32_MAX then []
      else let meta = meta0\<lparr>meta_payload_size := of_nat (length payload)\<rparr>;
               meta_size = ByteSizeLong pb meta;
               body_size = 4 + meta_size + length payload
        in if body_size > kMaxFrameSize \<or> body_size > UINT32_MAX then []
           else let output = htonl_bytes (of_nat body_size) @ htonl_bytes (of_nat meta_size)
             in case AppendToString pb meta of
                  None \<Rightarrow> []
                | Some s \<Rightarrow> output @ s @ payload)"

definition EncodeMessage :: "MetaCodec \<Rightarrow> RpcMeta \<Rightarrow> MessageLite \<Rightarrow> bytes" where
  "EncodeMessage pb meta0 payload =
     (let payload_size = msg_ByteSizeLong payload in
      if payload_size > UINT32_MAX then []
      else let meta = meta0\<lparr>meta_payload_size := of_nat payload_size\<rparr>;
               meta_size = ByteSizeLong pb meta;
               body_size = 4 + meta_size + payload_size
        in if body_size > kMaxFrameSize \<or> body_size > UINT32_MAX then []
           else let output0 = replicate (4 + body_size) (CHR 0x00);
                    output1 = overwrite output0 0 (htonl_bytes (of_nat body_size));
                    output2 = overwrite output1 4 (htonl_bytes (of_nat meta_size));
                    meta_bytes = SerializeWithCachedSizesToArray pb meta;
                    payload_begin = 8 + length meta_bytes;
                    output3 = overwrite output2 8 meta_bytes;
                    output4 = overwrite output3 payload_begin (msg_Serialize payload);
                    end_pos = payload_begin + length (msg_Serialize payload)
             in if end_pos \<noteq> length output0 then [] else output4)"

section \<open>Decoding\<close>

definition DecodeBody :: "MetaCodec \<Rightarrow> bytes \<Rightarrow> bytes + (RpcMeta \<times> bytes)" where
  "DecodeBody pb body =
     (if length body < 4 then Inl ''RPC frame body is too small''
      else let meta_size = unat (ntohl_bytes (take 4 body))
        in if meta_size > length body - 4 then Inl ''RPC meta size exceeds frame body''
           else let meta_bytes = take meta_size (drop 4 body);
                    payload = drop (4 + meta_size) body
             in case ParseFromArray pb meta_bytes of
                  None \<Rightarrow> Inl ''failed to parse RPC meta''
                | Some meta \<Rightarrow>
                    if unat (meta_payload_size meta) \<noteq> length payload
                    then Inl ''RPC payload size mismatch''
                    else Inr (meta, payload))"

definition Decode :: "MetaCodec \<Rightarrow> Buffer \<Rightarrow> DecodeResult option" where
  "Decode pb buffer =
     (if ReadableBytes buffer < 4 then Some kNeedMore
      else case PeekUInt32 0 buffer of
        None \<Rightarrow> None
      | Some frame_size_word \<Rightarrow>
          let frame_size = unat frame_size_word in
          if frame_size < 4 \<or> frame_size > kMaxFrameSize
          then Some (kError ''invalid RPC frame size'')
          else let total_size = 4 + frame_size in
            if ReadableBytes buffer < total_size then Some kNeedMore
            else let body = subvec (read_index buffer + 4) (read_index buffer + 4 + frame_size) (buf buffer)
              in case DecodeBody pb body of
                   Inl error \<Rightarrow> Some (kError error)
                 | Inr (meta, payload) \<Rightarrow>
                     Some (kOk \<lparr>frame_meta = meta, frame_payload = payload, wire_size = total_size\<rparr>))"

section \<open>Reference decoder on byte strings\<close>

text \<open>
  The decoder as a function of the readable bytes alone, and the frames it finds in a byte stream:
  the complete frames, the bytes left over and the error that stopped the decoder, if any.
\<close>

definition decode_bytes :: "MetaCodec \<Rightarrow> bytes \<Rightarrow> DecodeResult" where
  "decode_bytes pb s =
     (if length s < 4 then kNeedMore
      else let frame_size = unat (ntohl_bytes (take 4 s)) in
        if frame_size < 4 \<or> frame_size > kMaxFrameSize then kError ''invalid RPC frame size''
        else if length s < 4 + frame_size then kNeedMore
        else case DecodeBody pb (take frame_size (drop 4 s)) of
               Inl error \<Rightarrow> kError error
             | Inr (meta, payload) \<Rightarrow>
                 kOk \<lparr>frame_meta = meta, frame_payload = payload, wire_size = 4 + frame_size\<rparr>)"

lemma decode_bytes_size:
  "decode_bytes pb s = kOk f \<Longrightarrow>
   8 \<le> wire_size f \<and> wire_size f \<le> length s \<and> wire_size f \<le> 4 + kMaxFrameSize"
  by (auto simp: decode_bytes_def Let_def split: if_splits sum.splits)

function decode_all :: "MetaCodec \<Rightarrow> bytes \<Rightarrow> RpcFrame list \<times> bytes \<times> bytes option" where
  "decode_all pb s =
     (case decode_bytes pb s of
        kNeedMore \<Rightarrow> ([], s, None)
      | kError error \<Rightarrow> ([], s, Some error)
      | kOk f \<Rightarrow> (case decode_all pb (drop (wire_size f) s) of (fs, r, e) \<Rightarrow> (f # fs, r, e)))"
  by pat_completeness auto
termination
  by (relation "measure (\<lambda>(pb, s). length s)") (auto dest: decode_bytes_size)

declare decode_all.simps [simp del]

lemma decode_all_step [simp]:
  "decode_bytes pb s = kNeedMore \<Longrightarrow> decode_all pb s = ([], s, None)"
  "decode_bytes pb s = kError error \<Longrightarrow> decode_all pb s = ([], s, Some error)"
  "decode_bytes pb s = kOk f \<Longrightarrow> decode_all pb s =
     (case decode_all pb (drop (wire_size f) s) of (fs, r, e) \<Rightarrow> (f # fs, r, e))"
  by (simp_all add: decode_all.simps [of pb s])

text \<open>A connection: each chunk that arrives is appended to what the last pass left over.\<close>

fun feed_chunks :: "MetaCodec \<Rightarrow> bytes \<Rightarrow> bytes list \<Rightarrow> RpcFrame list \<times> bytes \<times> bytes option" where
  "feed_chunks pb s [] = ([], s, None)"
| "feed_chunks pb s (c # cs) =
     (case decode_all pb (s @ c) of
        (fs, r, Some error) \<Rightarrow> (fs, r @ concat cs, Some error)
      | (fs, r, None) \<Rightarrow> (case feed_chunks pb r cs of (gs, r', e) \<Rightarrow> (fs @ gs, r', e)))"

section \<open>The protobuf assumptions\<close>

definition protobuf_meta :: "MetaCodec \<Rightarrow> bool" where
  "protobuf_meta pb \<longleftrightarrow>
     (\<forall>m. AppendToString pb m = Some (SerializeWithCachedSizesToArray pb m)
        \<and> ByteSizeLong pb m = length (SerializeWithCachedSizesToArray pb m))
   \<and> (\<forall>m. meta_ok pb m \<longrightarrow> ParseFromArray pb (SerializeWithCachedSizesToArray pb m) = Some m)
   \<and> (\<forall>m n. meta_ok pb (m\<lparr>meta_payload_size := n\<rparr>) = meta_ok pb m)"

lemma protobuf_metaD:
  assumes "protobuf_meta pb"
  shows "AppendToString pb m = Some (SerializeWithCachedSizesToArray pb m)"
    and "ByteSizeLong pb m = length (SerializeWithCachedSizesToArray pb m)"
    and "meta_ok pb m \<Longrightarrow> ParseFromArray pb (SerializeWithCachedSizesToArray pb m) = Some m"
    and "meta_ok pb (m\<lparr>meta_payload_size := n\<rparr>) = meta_ok pb m"
  using assms by (auto simp: protobuf_meta_def)

section \<open>Decoding a buffer is decoding its contents\<close>

lemma Decode_content:
  assumes "buf_inv b"
  shows "Decode pb b = Some (decode_bytes pb (buf_content b))"
proof -
  have len: "length (buf_content b) = ReadableBytes b" using assms by (rule length_buf_content)
  have sub: "subvec (read_index b + 4) (read_index b + 4 + n) (buf b) = take n (drop 4 (buf_content b))"
    if "4 + n \<le> ReadableBytes b" for n
    using that subvec_drop [of "read_index b" 4 "write_index b" "buf b"]
      subvec_take [of "read_index b + 4" n "write_index b" "buf b"]
    by (simp add: buf_content_def ReadableBytes_def)
  show ?thesis
    using assms PeekUInt32_content [OF assms, of 0]
    by (auto simp: Decode_def decode_bytes_def len Let_def sub split: sum.splits)
qed

section \<open>Encode, then decode\<close>

text \<open>The frame of a message and payload, when it fits.\<close>

definition frame_fits :: "MetaCodec \<Rightarrow> RpcMeta \<Rightarrow> nat \<Rightarrow> bool" where
  "frame_fits pb meta n \<longleftrightarrow>
     4 + ByteSizeLong pb (meta\<lparr>meta_payload_size := of_nat n\<rparr>) + n \<le> kMaxFrameSize"

lemma kMaxFrameSize_less: "n \<le> kMaxFrameSize \<Longrightarrow> n \<le> UINT32_MAX" "n \<le> kMaxFrameSize \<Longrightarrow> n < 2 ^ 32"
  by (simp_all add: kMaxFrameSize_def UINT32_MAX_def)

lemma Encode_fits:
  assumes "protobuf_meta pb" "frame_fits pb meta (length payload)"
  shows "Encode pb meta payload =
    (let s = SerializeWithCachedSizesToArray pb (meta\<lparr>meta_payload_size := of_nat (length payload)\<rparr>)
     in htonl_bytes (of_nat (4 + length s + length payload)) @ htonl_bytes (of_nat (length s)) @ s @ payload)"
proof -
  have "length payload \<le> kMaxFrameSize"
    "4 + ByteSizeLong pb (meta\<lparr>meta_payload_size := of_nat (length payload)\<rparr>) + length payload \<le> kMaxFrameSize"
    using assms(2) by (simp_all add: frame_fits_def)
  note le = this this [THEN kMaxFrameSize_less(1)]
  show ?thesis
    using le by (simp add: Encode_def Let_def protobuf_metaD [OF assms(1)] leD)
qed

lemma Encode_too_large: "\<not> frame_fits pb meta (length payload) \<Longrightarrow> Encode pb meta payload = []"
  by (auto simp: Encode_def frame_fits_def Let_def)

lemma Encode_nonempty_iff:
  assumes "protobuf_meta pb"
  shows "Encode pb meta payload \<noteq> [] \<longleftrightarrow> frame_fits pb meta (length payload)"
proof -
  have "length (htonl_bytes w) = 4" for w by simp
  then have "htonl_bytes w \<noteq> []" for w by (metis list.size(3) zero_neq_numeral)
  then show ?thesis
    using Encode_too_large by (auto simp: Encode_fits [OF assms] Let_def)
qed

lemma length_Encode:
  assumes "protobuf_meta pb" "Encode pb meta payload \<noteq> []"
  shows "length (Encode pb meta payload) =
    8 + ByteSizeLong pb (meta\<lparr>meta_payload_size := of_nat (length payload)\<rparr>) + length payload"
  using assms(2) unfolding Encode_nonempty_iff [OF assms(1)]
  by (simp add: Encode_fits [OF assms(1)] Let_def protobuf_metaD [OF assms(1)])

text \<open>The frame that \<open>Encode\<close> puts on the wire.\<close>

definition sent_frame :: "MetaCodec \<Rightarrow> RpcMeta \<Rightarrow> bytes \<Rightarrow> RpcFrame" where
  "sent_frame pb meta payload =
     \<lparr>frame_meta = meta\<lparr>meta_payload_size := of_nat (length payload)\<rparr>,
      frame_payload = payload,
      wire_size = length (Encode pb meta payload)\<rparr>"

lemma decode_bytes_Encode:
  assumes pb: "protobuf_meta pb" and ok: "meta_ok pb meta" and ne: "Encode pb meta payload \<noteq> []"
  shows "decode_bytes pb (Encode pb meta payload @ rest) = kOk (sent_frame pb meta payload)"
proof -
  define m where "m = meta\<lparr>meta_payload_size := of_nat (length payload)\<rparr>"
  define s where "s = SerializeWithCachedSizesToArray pb m"
  have fits: "frame_fits pb meta (length payload)" using ne Encode_nonempty_iff [OF pb] by simp
  then have bound: "4 + length s + length payload \<le> kMaxFrameSize"
    by (simp add: frame_fits_def m_def [symmetric] protobuf_metaD [OF pb] s_def)
  then have lt: "4 + length s + length payload < 2 ^ 32" by (rule kMaxFrameSize_less)
  have enc: "Encode pb meta payload =
      htonl_bytes (of_nat (4 + length s + length payload)) @ htonl_bytes (of_nat (length s)) @ s @ payload"
    using Encode_fits [OF pb fits] by (simp add: m_def s_def Let_def)
  have u: "unat (of_nat (4 + length s + length payload) :: u32) = 4 + length s + length payload"
          "unat (of_nat (length s) :: u32) = length s"
          "unat (of_nat (length payload) :: u32) = length payload"
    using lt by (simp_all del: of_nat_add)
  have parse: "ParseFromArray pb s = Some m"
    using ok protobuf_metaD(3,4) [OF pb] by (simp add: s_def m_def)
  have body: "DecodeBody pb (htonl_bytes (of_nat (length s)) @ s @ payload) = Inr (m, payload)"
    using u(2,3) parse by (simp add: DecodeBody_def m_def)
  have "decode_bytes pb (Encode pb meta payload @ rest) =
      kOk \<lparr>frame_meta = m, frame_payload = payload, wire_size = 8 + length s + length payload\<rparr>"
    unfolding decode_bytes_def enc using u(1) bound body by (simp add: Let_def del: of_nat_add)
  then show ?thesis
    by (simp add: sent_frame_def m_def [symmetric] enc)
qed

lemma decode_bytes_partial:
  assumes "4 \<le> length x" "take 4 x = htonl_bytes w" "4 \<le> unat w" "unat w \<le> kMaxFrameSize"
    "length x < 4 + unat w"
  shows "decode_bytes pb x = kNeedMore"
  using assms by (simp add: decode_bytes_def Let_def)

lemma decode_bytes_prefix:
  assumes pb: "protobuf_meta pb" and ne: "Encode pb meta payload \<noteq> []"
    and k: "k < length (Encode pb meta payload)"
  shows "decode_bytes pb (take k (Encode pb meta payload)) = kNeedMore"
proof (cases "k < 4")
  case True
  then have "length (take k (Encode pb meta payload)) < 4" by simp
  then show ?thesis unfolding decode_bytes_def by (rule if_P)
next
  case False
  define s where "s = SerializeWithCachedSizesToArray pb (meta\<lparr>meta_payload_size := of_nat (length payload)\<rparr>)"
  define n where "n = 4 + length s + length payload"
  have fits: "frame_fits pb meta (length payload)" using ne Encode_nonempty_iff [OF pb] by simp
  then have bound: "n \<le> kMaxFrameSize"
    by (simp add: frame_fits_def protobuf_metaD [OF pb] s_def n_def)
  then have "n < 2 ^ 32" by (rule kMaxFrameSize_less(2))
  then have u: "unat (of_nat n :: u32) = n" by simp
  have enc: "Encode pb meta payload =
      htonl_bytes (of_nat n) @ htonl_bytes (of_nat (length s)) @ s @ payload"
    using Encode_fits [OF pb fits] by (simp add: s_def n_def Let_def)
  show ?thesis
  proof (rule decode_bytes_partial [of _ "of_nat n"])
    show "take 4 (take k (Encode pb meta payload)) = htonl_bytes (of_nat n)"
      using False by (simp add: enc min_def)
    show "length (take k (Encode pb meta payload)) < 4 + unat (of_nat n :: u32)"
      using k unfolding u enc by (simp add: n_def)
    show "4 \<le> unat (of_nat n :: u32)" unfolding u by (simp add: n_def)
    show "unat (of_nat n :: u32) \<le> kMaxFrameSize" unfolding u by (rule bound)
  qed (use False k in simp)
qed

section \<open>Optimised encoder\<close>

lemma EncodeMessage_eq:
  assumes pb: "protobuf_meta pb" and msg: "msg_ByteSizeLong msg = length (msg_Serialize msg)"
  shows "EncodeMessage pb meta msg = Encode pb meta (msg_Serialize msg)"
  by (auto simp: EncodeMessage_def Encode_def Let_def msg protobuf_metaD [OF pb] overwrite_def
      replicate_add [symmetric])

section \<open>Streams\<close>

lemma decode_bytes_append:
  assumes "decode_bytes pb s \<noteq> kNeedMore"
  shows "decode_bytes pb (s @ t) = decode_bytes pb s"
proof -
  have 4: "4 \<le> length s" using assms by (auto simp: decode_bytes_def split: if_splits)
  then have "take 4 (s @ t) = take 4 s" by simp
  moreover have "take n (drop 4 (s @ t)) = take n (drop 4 s)" if "4 + n \<le> length s" for n
    using that 4 by simp
  ultimately show ?thesis using assms 4
    by (auto simp: decode_bytes_def Let_def split: if_splits)
qed

lemma decode_all_append:
  assumes "decode_all pb s = (fs, r, None)" "decode_all pb (r @ t) = (gs, r', e)"
  shows "decode_all pb (s @ t) = (fs @ gs, r', e)"
  using assms
proof (induction pb s arbitrary: fs rule: decode_all.induct)
  case (1 pb s)
  show ?case
  proof (cases "decode_bytes pb s")
    case (kOk f)
    with "1.prems"(1) obtain fs' where fs': "decode_all pb (drop (wire_size f) s) = (fs', r, None)" "fs = f # fs'"
      by (auto split: prod.splits)
    from decode_bytes_size [OF kOk] have "wire_size f \<le> length s" by simp
    with "1.IH" [OF kOk fs'(1) "1.prems"(2)] kOk fs'(2) decode_bytes_append [of pb s t] show ?thesis
      by simp
  qed (use "1.prems" in auto)
qed

lemma decode_all_append_error:
  assumes "decode_all pb s = (fs, r, Some e)"
  shows "decode_all pb (s @ t) = (fs, r @ t, Some e)"
  using assms
proof (induction pb s arbitrary: fs rule: decode_all.induct)
  case (1 pb s)
  show ?case
  proof (cases "decode_bytes pb s")
    case (kOk f)
    with "1.prems" obtain fs' where fs': "decode_all pb (drop (wire_size f) s) = (fs', r, Some e)" "fs = f # fs'"
      by (auto split: prod.splits)
    from decode_bytes_size [OF kOk] have "wire_size f \<le> length s" by simp
    with "1.IH" [OF kOk fs'(1)] kOk fs'(2) decode_bytes_append [of pb s t] show ?thesis
      by simp
  qed (use "1.prems" decode_bytes_append [of pb s t] in auto)
qed

lemma decode_all_rest_stable:
  "decode_all pb s = (fs, r, None) \<Longrightarrow> decode_all pb r = ([], r, None)"
proof (induction pb s arbitrary: fs rule: decode_all.induct)
  case (1 pb s)
  then show ?case
    by (cases "decode_bytes pb s") (auto split: prod.splits)
qed

lemma feed_chunks_decode_all:
  "decode_all pb s = ([], s, None) \<Longrightarrow> feed_chunks pb s cs = decode_all pb (s @ concat cs)"
proof (induction cs arbitrary: s)
  case Nil
  then show ?case by simp
next
  case (Cons c cs)
  obtain fs r e where d: "decode_all pb (s @ c) = (fs, r, e)" by (cases "decode_all pb (s @ c)")
  show ?case
  proof (cases e)
    case None
    with d have "decode_all pb r = ([], r, None)" by (auto intro: decode_all_rest_stable)
    with Cons.IH have IH: "feed_chunks pb r cs = decode_all pb (r @ concat cs)" by blast
    obtain gs r' e' where g: "decode_all pb (r @ concat cs) = (gs, r', e')"
      by (cases "decode_all pb (r @ concat cs)")
    from decode_all_append [OF d [unfolded None] g] show ?thesis
      using d None IH g by simp
  next
    case (Some error)
    with d decode_all_append_error [of pb "s @ c" fs r error "concat cs"] show ?thesis by simp
  qed
qed

text \<open>The bytes that a sender writes for a list of messages with their payloads.\<close>

definition encode_all :: "MetaCodec \<Rightarrow> (RpcMeta \<times> bytes) list \<Rightarrow> bytes" where
  "encode_all pb ms = concat (map (\<lambda>(m, p). Encode pb m p) ms)"

lemma decode_all_encode_all:
  assumes pb: "protobuf_meta pb"
    and ok: "\<And>m p. (m, p) \<in> set ms \<Longrightarrow> meta_ok pb m \<and> Encode pb m p \<noteq> []"
    and tail: "decode_all pb tail = ([], tail, None)"
  shows "decode_all pb (encode_all pb ms @ tail) = (map (\<lambda>(m, p). sent_frame pb m p) ms, tail, None)"
  using ok
proof (induction ms)
  case Nil
  then show ?case using tail by (simp add: encode_all_def)
next
  case (Cons x ms)
  obtain m p where x: "x = (m, p)" by (cases x)
  have mp: "meta_ok pb m" "Encode pb m p \<noteq> []" using Cons.prems [of m p] x by auto
  have IH: "decode_all pb (encode_all pb ms @ tail) = (map (\<lambda>(m, p). sent_frame pb m p) ms, tail, None)"
    using Cons.prems by (intro Cons.IH) auto
  have "encode_all pb (x # ms) @ tail = Encode pb m p @ (encode_all pb ms @ tail)"
    by (simp add: encode_all_def x)
  then show ?case
    using decode_bytes_Encode [OF pb mp, of "encode_all pb ms @ tail"] IH
    by (simp add: x sent_frame_def)
qed

section \<open>A concrete message codec\<close>

text \<open>
  A small executable codec that satisfies \<^const>\<open>protobuf_meta\<close>, for the witnesses: a type tag, five
  32-bit fields, the service name with its length in front and the error text. It carries the messages
  whose numbers fit these fields.
\<close>

definition demo_tag :: "MessageType \<Rightarrow> char" where
  "demo_tag t = (case t of REQUEST \<Rightarrow> CHR ''q'' | RESPONSE \<Rightarrow> CHR ''r'' | ERROR \<Rightarrow> CHR ''e''
     | HEARTBEAT \<Rightarrow> CHR ''h'' | UNRECOGNIZED _ \<Rightarrow> CHR ''u'')"

definition demo_type :: "char \<Rightarrow> MessageType" where
  "demo_type c = (if c = CHR ''q'' then REQUEST else if c = CHR ''r'' then RESPONSE
     else if c = CHR ''e'' then ERROR else if c = CHR ''h'' then HEARTBEAT else UNRECOGNIZED 0)"

definition demo_ser :: "RpcMeta \<Rightarrow> bytes" where
  "demo_ser m = demo_tag (meta_type m) # htonl_bytes (meta_payload_size m)
     @ htonl_bytes (ucast (meta_request_id m)) @ htonl_bytes (meta_method_index m)
     @ htonl_bytes (of_int (meta_error_code m))
     @ htonl_bytes (of_nat (length (meta_service_name m))) @ meta_service_name m @ meta_error_text m"

definition demo_parse :: "bytes \<Rightarrow> RpcMeta option" where
  "demo_parse bs = (if length bs < 21 then None
     else let n = unat (ntohl_bytes (take 4 (drop 17 bs))); rest = drop 21 bs
       in Some \<lparr>meta_type = demo_type (hd bs),
           meta_request_id = ucast (ntohl_bytes (take 4 (drop 5 bs))),
           meta_service_name = take n rest,
           meta_method_index = ntohl_bytes (take 4 (drop 9 bs)),
           meta_payload_size = ntohl_bytes (take 4 (drop 1 bs)),
           meta_error_code = sint (ntohl_bytes (take 4 (drop 13 bs))),
           meta_error_text = drop n rest,
           meta_trace_id = 0\<rparr>)"

definition demo_codec :: MetaCodec where
  "demo_codec = \<lparr>ByteSizeLong = (\<lambda>m. length (demo_ser m)), AppendToString = (\<lambda>m. Some (demo_ser m)),
     SerializeWithCachedSizesToArray = demo_ser, ParseFromArray = demo_parse,
     meta_ok = (\<lambda>m. demo_parse (demo_ser m) = Some m)\<rparr>"

lemma demo_parse_ser:
  "demo_parse (demo_ser m) = Some (m\<lparr>meta_type := demo_type (demo_tag (meta_type m)),
     meta_request_id := ucast (ucast (meta_request_id m) :: u32),
     meta_service_name := take (unat (of_nat (length (meta_service_name m)) :: u32))
        (meta_service_name m @ meta_error_text m),
     meta_error_code := sint (of_int (meta_error_code m) :: u32),
     meta_error_text := drop (unat (of_nat (length (meta_service_name m)) :: u32))
        (meta_service_name m @ meta_error_text m),
     meta_trace_id := 0\<rparr>)"
  by (simp add: demo_parse_def demo_ser_def Let_def)

lemma protobuf_demo: "protobuf_meta demo_codec"
proof -
  have "(demo_parse (demo_ser (m\<lparr>meta_payload_size := n\<rparr>)) = Some (m\<lparr>meta_payload_size := n\<rparr>)) =
    (demo_parse (demo_ser m) = Some m)" for m n
    by (cases m) (simp add: demo_parse_ser)
  then show ?thesis by (simp add: protobuf_meta_def demo_codec_def)
qed

lemma demo_Encode_nonempty:
  "Encode demo_codec m p \<noteq> [] \<longleftrightarrow>
     25 + length (meta_service_name m) + length (meta_error_text m) + length p \<le> kMaxFrameSize"
  unfolding Encode_nonempty_iff [OF protobuf_demo]
  by (simp add: frame_fits_def demo_codec_def demo_ser_def add.assoc)

lemma demo_ok_default: "meta_ok demo_codec RpcMeta_default"
  by (simp add: demo_codec_def demo_parse_ser) (simp add: RpcMeta_default_def demo_type_def demo_tag_def)

lemma demo_default_Encode:
  "length p \<le> 1000 \<Longrightarrow> Encode demo_codec RpcMeta_default p \<noteq> []
     \<and> length (Encode demo_codec RpcMeta_default p) = 29 + length p"
  using demo_Encode_nonempty [of RpcMeta_default p] length_Encode [OF protobuf_demo, of RpcMeta_default p]
  by (simp add: RpcMeta_default_def kMaxFrameSize_def demo_codec_def demo_ser_def)

section \<open>Properties\<close>

text \<open>C9: a frame survives the wire. If encoding succeeds, a buffer that starts with the frame, whatever
  bytes follow it, decodes without a failed assertion to the same meta (with the payload size filled in),
  the same payload, and a wire size that is exactly the number of bytes the encoder produced.\<close>

theorem codec_roundtrip:
  assumes "protobuf_meta pb" "meta_ok pb meta" "Encode pb meta payload \<noteq> []"
    and "buf_inv b" "buf_content b = Encode pb meta payload @ rest"
  shows "Decode pb b = Some (kOk \<lparr>frame_meta = meta\<lparr>meta_payload_size := of_nat (length payload)\<rparr>,
      frame_payload = payload, wire_size = length (Encode pb meta payload)\<rparr>)"
  using assms by (simp add: Decode_content decode_bytes_Encode sent_frame_def)

theorem codec_roundtrip_witness:
  "\<exists>b. Append (Encode demo_codec RpcMeta_default ''ping'' @ ''xy'') (Buffer_new 0) = Some b
     \<and> Decode demo_codec b = Some (kOk \<lparr>frame_meta = RpcMeta_default\<lparr>meta_payload_size := of_nat (length ''ping'')\<rparr>,
         frame_payload = ''ping'', wire_size = length (Encode demo_codec RpcMeta_default ''ping'')\<rparr>)"
proof -
  obtain b where b: "Append (Encode demo_codec RpcMeta_default ''ping'' @ ''xy'') (Buffer_new 0) = Some b"
    "buf_inv b" "buf_content b = Encode demo_codec RpcMeta_default ''ping'' @ ''xy''"
    using Append_spec [of "Buffer_new 0"] by fastforce
  have "Encode demo_codec RpcMeta_default ''ping'' \<noteq> []" by (simp add: demo_default_Encode)
  with b codec_roundtrip [OF protobuf_demo demo_ok_default _ b(2,3)] show ?thesis by blast
qed

text \<open>C21: half packets wait. Every proper prefix of an encoded frame makes the decoder ask for more bytes;
  it never reports an error or a frame early.\<close>

theorem codec_prefix_needs_more:
  assumes "protobuf_meta pb" "Encode pb meta payload \<noteq> []" "k < length (Encode pb meta payload)"
    and "buf_inv b" "buf_content b = take k (Encode pb meta payload)"
  shows "Decode pb b = Some kNeedMore"
  using assms by (simp add: Decode_content decode_bytes_prefix)

theorem codec_prefix_needs_more_witness:
  "\<exists>b. Append (take 11 (Encode demo_codec RpcMeta_default ''ping'')) (Buffer_new 0) = Some b
     \<and> Decode demo_codec b = Some kNeedMore"
proof -
  obtain b where b: "Append (take 11 (Encode demo_codec RpcMeta_default ''ping'')) (Buffer_new 0) = Some b"
    "buf_inv b" "buf_content b = take 11 (Encode demo_codec RpcMeta_default ''ping'')"
    using Append_spec [of "Buffer_new 0"] by fastforce
  have "Encode demo_codec RpcMeta_default ''ping'' \<noteq> []"
    "11 < length (Encode demo_codec RpcMeta_default ''ping'')" by (simp_all add: demo_default_Encode)
  with b codec_prefix_needs_more [OF protobuf_demo _ _ b(2,3)] show ?thesis by blast
qed



text \<open>C22: the encoder that serialises straight into the final frame produces the same bytes as the one that
  appends to a string, and both fail (empty result) exactly on frames over 16 MiB.\<close>

theorem EncodeMessage_equals_Encode:
  assumes "protobuf_meta pb" "msg_ByteSizeLong msg = length (msg_Serialize msg)"
  shows "EncodeMessage pb meta msg = Encode pb meta (msg_Serialize msg)
    \<and> (Encode pb meta (msg_Serialize msg) = [] \<longleftrightarrow>
        4 + ByteSizeLong pb (meta\<lparr>meta_payload_size := of_nat (length (msg_Serialize msg))\<rparr>)
          + length (msg_Serialize msg) > kMaxFrameSize)"
  using EncodeMessage_eq [OF assms] Encode_nonempty_iff [OF assms(1), of meta "msg_Serialize msg"]
  by (auto simp: frame_fits_def)

theorem EncodeMessage_equals_Encode_witness:
  "EncodeMessage demo_codec RpcMeta_default \<lparr>msg_ByteSizeLong = 3, msg_Serialize = ''abc''\<rparr>
     = Encode demo_codec RpcMeta_default ''abc''"
  using EncodeMessage_equals_Encode [OF protobuf_demo, of "\<lparr>msg_ByteSizeLong = 3, msg_Serialize = ''abc''\<rparr>"]
  by simp



end
