(* ===== verification/Rpc_Controller.thy ===== *)
theory Rpc_Controller
  imports Prelude "HOL-Library.Multiset"
begin

text \<open>
  \<open>nebula/rpc/rpc_call.cpp\<close>, the arbiter of who completes a call, and \<open>nebula/rpc/rpc_controller.cpp\<close>, the
  per-call state that the caller sees. Every method of the controller holds its mutex for one block and
  runs or deletes closures after releasing it: a method is one atomic step on the record together with
  the closures it then runs or deletes, and concurrent use is a sequence of such steps.
\<close>

section \<open>RpcCall\<close>

datatype RpcCallState = Pending | Completed | Cancelled | Timeout | Failed | Invalid

text \<open>\<open>compare_exchange_strong\<close> from \<open>Pending\<close>: the new state of the call and whether it won.\<close>

definition TryComplete :: "RpcCallState \<Rightarrow> RpcCallState \<Rightarrow> bool \<times> RpcCallState" where
  "TryComplete desired state = (if state = Pending then (True, desired) else (False, state))"

section \<open>RpcController\<close>

text \<open>
  The closures registered for cancellation: one that the user allocated, or the one that
  \<open>RpcChannel::RegisterCancelCallback\<close> creates for a request.
\<close>

datatype closure = UserClosure nat | CancelCall u64

record RpcController =
  failed :: bool
  cancel_requested :: bool
  canceled :: bool
  error_text :: string
  cancel_callbacks :: "(int \<times> closure) list"
  next_cancel_token :: int
  timeout :: "int option"
  ctrl_deadline :: "int option"
  call_state :: RpcCallState

definition RpcController_new :: RpcController where
  "RpcController_new = \<lparr>failed = False, cancel_requested = False, canceled = False, error_text = [],
     cancel_callbacks = [], next_cancel_token = 0, timeout = None, ctrl_deadline = None, call_state = Pending\<rparr>"

text \<open>What happens to closures outside the lock.\<close>

datatype closure_event = Run closure | Delete closure

definition ReleaseCancelCallbacks :: "RpcController \<Rightarrow> RpcController \<times> closure_event list" where
  "ReleaseCancelCallbacks c =
     (c\<lparr>cancel_callbacks := []\<rparr>, map (\<lambda>(tok, cb). Delete cb) (cancel_callbacks c))"

definition RpcController_destroy :: "RpcController \<Rightarrow> RpcController \<times> closure_event list" where
  "RpcController_destroy c = ReleaseCancelCallbacks c"

definition Reset :: "RpcController \<Rightarrow> RpcController \<times> closure_event list" where
  "Reset c = ReleaseCancelCallbacks (c\<lparr>failed := False, cancel_requested := False, canceled := False,
     error_text := [], timeout := None, ctrl_deadline := None, call_state := Pending\<rparr>)"

definition StartCancel :: "RpcController \<Rightarrow> RpcController \<times> closure_event list" where
  "StartCancel c =
     (if cancel_requested c then (c, [])
      else (c\<lparr>cancel_requested := True, cancel_callbacks := []\<rparr>,
            map (\<lambda>(tok, cb). Run cb) (cancel_callbacks c)))"

definition SetFailed :: "string \<Rightarrow> RpcController \<Rightarrow> RpcController" where
  "SetFailed reason c = c\<lparr>failed := True, error_text := reason\<rparr>"

definition MarkCanceled :: "RpcController \<Rightarrow> RpcController" where
  "MarkCanceled c = c\<lparr>canceled := True, call_state := Cancelled\<rparr>"

definition MarkCallState :: "RpcCallState \<Rightarrow> RpcController \<Rightarrow> RpcController" where
  "MarkCallState state c = c\<lparr>call_state := state\<rparr>"

text \<open>A null closure is \<^const>\<open>None\<close>.\<close>

definition RegisterOnCancel :: "closure option \<Rightarrow> RpcController \<Rightarrow> int \<times> RpcController \<times> closure_event list" where
  "RegisterOnCancel callback c =
     (case callback of
        None \<Rightarrow> (-1, c, [])
      | Some cb \<Rightarrow>
          if \<not> cancel_requested c
          then (next_cancel_token c,
                c\<lparr>cancel_callbacks := cancel_callbacks c @ [(next_cancel_token c, cb)],
                  next_cancel_token := next_cancel_token c + 1\<rparr>, [])
          else (-1, c, [Run cb]))"

definition NotifyOnCancel :: "closure option \<Rightarrow> RpcController \<Rightarrow> RpcController \<times> closure_event list" where
  "NotifyOnCancel callback c =
     (case callback of None \<Rightarrow> (c, []) | Some cb \<Rightarrow> snd (RegisterOnCancel (Some cb) c))"

text \<open>Erases the first entry with the token; \<open>delete nullptr\<close> does nothing.\<close>

definition RemoveOnCancel :: "int \<Rightarrow> RpcController \<Rightarrow> RpcController \<times> closure_event list" where
  "RemoveOnCancel token c =
     (case filter (\<lambda>e. fst e = token) (cancel_callbacks c) of
        [] \<Rightarrow> (c, [])
      | e # _ \<Rightarrow> (c\<lparr>cancel_callbacks := remove1 e (cancel_callbacks c)\<rparr>, [Delete (snd e)]))"

definition SetTimeout :: "int \<Rightarrow> RpcController \<Rightarrow> RpcController" where
  "SetTimeout t c = c\<lparr>timeout := Some (if t < 0 then 0 else t), ctrl_deadline := None\<rparr>"

definition SetDeadline :: "int \<Rightarrow> RpcController \<Rightarrow> RpcController" where
  "SetDeadline d c = c\<lparr>ctrl_deadline := Some d, timeout := None\<rparr>"

section \<open>Sequences of steps\<close>

datatype ctrl_op =
    CReset | CStartCancel | CSetFailed string | CMarkCanceled | CMarkCallState RpcCallState
  | CRegister "closure option" | CNotify "closure option" | CRemove int | CSetTimeout int | CSetDeadline int

definition ctrl_apply :: "ctrl_op \<Rightarrow> RpcController \<Rightarrow> RpcController \<times> closure_event list" where
  "ctrl_apply op c =
     (case op of
        CReset \<Rightarrow> Reset c | CStartCancel \<Rightarrow> StartCancel c | CSetFailed r \<Rightarrow> (SetFailed r c, [])
      | CMarkCanceled \<Rightarrow> (MarkCanceled c, []) | CMarkCallState s \<Rightarrow> (MarkCallState s c, [])
      | CRegister cb \<Rightarrow> snd (RegisterOnCancel cb c) | CNotify cb \<Rightarrow> NotifyOnCancel cb c
      | CRemove t \<Rightarrow> RemoveOnCancel t c | CSetTimeout t \<Rightarrow> (SetTimeout t c, []) | CSetDeadline d \<Rightarrow> (SetDeadline d c, []))"

fun ctrl_run :: "ctrl_op list \<Rightarrow> RpcController \<Rightarrow> RpcController \<times> closure_event list" where
  "ctrl_run [] c = (c, [])"
| "ctrl_run (op # ops) c =
     (let (c1, es) = ctrl_apply op c; (c2, es') = ctrl_run ops c1 in (c2, es @ es'))"

fun handed_over :: "ctrl_op \<Rightarrow> closure list" where
  "handed_over (CRegister (Some cb)) = [cb]"
| "handed_over (CNotify (Some cb)) = [cb]"
| "handed_over _ = []"

fun event_closure :: "closure_event \<Rightarrow> closure" where
  "event_closure (Run cb) = cb"
| "event_closure (Delete cb) = cb"

definition owned :: "RpcController \<Rightarrow> closure multiset" where
  "owned c = mset (map snd (cancel_callbacks c))"

definition settled :: "closure_event list \<Rightarrow> closure multiset" where
  "settled es = mset (map event_closure es)"

definition ctrl_inv :: "RpcController \<Rightarrow> bool" where
  "ctrl_inv c \<longleftrightarrow> \<not> (timeout c \<noteq> None \<and> ctrl_deadline c \<noteq> None)
     \<and> (cancel_requested c \<longrightarrow> cancel_callbacks c = [])
     \<and> distinct (map fst (cancel_callbacks c)) \<and> (\<forall>t\<in>set (map fst (cancel_callbacks c)). 0 \<le> t \<and> t < next_cancel_token c)
     \<and> 0 \<le> next_cancel_token c \<and> (\<forall>t. timeout c = Some t \<longrightarrow> 0 \<le> t)"

lemmas [ctrl_defs] = ReleaseCancelCallbacks_def Reset_def StartCancel_def SetFailed_def MarkCanceled_def MarkCallState_def
  RegisterOnCancel_def NotifyOnCancel_def RemoveOnCancel_def SetTimeout_def SetDeadline_def

lemma settled_simps [simp]:
  "settled [] = {#}" "settled (es @ es') = settled es + settled es'" "settled [e] = {#event_closure e#}"
  by (simp_all add: settled_def)

lemma settled_map [simp]:
  "settled (map (\<lambda>(tok, cb). Delete cb) xs) = mset (map snd xs)"
  "settled (map (\<lambda>(tok, cb). Run cb) xs) = mset (map snd xs)"
  by (induction xs) (auto simp: settled_def)

lemma Remove_owned:
  assumes "RemoveOnCancel token c = (c', es)"
  shows "owned c' + settled es = owned c"
proof (cases "filter (\<lambda>e. fst e = token) (cancel_callbacks c)")
  case Nil
  with assms show ?thesis by (simp add: RemoveOnCancel_def)
next
  case (Cons e xs)
  then have "e \<in> set (cancel_callbacks c)" using filter_is_subset [of "\<lambda>e. fst e = token" "cancel_callbacks c"] by auto
  then have "mset (map snd (remove1 e (cancel_callbacks c))) + {#snd e#} = mset (map snd (cancel_callbacks c))"
    by (simp add: image_mset_Diff)
  with assms Cons show ?thesis by (auto simp: RemoveOnCancel_def owned_def)
qed

lemma apply_owned:
  assumes "ctrl_apply op c = (c', es)"
  shows "owned c' + settled es = owned c + mset (handed_over op)"
proof (cases op)
  case (CRemove t)
  with assms Remove_owned show ?thesis by (simp add: ctrl_apply_def)
next
  case CReset
  with assms show ?thesis by (auto simp: ctrl_apply_def ctrl_defs owned_def)
next
  case CStartCancel
  with assms show ?thesis by (auto simp: ctrl_apply_def ctrl_defs owned_def split: if_splits)
next
  case (CRegister cb)
  with assms show ?thesis by (cases cb) (auto simp: ctrl_apply_def ctrl_defs owned_def split: if_splits)
next
  case (CNotify cb)
  with assms show ?thesis by (cases cb) (auto simp: ctrl_apply_def ctrl_defs owned_def split: if_splits)
qed (use assms in \<open>auto simp: ctrl_apply_def ctrl_defs owned_def\<close>)

lemma distinct_map_remove1: "distinct (map f xs) \<Longrightarrow> distinct (map f (remove1 e xs))"
proof (induction xs)
  case (Cons x xs)
  have "set (map f (remove1 e xs)) \<subseteq> set (map f xs)" using set_remove1_subset [of e xs] by auto
  with Cons show ?case by auto
qed simp

lemma Register_inv:
  assumes "ctrl_inv c"
  shows "ctrl_inv (fst (snd (RegisterOnCancel cb c)))"
proof (cases cb)
  case (Some k)
  have "next_cancel_token c \<notin> set (map fst (cancel_callbacks c))" using assms by (auto simp: ctrl_inv_def)
  with assms Some show ?thesis by (auto simp: RegisterOnCancel_def ctrl_inv_def)
qed (use assms in \<open>simp add: RegisterOnCancel_def\<close>)

lemma Remove_inv:
  assumes "ctrl_inv c"
  shows "ctrl_inv (fst (RemoveOnCancel t c))"
proof -
  have "ctrl_inv (c\<lparr>cancel_callbacks := remove1 e (cancel_callbacks c)\<rparr>)" for e
  proof -
    have "distinct (map fst (remove1 e (cancel_callbacks c)))"
      using assms unfolding ctrl_inv_def by (metis distinct_map_remove1)
    moreover have "set (remove1 e (cancel_callbacks c)) \<subseteq> set (cancel_callbacks c)" by (rule set_remove1_subset)
    ultimately show ?thesis using assms by (auto simp: ctrl_inv_def)
  qed
  with assms show ?thesis by (auto simp: RemoveOnCancel_def split: list.splits)
qed

lemma simple_inv:
  assumes "ctrl_inv c"
  shows "ctrl_inv (fst (Reset c))" "ctrl_inv (fst (StartCancel c))" "ctrl_inv (SetFailed r c)" "ctrl_inv (MarkCanceled c)"
    "ctrl_inv (MarkCallState s c)" "ctrl_inv (SetTimeout t c)" "ctrl_inv (SetDeadline d c)"
  using assms by (simp_all add: Reset_def ReleaseCancelCallbacks_def StartCancel_def SetFailed_def
    MarkCanceled_def MarkCallState_def SetTimeout_def SetDeadline_def ctrl_inv_def)

lemma apply_inv:
  assumes "ctrl_inv c"
  shows "ctrl_inv (fst (ctrl_apply op c))"
proof (cases op)
  case (CNotify cb)
  with assms Register_inv [OF assms, of cb] show ?thesis
    by (cases cb) (simp_all add: ctrl_apply_def NotifyOnCancel_def)
qed (use simple_inv [OF assms] Remove_inv [OF assms] Register_inv [OF assms] in \<open>simp_all add: ctrl_apply_def\<close>)

lemma run_inv: "ctrl_inv c \<Longrightarrow> ctrl_inv (fst (ctrl_run ops c))"
proof (induction ops arbitrary: c)
  case (Cons op ops)
  from Cons.IH [OF apply_inv [OF Cons.prems, of op]] show ?case
    by (cases "ctrl_apply op c"; cases "ctrl_run ops (fst (ctrl_apply op c))") simp
qed simp

lemma run_owned:
  "ctrl_run ops c = (c', es) \<Longrightarrow> owned c' + settled es = owned c + mset (concat (map handed_over ops))"
proof (induction ops arbitrary: c c' es)
  case (Cons op ops)
  obtain c1 e1 where a: "ctrl_apply op c = (c1, e1)" by (cases "ctrl_apply op c")
  obtain c2 e2 where r: "ctrl_run ops c1 = (c2, e2)" by (cases "ctrl_run ops c1")
  have eq: "c' = c2" "es = e1 @ e2" using a r Cons.prems by auto
  have "owned c2 + settled e2 + settled e1 = owned c + mset (handed_over op) + mset (concat (map handed_over ops))"
    unfolding Cons.IH [OF r] using apply_owned [OF a] by (simp add: ac_simps)
  then show ?case unfolding eq by (simp add: ac_simps)
qed simp

lemma ctrl_inv_new: "ctrl_inv RpcController_new"
  by (simp add: ctrl_inv_def RpcController_new_def)

section \<open>Properties\<close>

fun attempts :: "RpcCallState list \<Rightarrow> RpcCallState \<Rightarrow> bool list \<times> RpcCallState" where
  "attempts [] st = ([], st)"
| "attempts (a # as) st =
     (let (won, st1) = TryComplete a st; (ws, st2) = attempts as st1 in (won # ws, st2))"

lemma attempts_lost: "st \<noteq> Pending \<Longrightarrow> attempts as st = (replicate (length as) False, st)"
  by (induction as) (simp_all add: TryComplete_def)

text \<open>Arbitration of a call. Of any sequence of attempts to complete a pending call exactly the first succeeds,
  and its outcome is the final state.\<close>

theorem TryComplete_once:
  assumes "a \<noteq> Pending"
  shows "attempts (a # as) Pending = (True # replicate (length as) False, a)"
  using attempts_lost [OF assms] by (simp add: TryComplete_def)

theorem TryComplete_once_witness:
  "attempts [Timeout, Completed, Cancelled] Pending = ([True, False, False], Timeout)"
  using TryComplete_once [of Timeout "[Completed, Cancelled]"] by (simp add: numeral_eq_Suc)

text \<open>C19: Ownership of cancel callbacks. Whatever the order in which threads register, remove, cancel and reset, every
  closure handed to a controller is run once, or deleted once, or still registered, and never more than one of these;
  destroying the controller leaves none registered. A controller never has both a timeout and a deadline, and once
  cancellation was accepted no closure waits.\<close>

theorem cancel_callbacks_owned_once:
  assumes "ctrl_run ops RpcController_new = (c, es)" "RpcController_destroy c = (c', ds)"
    "distinct (concat (map handed_over ops))"
  shows "distinct (map snd (cancel_callbacks c) @ map event_closure es)
    \<and> set (map event_closure (es @ ds)) = set (concat (map handed_over ops)) \<and> distinct (map event_closure (es @ ds))
    \<and> cancel_callbacks c' = [] \<and> \<not> (timeout c \<noteq> None \<and> ctrl_deadline c \<noteq> None)
    \<and> (cancel_requested c \<longrightarrow> cancel_callbacks c = [])"
proof -
  let ?H = "concat (map handed_over ops)"
  have own: "owned c + settled es = mset ?H"
    using run_owned [OF assms(1)] by (simp add: RpcController_new_def owned_def)
  have ds: "settled ds = owned c" "cancel_callbacks c' = []"
    using assms(2) by (auto simp: RpcController_destroy_def ReleaseCancelCallbacks_def owned_def)
  have "mset (map snd (cancel_callbacks c) @ map event_closure es) = mset ?H" using own by (simp add: owned_def settled_def)
  then have 1: "distinct (map snd (cancel_callbacks c) @ map event_closure es)" using assms(3) mset_eq_imp_distinct_iff by blast
  have 2: "mset (map event_closure (es @ ds)) = mset ?H" using own ds(1) by (simp add: settled_def add.commute)
  have 3: "distinct (map event_closure (es @ ds))" using 2 assms(3) mset_eq_imp_distinct_iff by blast
  have 4: "set (map event_closure (es @ ds)) = set ?H" using 2 by (rule mset_eq_setD)
  have inv: "ctrl_inv c" using run_inv [OF ctrl_inv_new, of ops] assms(1) by simp
  show ?thesis using 1 3 4 ds(2) inv by (simp add: ctrl_inv_def)
qed

definition demo_ctrl_ops :: "ctrl_op list" where
  "demo_ctrl_ops = [CRegister (Some (CancelCall 1)), CRegister (Some (UserClosure 2)), CRemove 0, CSetTimeout 50,
     CStartCancel, CRegister (Some (CancelCall 3)), CStartCancel]"

theorem cancel_callbacks_owned_once_witness:
  "snd (ctrl_run demo_ctrl_ops RpcController_new) = [Delete (CancelCall 1), Run (UserClosure 2), Run (CancelCall 3)]
   \<and> distinct (map event_closure (snd (ctrl_run demo_ctrl_ops RpcController_new)
        @ snd (RpcController_destroy (fst (ctrl_run demo_ctrl_ops RpcController_new)))))"
proof
  show "snd (ctrl_run demo_ctrl_ops RpcController_new) = [Delete (CancelCall 1), Run (UserClosure 2), Run (CancelCall 3)]" by code_simp
  have d: "distinct (concat (map handed_over demo_ctrl_ops))" by (simp add: demo_ctrl_ops_def)
  show "distinct (map event_closure (snd (ctrl_run demo_ctrl_ops RpcController_new)
        @ snd (RpcController_destroy (fst (ctrl_run demo_ctrl_ops RpcController_new)))))"
    using cancel_callbacks_owned_once [OF prod.collapse [symmetric] prod.collapse [symmetric] d] by blast
qed

end
