(* ===== verification/Rpc_Metrics.thy ===== *)
theory Rpc_Metrics
  imports Rpc_Controller Complex_Main
begin

text \<open>
  \<open>nebula/rpc/rpc_metrics.cpp\<close>: fixed-bucket latency histograms per method. Counters are 64-bit words;
  the percentile, a \<open>double\<close> in the code, is an exact rational number here, so that rounding of the
  product \<open>total * percentile\<close> is not modelled.
\<close>

section \<open>LatencyHistogram\<close>

definition kBoundCount :: nat where "kBoundCount = 7"

definition kBucketCount :: nat where "kBucketCount = kBoundCount + 1"

definition kBoundsUs :: "int list" where
  "kBoundsUs = [1000, 5000, 10000, 50000, 100000, 500000, 1000000]"

record LatencyHistogram =
  buckets :: "u64 list"
  hist_count :: u64

definition LatencyHistogram_new :: LatencyHistogram where
  "LatencyHistogram_new = \<lparr>buckets = replicate kBucketCount 0, hist_count = 0\<rparr>"

text \<open>The loop that looks for the first bound, with its \<open>break\<close>.\<close>

fun find_bucket :: "int list \<Rightarrow> int \<Rightarrow> nat \<Rightarrow> nat" where
  "find_bucket [] latency i = i"
| "find_bucket (bound # bounds) latency i = (if latency \<le> bound then i else find_bucket bounds latency (i + 1))"

definition LatencyHistogram_Record :: "int \<Rightarrow> LatencyHistogram \<Rightarrow> LatencyHistogram" where
  "LatencyHistogram_Record latency h =
     (let bucket = find_bucket kBoundsUs latency 0
      in h\<lparr>buckets := (buckets h)[bucket := buckets h ! bucket + 1], hist_count := hist_count h + 1\<rparr>)"

definition LatencyHistogram_Reset :: "LatencyHistogram \<Rightarrow> LatencyHistogram" where
  "LatencyHistogram_Reset h = h\<lparr>buckets := map (\<lambda>_. 0) (buckets h), hist_count := 0\<rparr>"

fun percentile_loop :: "u64 list \<Rightarrow> nat \<Rightarrow> u64 \<Rightarrow> u64 \<Rightarrow> int" where
  "percentile_loop [] i accumulated target = -1"
| "percentile_loop (b # bs) i accumulated target =
     (if accumulated + b \<ge> target
      then if i < kBoundCount then kBoundsUs ! i else -1
      else percentile_loop bs (i + 1) (accumulated + b) target)"

definition percentile_target :: "rat \<Rightarrow> u64 \<Rightarrow> u64" where
  "percentile_target percentile n = of_int \<lfloor>of_nat (unat n) * percentile + 999999 / 1000000\<rfloor>"

definition PercentileUs :: "rat \<Rightarrow> LatencyHistogram \<Rightarrow> int" where
  "PercentileUs percentile h =
     (let n = hist_count h in
      if n = 0 then 0
      else percentile_loop (buckets h) 0 0 (percentile_target percentile n))"

section \<open>MethodMetrics and RpcMetrics\<close>

record MethodMetrics =
  total_count :: u64
  failed_count :: u64
  timeout_count :: u64
  latency_hist :: LatencyHistogram

definition MethodMetrics_new :: MethodMetrics where
  "MethodMetrics_new = \<lparr>total_count = 0, failed_count = 0, timeout_count = 0, latency_hist = LatencyHistogram_new\<rparr>"

definition MethodMetrics_Record :: "RpcCallState \<Rightarrow> int \<Rightarrow> MethodMetrics \<Rightarrow> MethodMetrics" where
  "MethodMetrics_Record state latency m =
     (let m1 = m\<lparr>total_count := total_count m + 1\<rparr>;
          m2 = (if state = Timeout then m1\<lparr>timeout_count := timeout_count m1 + 1\<rparr>
                else if state \<noteq> Completed then m1\<lparr>failed_count := failed_count m1 + 1\<rparr>
                else m1)
      in m2\<lparr>latency_hist := LatencyHistogram_Record latency (latency_hist m2)\<rparr>)"

type_synonym method_ptr = nat

text \<open>\<open>methods_[method]\<close> creates the entry of a method at its first use.\<close>

record RpcMetrics =
  methods :: "method_ptr \<rightharpoonup> MethodMetrics"
  cycle_count :: u64

definition RpcMetrics_new :: RpcMetrics where
  "RpcMetrics_new = \<lparr>methods = Map.empty, cycle_count = 0\<rparr>"

definition RpcMetrics_Record :: "method_ptr option \<Rightarrow> RpcCallState \<Rightarrow> int \<Rightarrow> RpcMetrics \<Rightarrow> RpcMetrics" where
  "RpcMetrics_Record method state latency r =
     (case method of
        None \<Rightarrow> r
      | Some m \<Rightarrow>
          let old = (case methods r m of Some mm \<Rightarrow> mm | None \<Rightarrow> MethodMetrics_new)
          in r\<lparr>methods := (methods r)(m \<mapsto> MethodMetrics_Record state latency old), cycle_count := cycle_count r + 1\<rparr>)"

definition TakeCycleCount :: "RpcMetrics \<Rightarrow> u64 \<times> RpcMetrics" where
  "TakeCycleCount r = (cycle_count r, r\<lparr>cycle_count := 0\<rparr>)"

section \<open>The histogram of a list of samples\<close>

definition record_all :: "int list \<Rightarrow> LatencyHistogram" where
  "record_all xs = fold LatencyHistogram_Record xs LatencyHistogram_new"

definition samples_in :: "nat \<Rightarrow> int list \<Rightarrow> nat" where
  "samples_in i xs = length (filter (\<lambda>x. find_bucket kBoundsUs x 0 = i) xs)"

text \<open>The samples in the buckets before \<open>i\<close>.\<close>

definition samples_before :: "nat \<Rightarrow> int list \<Rightarrow> nat" where
  "samples_before i xs = length (filter (\<lambda>x. find_bucket kBoundsUs x 0 < i) xs)"

lemma find_bucket_le: "find_bucket bs x i \<le> i + length bs"
proof (induction bs arbitrary: i)
  case (Cons b bs)
  from Cons.IH [of "i + 1"] show ?case by simp
qed simp

lemma find_bucket_range: "find_bucket kBoundsUs x 0 < kBucketCount"
  using find_bucket_le [of kBoundsUs x 0] by (simp add: kBoundsUs_def kBucketCount_def kBoundCount_def)

text \<open>A sample is in one of the first \<open>i + 1\<close> buckets exactly when it is at most the bound of bucket \<open>i\<close>.\<close>

lemma find_bucket_sorted: "sorted bs \<Longrightarrow> i < length bs \<Longrightarrow> find_bucket bs x k \<le> k + i \<longleftrightarrow> x \<le> bs ! i"
proof (induction bs arbitrary: i k)
  case (Cons b bs)
  have ge: "n \<le> find_bucket bs x n" for n by (induction bs arbitrary: n) (auto intro: le_trans [OF le_SucI [OF le_refl]])
  show ?case
  proof (cases i)
    case 0
    with ge [of "Suc k"] show ?thesis by auto
  next
    case (Suc j)
    then have b: "b \<le> bs ! j" using Cons.prems by simp
    show ?thesis
    proof (cases "x \<le> b")
      case True
      with b Suc show ?thesis by auto
    next
      case False
      with Cons.IH [of j "Suc k"] Cons.prems Suc show ?thesis by auto
    qed
  qed
qed simp

lemma find_bucket_bound: "i < kBoundCount \<Longrightarrow> find_bucket kBoundsUs x 0 \<le> i \<longleftrightarrow> x \<le> kBoundsUs ! i"
  using find_bucket_sorted [of kBoundsUs i x 0] by (simp add: kBoundCount_def kBoundsUs_def)

lemma record_fold:
  "length (buckets h) = kBucketCount \<Longrightarrow>
   length (buckets (fold LatencyHistogram_Record xs h)) = kBucketCount
   \<and> hist_count (fold LatencyHistogram_Record xs h) = hist_count h + of_nat (length xs)
   \<and> (\<forall>i<kBucketCount. buckets (fold LatencyHistogram_Record xs h) ! i = buckets h ! i + of_nat (samples_in i xs))"
proof (induction xs arbitrary: h)
  case (Cons x xs)
  let ?h = "LatencyHistogram_Record x h"
  have len: "length (buckets ?h) = kBucketCount" using Cons.prems by (simp add: LatencyHistogram_Record_def Let_def)
  show ?case
    using Cons.IH [OF len] Cons.prems find_bucket_range [of x]
    by (auto simp: LatencyHistogram_Record_def Let_def samples_in_def nth_list_update)
qed (simp add: samples_in_def)

lemma record_all_spec:
  "length (buckets (record_all xs)) = kBucketCount" "hist_count (record_all xs) = of_nat (length xs)"
  "i < kBucketCount \<Longrightarrow> buckets (record_all xs) ! i = of_nat (samples_in i xs)"
  using record_fold [of LatencyHistogram_new xs] by (simp_all add: record_all_def LatencyHistogram_new_def)

lemma samples_before_Suc: "samples_before (Suc i) xs = samples_before i xs + samples_in i xs"
  by (induction xs) (auto simp: samples_before_def samples_in_def less_Suc_eq)

lemma samples_before_le: "samples_before i xs \<le> length xs"
  by (simp add: samples_before_def)

lemma samples_before_bound:
  "i < kBoundCount \<Longrightarrow> samples_before (Suc i) xs = length (filter (\<lambda>x. x \<le> kBoundsUs ! i) xs)"
  by (simp add: samples_before_def less_Suc_eq_le find_bucket_bound)

lemma word_ge_iff: "a < 2 ^ 64 \<Longrightarrow> b < 2 ^ 64 \<Longrightarrow> (of_nat a :: u64) \<le> of_nat b \<longleftrightarrow> a \<le> b"
  by (simp add: word_le_nat_alt unat_of_nat take_bit_nat_eq_self)

lemma percentile_loop_spec:
  assumes small: "length xs < 2 ^ 64" "t \<le> length xs" and i: "i \<le> kBucketCount"
    and r: "r = percentile_loop (drop i (buckets (record_all xs))) i (of_nat (samples_before i xs)) (of_nat t)"
  shows "(\<exists>k\<ge>i. k < kBoundCount \<and> r = kBoundsUs ! k \<and> t \<le> samples_before (Suc k) xs
      \<and> (\<forall>j. i \<le> j \<and> j < k \<longrightarrow> samples_before (Suc j) xs < t))
    \<or> (r = -1 \<and> (\<forall>j. i \<le> j \<and> j < kBoundCount \<longrightarrow> samples_before (Suc j) xs < t))"
  using i r
proof (induction "kBucketCount - i" arbitrary: i)
  case 0
  then have "i = kBucketCount" by simp
  with 0 record_all_spec(1) [of xs] show ?case by (simp add: kBucketCount_def)
next
  case (Suc m)
  then have i: "i < kBucketCount" by simp
  let ?bs = "buckets (record_all xs)"
  have split: "drop i ?bs = ?bs ! i # drop (Suc i) ?bs" using i record_all_spec(1) [of xs] by (simp add: Cons_nth_drop_Suc)
  have acc: "of_nat (samples_before i xs) + ?bs ! i = (of_nat (samples_before (Suc i) xs) :: u64)"
    using record_all_spec(3) [OF i, of xs] by (simp add: samples_before_Suc)
  have bounds: "t < 2 ^ 64" "samples_before (Suc i) xs < 2 ^ 64"
    using small samples_before_le [of "Suc i" xs] by linarith+
  have cmp: "(of_nat t :: u64) \<le> of_nat (samples_before (Suc i) xs) \<longleftrightarrow> t \<le> samples_before (Suc i) xs"
    using bounds by (rule word_ge_iff)
  show ?case
  proof (cases "t \<le> samples_before (Suc i) xs")
    case enough: True
    with Suc.prems(2) split acc cmp have r: "r = (if i < kBoundCount then kBoundsUs ! i else -1)" by simp
    show ?thesis
    proof (cases "i < kBoundCount")
      case True
      with r enough show ?thesis by (intro disjI1 exI [of _ i]) auto
    next
      case False
      with r show ?thesis by auto
    qed
  next
    case less: False
    then have rec: "r = percentile_loop (drop (Suc i) ?bs) (Suc i) (of_nat (samples_before (Suc i) xs)) (of_nat t)"
      using Suc.prems(2) split acc cmp by simp
    have "m = kBucketCount - Suc i" "Suc i \<le> kBucketCount" using Suc.hyps(2) i by simp_all
    from Suc.hyps(1) [OF this rec] show ?thesis
    proof (elim disjE exE conjE)
      fix k
      assume k: "Suc i \<le> k" "k < kBoundCount" "r = kBoundsUs ! k" "t \<le> samples_before (Suc k) xs"
        and below: "\<forall>j. Suc i \<le> j \<and> j < k \<longrightarrow> samples_before (Suc j) xs < t"
      have "samples_before (Suc j) xs < t" if "i \<le> j \<and> j < k" for j
        using that below less by (cases "j = i") auto
      with k show ?thesis by (intro disjI1 exI [of _ k]) auto
    next
      assume r: "r = -1" and below: "\<forall>j. Suc i \<le> j \<and> j < kBoundCount \<longrightarrow> samples_before (Suc j) xs < t"
      have "samples_before (Suc j) xs < t" if "i \<le> j \<and> j < kBoundCount" for j
        using that below less by (cases "j = i") auto
      with r show ?thesis by simp
    qed
  qed
qed

lemma percentile_target_spec:
  assumes n: "0 < n" "n < 2 ^ 64" and p: "0 \<le> p" "p \<le> 1"
  shows "\<exists>t. percentile_target p (of_nat n) = of_nat t \<and> t \<le> n
    \<and> of_nat t \<le> of_nat n * p + 999999 / 1000000 \<and> of_nat n * p + 999999 / 1000000 < (of_nat t + 1 :: rat)"
proof -
  let ?x = "of_nat n * p + 999999 / 1000000 :: rat"
  have u: "unat (of_nat n :: u64) = n" using n by (simp add: unat_of_nat take_bit_nat_eq_self)
  have "0 \<le> of_nat n * p" "of_nat n * p \<le> of_nat n" using p by (simp_all add: mult_left_le)
  then have x: "0 \<le> ?x" "?x < of_nat n + 1" by linarith+
  obtain t where t: "\<lfloor>?x\<rfloor> = int t" using x(1) by (metis nonneg_int_cases zero_le_floor)
  have "of_int \<lfloor>?x\<rfloor> \<le> ?x" "?x < of_int \<lfloor>?x\<rfloor> + 1" using floor_correct [of ?x] by simp_all
  then have b: "of_nat t \<le> ?x" "?x < of_nat t + 1" unfolding t by simp_all
  then have "(of_nat t :: rat) < of_nat (n + 1)" using x(2) by simp
  then have "t \<le> n" by (simp only: of_nat_less_iff)
  with b t u show ?thesis by (intro exI [of _ t]) (simp add: percentile_target_def)
qed

lemma record_all_nonempty: "0 < length xs \<Longrightarrow> length xs < 2 ^ 64 \<Longrightarrow> hist_count (record_all xs) \<noteq> 0"
  using record_all_spec(2) [of xs] word_ge_iff [of "length xs" 0] by (auto simp: not_le)

section \<open>Properties\<close>


definition demo_latencies :: "int list" where
  "demo_latencies = [400, 3000, 7000, 7500, 2000000]"


text \<open>The records of a channel: one entry per completed call.\<close>

type_synonym sample = "method_ptr option \<times> RpcCallState \<times> int"

definition record_samples :: "sample list \<Rightarrow> RpcMetrics" where
  "record_samples evs = fold (\<lambda>(m, st, l). RpcMetrics_Record m st l) evs RpcMetrics_new"

definition samples_of :: "method_ptr \<Rightarrow> sample list \<Rightarrow> sample list" where
  "samples_of m evs = filter (\<lambda>e. fst e = Some m) evs"

definition summary_of :: "sample list \<Rightarrow> MethodMetrics" where
  "summary_of evs = \<lparr>total_count = of_nat (length evs),
     failed_count = of_nat (length (filter (\<lambda>(m, st, l). st \<noteq> Timeout \<and> st \<noteq> Completed) evs)),
     timeout_count = of_nat (length (filter (\<lambda>(m, st, l). st = Timeout) evs)),
     latency_hist = record_all (map (\<lambda>(m, st, l). l) evs)\<rparr>"

lemma summary_empty: "summary_of [] = MethodMetrics_new"
  by (simp add: summary_of_def MethodMetrics_new_def record_all_def)

lemma summary_snoc: "summary_of (evs @ [(m, st, l)]) = MethodMetrics_Record st l (summary_of evs)"
  by (simp add: summary_of_def MethodMetrics_Record_def record_all_def)


end
