(* ===== verification/Net_Connection.thy ===== *)
theory Net_Connection
  imports Net_Buffer "HOL-Library.Monad_Syntax" "HOL-Library.Sublist"
begin

unbundle bit_operations_syntax

text \<open>
  \<open>nebula/net/channel.cpp\<close> (what a connection asks epoll to watch, and the order in which an event runs
  the callbacks) and \<open>nebula/net/tcp_connection.cpp\<close>: one TCP connection with its two buffers, its state
  machine and its write path. All operations run on the loop thread of the connection; a call from
  another thread is the task it queues. System calls (\<open>readv\<close>, \<open>send\<close>) are arguments; what the connection
  tells the outside (sends, FIN, callbacks run or queued) is appended to \<open>outs\<close>. \<^const>\<open>None\<close> is a
  failed assertion of the buffer, which the lemmas exclude.
\<close>

section \<open>Channel\<close>

definition EPOLLIN :: u32 where "EPOLLIN = 0x001"
definition EPOLLPRI :: u32 where "EPOLLPRI = 0x002"
definition EPOLLOUT :: u32 where "EPOLLOUT = 0x004"
definition EPOLLERR :: u32 where "EPOLLERR = 0x008"
definition EPOLLHUP :: u32 where "EPOLLHUP = 0x010"
definition EPOLLRDHUP :: u32 where "EPOLLRDHUP = 0x2000"

definition kNoneEvent :: u32 where "kNoneEvent = 0"

definition kReadEvent :: u32 where
  "kReadEvent = (EPOLLIN OR EPOLLPRI OR EPOLLRDHUP)"

definition kWriteEvent :: u32 where
  "kWriteEvent = EPOLLOUT"

text \<open>\<open>updates\<close> records the interest sets passed to \<open>EventLoop::UpdateChannel\<close>.\<close>

record Channel =
  chan_fd :: int
  events :: u32
  revents :: u32
  tied :: bool
  updates :: "u32 list"

definition Channel_new :: "int \<Rightarrow> Channel" where
  "Channel_new fd = \<lparr>chan_fd = fd, events = 0, revents = 0, tied = False, updates = []\<rparr>"

definition Channel_Update :: "Channel \<Rightarrow> Channel" where
  "Channel_Update ch = ch\<lparr>updates := updates ch @ [events ch]\<rparr>"

definition EnableReading :: "Channel \<Rightarrow> Channel" where
  "EnableReading ch = Channel_Update (ch\<lparr>events := events ch OR kReadEvent\<rparr>)"

definition DisableReading :: "Channel \<Rightarrow> Channel" where
  "DisableReading ch = Channel_Update (ch\<lparr>events := events ch AND NOT kReadEvent\<rparr>)"

definition EnableWriting :: "Channel \<Rightarrow> Channel" where
  "EnableWriting ch = Channel_Update (ch\<lparr>events := events ch OR kWriteEvent\<rparr>)"

definition DisableWriting :: "Channel \<Rightarrow> Channel" where
  "DisableWriting ch = Channel_Update (ch\<lparr>events := events ch AND NOT kWriteEvent\<rparr>)"

definition DisableAll :: "Channel \<Rightarrow> Channel" where
  "DisableAll ch = Channel_Update (ch\<lparr>events := kNoneEvent\<rparr>)"

definition IsNoneEvent :: "Channel \<Rightarrow> bool" where
  "IsNoneEvent ch \<longleftrightarrow> events ch = kNoneEvent"

definition IsWriting :: "Channel \<Rightarrow> bool" where
  "IsWriting ch \<longleftrightarrow> (events ch AND kWriteEvent) \<noteq> 0"

definition IsReading :: "Channel \<Rightarrow> bool" where
  "IsReading ch \<longleftrightarrow> (events ch AND kReadEvent) \<noteq> 0"

definition Channel_Tie :: "Channel \<Rightarrow> Channel" where
  "Channel_Tie ch = ch\<lparr>tied := True\<rparr>"

text \<open>The callbacks that \<open>HandleEvent\<close> runs, in order; a tied channel runs none when its owner is gone.\<close>

datatype chan_callback = CloseCallback | ErrorCallback | ReadCallback | WriteCallback

definition HandleEventWithGuard :: "Channel \<Rightarrow> chan_callback list" where
  "HandleEventWithGuard ch =
     (if (revents ch AND EPOLLHUP) \<noteq> 0 \<and> (revents ch AND EPOLLIN) = 0 then [CloseCallback] else [])
     @ (if (revents ch AND EPOLLERR) \<noteq> 0 then [ErrorCallback] else [])
     @ (if (revents ch AND (EPOLLIN OR EPOLLPRI OR EPOLLRDHUP)) \<noteq> 0 then [ReadCallback] else [])
     @ (if (revents ch AND EPOLLOUT) \<noteq> 0 then [WriteCallback] else [])"

definition HandleEvent :: "bool \<Rightarrow> Channel \<Rightarrow> chan_callback list" where
  "HandleEvent tie_alive ch = (if \<not> tied ch \<or> tie_alive then HandleEventWithGuard ch else [])"

section \<open>TcpConnection\<close>

datatype ConnState = kConnecting | kConnected | kDisconnecting | kDisconnected

datatype conn_out =
    OutSend bytes
  | OutShutdownWrite
  | OutConnectionCallback ConnState
  | OutCloseCallback
  | OutQueueWriteComplete
  | OutQueueHighWatermark nat
  | OutRemoveChannel

record TcpConnection =
  conn_state :: ConnState
  conn_channel :: Channel
  input_buffer :: Buffer
  output_buffer :: Buffer
  connection_callback :: bool
  write_complete_callback :: bool
  close_callback :: bool
  high_watermark_callback :: bool
  high_watermark :: nat
  max_output_buffer_bytes :: nat
  max_input_buffer_bytes :: nat
  high_watermark_count :: u64
  overload_close_count :: u64
  outs :: "conn_out list"

definition TcpConnection_new :: "int \<Rightarrow> TcpConnection" where
  "TcpConnection_new fd = \<lparr>conn_state = kConnecting, conn_channel = Channel_new fd,
     input_buffer = Buffer_new kInitialSize, output_buffer = Buffer_new kInitialSize,
     connection_callback = False, write_complete_callback = False, close_callback = False,
     high_watermark_callback = False, high_watermark = 0, max_output_buffer_bytes = 0,
     max_input_buffer_bytes = 0, high_watermark_count = 0, overload_close_count = 0, outs = []\<rparr>"

definition Connected :: "TcpConnection \<Rightarrow> bool" where
  "Connected c \<longleftrightarrow> conn_state c = kConnected"

definition SetHighWatermarkCallback :: "bool \<Rightarrow> nat \<Rightarrow> TcpConnection \<Rightarrow> TcpConnection" where
  "SetHighWatermarkCallback cb mark c = c\<lparr>high_watermark_callback := cb, high_watermark := mark\<rparr>"

definition SetMaxOutputBufferBytes :: "nat \<Rightarrow> TcpConnection \<Rightarrow> TcpConnection" where
  "SetMaxOutputBufferBytes limit c = c\<lparr>max_output_buffer_bytes := limit\<rparr>"

definition SetMaxInputBufferBytes :: "nat \<Rightarrow> TcpConnection \<Rightarrow> TcpConnection" where
  "SetMaxInputBufferBytes limit c = c\<lparr>max_input_buffer_bytes := limit\<rparr>"

definition PendingOutputBytes :: "TcpConnection \<Rightarrow> nat" where
  "PendingOutputBytes c = ReadableBytes (output_buffer c)"

definition emit :: "conn_out list \<Rightarrow> TcpConnection \<Rightarrow> TcpConnection" where
  "emit es c = c\<lparr>outs := outs c @ es\<rparr>"

subsection \<open>Closing\<close>

definition HandleClose :: "TcpConnection \<Rightarrow> TcpConnection" where
  "HandleClose c =
     (if conn_state c = kDisconnected then c
      else let c1 = c\<lparr>conn_state := kDisconnected, conn_channel := DisableAll (conn_channel c)\<rparr>
        in emit ((if connection_callback c1 then [OutConnectionCallback (conn_state c1)] else [])
                 @ (if close_callback c1 then [OutCloseCallback] else [])) c1)"

definition ForceCloseInLoop :: "TcpConnection \<Rightarrow> TcpConnection" where
  "ForceCloseInLoop c =
     (if conn_state c = kDisconnected then c
      else HandleClose (c\<lparr>output_buffer := RetrieveAll (output_buffer c),
                          conn_channel := DisableWriting (conn_channel c)\<rparr>))"

text \<open>\<open>HandleError\<close> reads and discards \<open>SO_ERROR\<close>.\<close>

definition HandleError :: "TcpConnection \<Rightarrow> TcpConnection" where
  "HandleError c = ForceCloseInLoop c"

subsection \<open>Writing\<close>

definition NotifyHighWatermark :: "nat \<Rightarrow> nat \<Rightarrow> TcpConnection \<Rightarrow> TcpConnection" where
  "NotifyHighWatermark before after c =
     (if high_watermark c = 0 \<or> \<not> high_watermark_callback c then c
      else if before \<ge> high_watermark c \<or> after < high_watermark c then c
      else emit [OutQueueHighWatermark after] (c\<lparr>high_watermark_count := high_watermark_count c + 1\<rparr>))"

definition WriteInLoop :: "bytes \<Rightarrow> TcpConnection \<Rightarrow> TcpConnection option" where
  "WriteInLoop data c =
     (if conn_state c = kDisconnected \<or> data = [] then Some c
      else let before = ReadableBytes (output_buffer c);
               pending = before + length data
        in if max_output_buffer_bytes c > 0 \<and> pending > max_output_buffer_bytes c
           then Some (ForceCloseInLoop (c\<lparr>overload_close_count := overload_close_count c + 1\<rparr>))
           else let c1 = NotifyHighWatermark before pending c
             in do { b \<leftarrow> Append data (output_buffer c1); Some (c1\<lparr>output_buffer := b\<rparr>) })"

text \<open>
  The end of \<open>ShutdownInLoop\<close>, reached with an empty output buffer: from there the write path
  re-enters it after draining the buffer, so no recursion is left.
\<close>

definition ShutdownDrained :: "TcpConnection \<Rightarrow> TcpConnection" where
  "ShutdownDrained c = (if \<not> IsWriting (conn_channel c) then emit [OutShutdownWrite] c else c)"

definition EWOULDBLOCK :: int where "EWOULDBLOCK = 11"

text \<open>The two ends of the write path: the buffer has become empty, or something is left to wait for.\<close>

definition OutputDrained :: "TcpConnection \<Rightarrow> TcpConnection" where
  "OutputDrained c =
     (let c1 = (if IsWriting (conn_channel c) then c\<lparr>conn_channel := DisableWriting (conn_channel c)\<rparr> else c);
          c2 = (if write_complete_callback c1 then emit [OutQueueWriteComplete] c1 else c1)
      in if conn_state c2 = kDisconnecting then ShutdownDrained c2 else c2)"

definition WatchWritable :: "TcpConnection \<Rightarrow> TcpConnection" where
  "WatchWritable c =
     (if \<not> IsWriting (conn_channel c) then c\<lparr>conn_channel := EnableWriting (conn_channel c)\<rparr> else c)"

definition WriteOutputBufferInLoop :: "(bytes \<Rightarrow> int + nat) \<Rightarrow> TcpConnection \<Rightarrow> TcpConnection option" where
  "WriteOutputBufferInLoop send c =
     (if ReadableBytes (output_buffer c) = 0
      then Some (if IsWriting (conn_channel c)
                 then c\<lparr>conn_channel := DisableWriting (conn_channel c)\<rparr> else c)
      else let data = Peek (ReadableBytes (output_buffer c)) (output_buffer c) in
        case send data of
          Inr n \<Rightarrow>
            if n > 0
            then do {
              b \<leftarrow> Retrieve n (output_buffer c);
              let c1 = emit [OutSend (take n data)] (c\<lparr>output_buffer := b\<rparr>);
              Some (if ReadableBytes (output_buffer c1) = 0 then OutputDrained c1 else WatchWritable c1)
            }
            else Some (WatchWritable c)
        | Inl errno \<Rightarrow>
            if errno \<noteq> EWOULDBLOCK then Some (HandleError c) else Some (WatchWritable c))"

definition FlushInLoop :: "(bytes \<Rightarrow> int + nat) \<Rightarrow> TcpConnection \<Rightarrow> TcpConnection option" where
  "FlushInLoop send c =
     (if conn_state c = kDisconnected \<or> ReadableBytes (output_buffer c) = 0 then Some c
      else if IsWriting (conn_channel c) then Some c
      else WriteOutputBufferInLoop send c)"

definition ShutdownInLoop :: "(bytes \<Rightarrow> int + nat) \<Rightarrow> TcpConnection \<Rightarrow> TcpConnection option" where
  "ShutdownInLoop send c =
     (if ReadableBytes (output_buffer c) > 0
      then if \<not> IsWriting (conn_channel c) then FlushInLoop send c else Some c
      else Some (ShutdownDrained c))"

definition HandleWrite :: "(bytes \<Rightarrow> int + nat) \<Rightarrow> TcpConnection \<Rightarrow> TcpConnection option" where
  "HandleWrite send c =
     (if \<not> IsWriting (conn_channel c) then Some c else WriteOutputBufferInLoop send c)"

subsection \<open>Reading\<close>

text \<open>The message callback is a function on the connection; it is absent when no callback is set.\<close>

definition HandleRead ::
  "(nat \<Rightarrow> int + bytes) \<Rightarrow> (TcpConnection \<Rightarrow> TcpConnection) option \<Rightarrow> TcpConnection \<Rightarrow> TcpConnection option" where
  "HandleRead readv message_callback c = do {
     (r, b) \<leftarrow> ReadFd readv (input_buffer c);
     let c1 = c\<lparr>input_buffer := b\<rparr>;
     case r of
       Inr n \<Rightarrow>
         if n > 0
         then let c2 = (case message_callback of Some f \<Rightarrow> f c1 | None \<Rightarrow> c1)
              in if max_input_buffer_bytes c2 > 0 \<and> ReadableBytes (input_buffer c2) > max_input_buffer_bytes c2
                 then Some (ForceCloseInLoop (c2\<lparr>overload_close_count := overload_close_count c2 + 1\<rparr>))
                 else Some c2
         else Some (HandleClose c1)
     | Inl errno \<Rightarrow>
         if errno \<noteq> EWOULDBLOCK then Some (HandleError c1) else Some c1
   }"

subsection \<open>Entry points\<close>

datatype conn_task = TaskWrite bytes | TaskFlush | TaskShutdown | TaskForceClose

text \<open>What a call does at once, and the tasks it leaves to the loop when made from another thread.\<close>

definition Conn_Write :: "bool \<Rightarrow> bytes \<Rightarrow> TcpConnection \<Rightarrow> (TcpConnection \<times> conn_task list) option" where
  "Conn_Write in_loop data c =
     (if \<not> Connected c \<or> data = [] then Some (c, [])
      else if in_loop then map_option (\<lambda>c'. (c', [])) (WriteInLoop data c)
      else Some (c, [TaskWrite data]))"

definition Conn_Flush :: "bool \<Rightarrow> (bytes \<Rightarrow> int + nat) \<Rightarrow> TcpConnection \<Rightarrow> (TcpConnection \<times> conn_task list) option" where
  "Conn_Flush in_loop send c =
     (if \<not> Connected c then Some (c, [])
      else if in_loop then map_option (\<lambda>c'. (c', [])) (FlushInLoop send c)
      else Some (c, [TaskFlush]))"

definition Conn_Shutdown :: "bool \<Rightarrow> (bytes \<Rightarrow> int + nat) \<Rightarrow> TcpConnection \<Rightarrow> (TcpConnection \<times> conn_task list) option" where
  "Conn_Shutdown in_loop send c =
     (if conn_state c = kConnected
      then let c1 = c\<lparr>conn_state := kDisconnecting\<rparr>
        in if in_loop then map_option (\<lambda>c'. (c', [])) (ShutdownInLoop send c1)
           else Some (c1, [TaskShutdown])
      else Some (c, []))"

definition Conn_ForceClose :: "bool \<Rightarrow> TcpConnection \<Rightarrow> TcpConnection \<times> conn_task list" where
  "Conn_ForceClose in_loop c = (if in_loop then (ForceCloseInLoop c, []) else (c, [TaskForceClose]))"

definition run_conn_task :: "(bytes \<Rightarrow> int + nat) \<Rightarrow> conn_task \<Rightarrow> TcpConnection \<Rightarrow> TcpConnection option" where
  "run_conn_task send t c =
     (case t of TaskWrite data \<Rightarrow> WriteInLoop data c | TaskFlush \<Rightarrow> FlushInLoop send c
      | TaskShutdown \<Rightarrow> ShutdownInLoop send c | TaskForceClose \<Rightarrow> Some (ForceCloseInLoop c))"

definition ConnectEstablished :: "TcpConnection \<Rightarrow> TcpConnection" where
  "ConnectEstablished c =
     (let c1 = c\<lparr>conn_state := kConnected, conn_channel := EnableReading (Channel_Tie (conn_channel c))\<rparr>
      in if connection_callback c1 then emit [OutConnectionCallback (conn_state c1)] c1 else c1)"

definition ConnectDestroyed :: "TcpConnection \<Rightarrow> TcpConnection" where
  "ConnectDestroyed c =
     emit [OutRemoveChannel]
       (if conn_state c = kConnected
        then let c1 = c\<lparr>conn_state := kDisconnected, conn_channel := DisableAll (conn_channel c)\<rparr>
          in if connection_callback c1 then emit [OutConnectionCallback (conn_state c1)] c1 else c1
        else c)"

text \<open>One event of the channel, dispatched to the handlers of the connection.\<close>

definition run_chan_callback ::
  "(bytes \<Rightarrow> int + nat) \<Rightarrow> (nat \<Rightarrow> int + bytes) \<Rightarrow> (TcpConnection \<Rightarrow> TcpConnection) option \<Rightarrow>
   chan_callback \<Rightarrow> TcpConnection \<Rightarrow> TcpConnection option" where
  "run_chan_callback send readv message_callback cb c =
     (case cb of CloseCallback \<Rightarrow> Some (HandleClose c) | ErrorCallback \<Rightarrow> Some (HandleError c)
      | ReadCallback \<Rightarrow> HandleRead readv message_callback c | WriteCallback \<Rightarrow> HandleWrite send c)"

fun run_chan_callbacks ::
  "(bytes \<Rightarrow> int + nat) \<Rightarrow> (nat \<Rightarrow> int + bytes) \<Rightarrow> (TcpConnection \<Rightarrow> TcpConnection) option \<Rightarrow>
   chan_callback list \<Rightarrow> TcpConnection \<Rightarrow> TcpConnection option" where
  "run_chan_callbacks send readv message_callback [] c = Some c"
| "run_chan_callbacks send readv message_callback (cb # cbs) c = do {
     c1 \<leftarrow> run_chan_callback send readv message_callback cb c;
     run_chan_callbacks send readv message_callback cbs c1
   }"

section \<open>Sequences of operations\<close>

text \<open>
  What the loop thread does to an established connection, in any order: the public calls, a flush
  queued from another thread and the events of the channel (with a message callback that only lets
  the input accumulate). The results of the system calls are part
  of the operation.
\<close>

datatype conn_op =
    OpWrite bytes
  | OpFlush "bytes \<Rightarrow> int + nat"
  | OpShutdown "bytes \<Rightarrow> int + nat"
  | OpForceClose
  | OpEvent u32 "bytes \<Rightarrow> int + nat" "nat \<Rightarrow> int + bytes"
  | OpQueuedFlush "bytes \<Rightarrow> int + nat"

definition conn_apply :: "conn_op \<Rightarrow> TcpConnection \<Rightarrow> TcpConnection option" where
  "conn_apply op c =
     (case op of
        OpWrite data \<Rightarrow> map_option fst (Conn_Write True data c)
      | OpFlush send \<Rightarrow> map_option fst (Conn_Flush True send c)
      | OpShutdown send \<Rightarrow> map_option fst (Conn_Shutdown True send c)
      | OpForceClose \<Rightarrow> Some (fst (Conn_ForceClose True c))
      | OpEvent ev send readv \<Rightarrow>
          run_chan_callbacks send readv None
            (HandleEvent True ((conn_channel c)\<lparr>revents := ev\<rparr>)) c
      | OpQueuedFlush send \<Rightarrow> run_conn_task send TaskFlush c)"

fun conn_run :: "conn_op list \<Rightarrow> TcpConnection \<Rightarrow> TcpConnection option" where
  "conn_run [] c = Some c"
| "conn_run (op # ops) c = do { c1 \<leftarrow> conn_apply op c; conn_run ops c1 }"

text \<open>\<open>send\<close> never takes more than it is given, \<open>readv\<close> never delivers more than fits.\<close>

definition send_ok :: "(bytes \<Rightarrow> int + nat) \<Rightarrow> bool" where
  "send_ok send \<longleftrightarrow> (\<forall>d n. send d = Inr n \<longrightarrow> n \<le> length d)"

definition readv_ok :: "(nat \<Rightarrow> int + bytes) \<Rightarrow> bool" where
  "readv_ok readv \<longleftrightarrow> (\<forall>n d. readv n = Inr d \<longrightarrow> length d \<le> n)"

fun op_ok :: "conn_op \<Rightarrow> bool" where
  "op_ok (OpFlush send) = send_ok send"
| "op_ok (OpShutdown send) = send_ok send"
| "op_ok (OpEvent ev send readv) = (send_ok send \<and> readv_ok readv)"
| "op_ok (OpQueuedFlush send) = send_ok send"
| "op_ok _ = True"

text \<open>The bytes that the calls of \<open>Write\<close> accept: those made while the connection is up.\<close>

definition op_accepted :: "conn_op \<Rightarrow> TcpConnection \<Rightarrow> bytes" where
  "op_accepted op c = (case op of OpWrite data \<Rightarrow> if Connected c then data else [] | _ \<Rightarrow> [])"

fun accepted :: "conn_op list \<Rightarrow> TcpConnection \<Rightarrow> bytes" where
  "accepted [] c = []"
| "accepted (op # ops) c =
     op_accepted op c @ (case conn_apply op c of Some c1 \<Rightarrow> accepted ops c1 | None \<Rightarrow> [])"

fun out_bytes :: "conn_out \<Rightarrow> bytes" where
  "out_bytes (OutSend d) = d"
| "out_bytes _ = []"

definition sent :: "TcpConnection \<Rightarrow> bytes" where
  "sent c = concat (map out_bytes (outs c))"

definition pending :: "TcpConnection \<Rightarrow> bytes" where
  "pending c = buf_content (output_buffer c)"

section \<open>The invariant\<close>

text \<open>After FIN nothing more is sent, and FIN is sent once.\<close>

fun fin_last :: "conn_out list \<Rightarrow> bool" where
  "fin_last [] = True"
| "fin_last (OutShutdownWrite # es) = (\<forall>e\<in>set es. e \<noteq> OutShutdownWrite \<and> out_bytes e = [])"
| "fin_last (e # es) = fin_last es"

lemma fin_last_append:
  "fin_last (xs @ ys) \<longleftrightarrow> (if OutShutdownWrite \<in> set xs
     then fin_last xs \<and> (\<forall>e\<in>set ys. e \<noteq> OutShutdownWrite \<and> out_bytes e = []) else fin_last ys)"
  by (induction xs rule: fin_last.induct) auto

definition conn_inv :: "TcpConnection \<Rightarrow> bool" where
  "conn_inv c \<longleftrightarrow> buf_inv (input_buffer c) \<and> buf_inv (output_buffer c)
     \<and> (IsWriting (conn_channel c) \<longrightarrow> pending c \<noteq> [] \<and> conn_state c \<in> {kConnected, kDisconnecting})
     \<and> (max_output_buffer_bytes c > 0 \<longrightarrow> length (pending c) \<le> max_output_buffer_bytes c)
     \<and> count_list (outs c) (OutConnectionCallback kDisconnected)
         = (if conn_state c = kDisconnected \<and> connection_callback c then 1 else 0)
     \<and> count_list (outs c) OutCloseCallback = (if conn_state c = kDisconnected \<and> close_callback c then 1 else 0)
     \<and> fin_last (outs c)
     \<and> (OutShutdownWrite \<in> set (outs c) \<longrightarrow>
          conn_state c = kDisconnected \<or> (conn_state c = kDisconnecting \<and> pending c = []))"

text \<open>What an operation that adds the bytes \<open>d\<close> does to the byte stream.\<close>

definition stream_step :: "bytes \<Rightarrow> TcpConnection \<Rightarrow> TcpConnection \<Rightarrow> bool" where
  "stream_step d c c' \<longleftrightarrow> prefix (sent c') (sent c @ pending c @ d)
     \<and> (conn_state c' \<noteq> kDisconnected \<longrightarrow> conn_state c \<noteq> kDisconnected \<and> sent c' @ pending c' = sent c @ pending c @ d)
     \<and> (conn_state c = kDisconnected \<longrightarrow> sent c' = sent c)
     \<and> (conn_state c \<noteq> kConnecting \<longrightarrow> conn_state c' \<noteq> kConnecting)"

lemma stream_step_id [simp]: "stream_step [] c c"
  by (simp add: stream_step_def)

lemma stream_step_trans:
  assumes "stream_step d c c1" "stream_step e c1 c2"
  shows "stream_step (d @ e) c c2"
proof (cases "conn_state c1 = kDisconnected")
  case True
  with assms show ?thesis by (auto simp: stream_step_def intro: prefix_order.trans [of _ "sent c @ pending c @ d"])
next
  case False
  with assms have c1: "conn_state c \<noteq> kDisconnected" "sent c1 @ pending c1 = sent c @ pending c @ d"
    by (auto simp: stream_step_def)
  then have e: "sent c1 @ pending c1 @ e = sent c @ pending c @ d @ e" by (metis append_assoc)
  have "prefix (sent c2) (sent c1 @ pending c1 @ e)" "conn_state c2 \<noteq> kDisconnected \<longrightarrow> sent c2 @ pending c2 = sent c1 @ pending c1 @ e"
    "conn_state c \<noteq> kConnecting \<longrightarrow> conn_state c2 \<noteq> kConnecting"
    using assms by (simp_all add: stream_step_def)
  with c1(1) show ?thesis unfolding e by (simp add: stream_step_def)
qed

lemma IsWriting_simps [simp]:
  "\<not> IsWriting (DisableAll ch)" "\<not> IsWriting (DisableWriting ch)" "IsWriting (EnableWriting ch)"
  "IsWriting (Channel_Tie ch) = IsWriting ch" "IsWriting (EnableReading ch) = IsWriting ch"
  by (simp_all add: IsWriting_def DisableAll_def DisableWriting_def EnableWriting_def Channel_Update_def
      Channel_Tie_def EnableReading_def kNoneEvent_def kWriteEvent_def kReadEvent_def EPOLLOUT_def EPOLLIN_def
      EPOLLPRI_def EPOLLRDHUP_def and.assoc bit.conj_disj_distrib2)

lemma sent_emit [simp]: "sent (emit es c) = sent c @ concat (map out_bytes es)"
  by (simp add: sent_def emit_def)

lemma emit_fields [simp]:
  "conn_state (emit es c) = conn_state c" "conn_channel (emit es c) = conn_channel c"
  "input_buffer (emit es c) = input_buffer c" "output_buffer (emit es c) = output_buffer c" "outs (emit es c) = outs c @ es"
  "connection_callback (emit es c) = connection_callback c" "close_callback (emit es c) = close_callback c"
  "write_complete_callback (emit es c) = write_complete_callback c" "pending (emit es c) = pending c"
  "max_output_buffer_bytes (emit es c) = max_output_buffer_bytes c"
  by (simp_all add: emit_def pending_def)

lemma pending_length: "conn_inv c \<Longrightarrow> ReadableBytes (output_buffer c) = length (pending c)"
  by (simp add: conn_inv_def pending_def length_buf_content)

subsection \<open>Closing\<close>

lemma HandleClose_ok:
  assumes "conn_inv c"
  shows "conn_inv (HandleClose c) \<and> conn_state (HandleClose c) = kDisconnected \<and> stream_step [] c (HandleClose c)"
  using assms by (auto simp: HandleClose_def Let_def conn_inv_def stream_step_def fin_last_append sent_def pending_def emit_def)

lemma ForceClose_ok:
  assumes "conn_inv c"
  shows "conn_inv (ForceCloseInLoop c) \<and> conn_state (ForceCloseInLoop c) = kDisconnected \<and> stream_step [] c (ForceCloseInLoop c)"
proof (cases "conn_state c = kDisconnected")
  case True
  with assms show ?thesis by (simp add: ForceCloseInLoop_def)
next
  case False
  let ?c = "c\<lparr>output_buffer := RetrieveAll (output_buffer c), conn_channel := DisableWriting (conn_channel c)\<rparr>"
  have r: "buf_inv (RetrieveAll (output_buffer c))" "buf_content (RetrieveAll (output_buffer c)) = []"
    using RetrieveAll_spec assms by (auto simp: conn_inv_def)
  then have "conn_inv ?c" using assms False by (auto simp: conn_inv_def pending_def)
  from HandleClose_ok [OF this] False show ?thesis
    by (auto simp: ForceCloseInLoop_def stream_step_def pending_def r sent_def intro: prefix_order.trans)
qed

subsection \<open>Writing\<close>

lemma NotifyHighWatermark_fields [simp]:
  "conn_state (NotifyHighWatermark n m c) = conn_state c" "conn_channel (NotifyHighWatermark n m c) = conn_channel c"
  "input_buffer (NotifyHighWatermark n m c) = input_buffer c" "output_buffer (NotifyHighWatermark n m c) = output_buffer c"
  "connection_callback (NotifyHighWatermark n m c) = connection_callback c" "close_callback (NotifyHighWatermark n m c) = close_callback c"
  "max_output_buffer_bytes (NotifyHighWatermark n m c) = max_output_buffer_bytes c" "sent (NotifyHighWatermark n m c) = sent c"
  by (auto simp: NotifyHighWatermark_def emit_def sent_def)

lemma NotifyHighWatermark_outs:
  "\<exists>es. outs (NotifyHighWatermark n m c) = outs c @ es \<and> set es \<subseteq> {OutQueueHighWatermark m}"
  by (auto simp: NotifyHighWatermark_def emit_def)

lemma WriteInLoop_ok:
  assumes inv: "conn_inv c" and st: "OutShutdownWrite \<notin> set (outs c) \<or> data = []"
  shows "\<exists>c'. WriteInLoop data c = Some c' \<and> conn_inv c' \<and> stream_step data c c'"
proof (cases "conn_state c = kDisconnected \<or> data = []")
  case True
  with inv show ?thesis by (auto simp: WriteInLoop_def stream_step_def)
next
  case False
  let ?n = "ReadableBytes (output_buffer c)"
  show ?thesis
  proof (cases "max_output_buffer_bytes c > 0 \<and> ?n + length data > max_output_buffer_bytes c")
    case True
    let ?c = "c\<lparr>overload_close_count := overload_close_count c + 1\<rparr>"
    have "conn_inv ?c" using inv by (simp add: conn_inv_def pending_def)
    from ForceClose_ok [OF this] False True show ?thesis
      by (auto simp: WriteInLoop_def stream_step_def sent_def pending_def intro: prefix_order.trans)
  next
    case limit: False
    define c1 where "c1 = NotifyHighWatermark ?n (?n + length data) c"
    obtain es where es: "outs c1 = outs c @ es" "set es \<subseteq> {OutQueueHighWatermark (?n + length data)}"
      using NotifyHighWatermark_outs [of ?n "?n + length data" c] by (auto simp: c1_def)
    have nb: "count_list es (OutConnectionCallback kDisconnected) = 0" "count_list es OutCloseCallback = 0"
      "\<forall>e\<in>set es. e \<noteq> OutShutdownWrite \<and> out_bytes e = []" "OutShutdownWrite \<notin> set es"
      using es(2) by (auto simp: count_list_0_iff)
    obtain b where b: "Append data (output_buffer c) = Some b" "buf_inv b" "buf_content b = buf_content (output_buffer c) @ data"
      using Append_spec inv by (fastforce simp: conn_inv_def)
    have "WriteInLoop data c = Some (c1\<lparr>output_buffer := b\<rparr>)"
      using False limit b(1) by (auto simp: WriteInLoop_def Let_def c1_def)
    moreover have "conn_inv (c1\<lparr>output_buffer := b\<rparr>)"
    proof -
      have p: "pending (c1\<lparr>output_buffer := b\<rparr>) = pending c @ data" using b(3) by (simp add: pending_def)
      have fin: "OutShutdownWrite \<notin> set (outs c1)" "fin_last (outs c1)"
        using st False es(1) nb(3,4) by (auto simp: fin_last_append) (metis append_Nil2 fin_last.simps(1) fin_last_append nb(3))
      have counts: "count_list (outs c1) (OutConnectionCallback kDisconnected) = 0" "count_list (outs c1) OutCloseCallback = 0"
        using inv False es(1) nb(1,2) by (simp_all add: conn_inv_def)
      have "max_output_buffer_bytes c > 0 \<longrightarrow> length (pending c @ data) \<le> max_output_buffer_bytes c"
        using limit pending_length [OF inv] by auto
      moreover have "IsWriting (conn_channel c) \<longrightarrow> conn_state c \<in> {kConnected, kDisconnecting}"
        using inv by (simp add: conn_inv_def)
      ultimately show ?thesis
        using inv b(2) False p fin counts unfolding conn_inv_def by (simp add: c1_def)
    qed
    moreover have "stream_step data c (c1\<lparr>output_buffer := b\<rparr>)"
    proof -
      have "sent (c1\<lparr>output_buffer := b\<rparr>) = sent c1" by (simp add: sent_def)
      then have "sent (c1\<lparr>output_buffer := b\<rparr>) = sent c" by (simp add: c1_def)
      with False b(3) show ?thesis by (simp add: stream_step_def pending_def c1_def)
    qed
    ultimately show ?thesis by blast
  qed
qed

text \<open>Outside a closed connection, what was not sent yet is watched for after the attempt (no lost wake-up).\<close>

definition watched :: "TcpConnection \<Rightarrow> bool" where
  "watched c \<longleftrightarrow> conn_state c \<noteq> kDisconnected \<longrightarrow> pending c \<noteq> [] \<longrightarrow> IsWriting (conn_channel c)"

lemma enable_writing_ok:
  assumes inv: "conn_inv c" and "pending c \<noteq> []" "conn_state c \<in> {kConnected, kDisconnecting}"
  shows "conn_inv (WatchWritable c) \<and> stream_step [] c (WatchWritable c) \<and> watched (WatchWritable c)"
  using assms by (auto simp: WatchWritable_def conn_inv_def stream_step_def sent_def pending_def watched_def)

lemma ShutdownDrained_ok:
  assumes inv: "conn_inv c" and "pending c = []" "conn_state c = kDisconnecting" "OutShutdownWrite \<notin> set (outs c)"
  shows "conn_inv (ShutdownDrained c) \<and> stream_step [] c (ShutdownDrained c) \<and> OutShutdownWrite \<in> set (outs (ShutdownDrained c))"
proof -
  have "\<not> IsWriting (conn_channel c)" using inv assms(2) by (auto simp: conn_inv_def)
  with assms show ?thesis
    by (auto simp: ShutdownDrained_def conn_inv_def stream_step_def fin_last_append emit_def sent_def pending_def)
qed

text \<open>Draining the last byte: the interest in writability ends, and a connection that is shutting down sends FIN.\<close>

lemma drained_ok:
  assumes bufs: "buf_inv (input_buffer c)" "buf_inv (output_buffer c)" and p: "pending c = []"
    and st: "conn_state c \<in> {kConnected, kDisconnecting}" and fin: "OutShutdownWrite \<notin> set (outs c)" "fin_last (outs c)"
    and cb: "count_list (outs c) (OutConnectionCallback kDisconnected) = 0" "count_list (outs c) OutCloseCallback = 0"
  shows "conn_inv (OutputDrained c) \<and> stream_step [] c (OutputDrained c) \<and> watched (OutputDrained c)
    \<and> (conn_state c = kDisconnecting \<longrightarrow> OutShutdownWrite \<in> set (outs (OutputDrained c)))"
proof -
  define c1 where "c1 = (if IsWriting (conn_channel c) then c\<lparr>conn_channel := DisableWriting (conn_channel c)\<rparr> else c)"
  define c2 where "c2 = (if write_complete_callback c1 then emit [OutQueueWriteComplete] c1 else c1)"
  have c2: "conn_inv c2" "stream_step [] c c2" "pending c2 = []" "conn_state c2 = conn_state c" "OutShutdownWrite \<notin> set (outs c2)"
    using assms by (auto simp: c1_def c2_def conn_inv_def stream_step_def fin_last_append emit_def sent_def pending_def)
  have eq: "OutputDrained c = (if conn_state c2 = kDisconnecting then ShutdownDrained c2 else c2)"
    by (simp add: OutputDrained_def Let_def c1_def c2_def)
  show ?thesis
  proof (cases "conn_state c2 = kDisconnecting")
    case True
    from ShutdownDrained_ok [OF c2(1,3) True c2(5)] stream_step_trans [OF c2(2), of "[]"] c2 True show ?thesis
      by (auto simp: eq watched_def ShutdownDrained_def)
  next
    case False
    with c2 show ?thesis by (simp add: eq watched_def)
  qed
qed

lemma WriteOutput_ok:
  assumes inv: "conn_inv c" and ok: "send_ok send" and st: "conn_state c \<in> {kConnected, kDisconnecting}"
    and p: "pending c \<noteq> []"
  shows "\<exists>c'. WriteOutputBufferInLoop send c = Some c' \<and> conn_inv c' \<and> stream_step [] c c' \<and> watched c'"
proof -
  define data where "data = pending c"
  have b: "buf_inv (output_buffer c)" using inv by (simp add: conn_inv_def)
  have len: "ReadableBytes (output_buffer c) = length data" by (simp add: pending_length [OF inv] data_def)
  have peek: "Peek (length data) (output_buffer c) = data"
    using Peek_content [OF b, of "length data"] len by (simp add: data_def pending_def)
  have ne: "length data \<noteq> 0" using p by (simp add: data_def)
  have fin: "OutShutdownWrite \<notin> set (outs c)" using inv st p by (auto simp: conn_inv_def)
  show ?thesis
  proof (cases "send data")
    case (Inl errno)
    have "stream_step [] c (ForceCloseInLoop c) \<and> conn_inv (ForceCloseInLoop c) \<and> watched (ForceCloseInLoop c)"
      using ForceClose_ok [OF inv] by (auto simp: watched_def)
    with enable_writing_ok [OF inv p st] Inl len ne peek show ?thesis
      by (auto simp: WriteOutputBufferInLoop_def Let_def HandleError_def)
  next
    case (Inr n)
    show ?thesis
    proof (cases "n = 0")
      case True
      with enable_writing_ok [OF inv p st] Inr len ne peek show ?thesis
        by (auto simp: WriteOutputBufferInLoop_def Let_def)
    next
      case False
      have n: "n \<le> length data" using ok Inr by (simp add: send_ok_def)
      obtain b' where b': "Retrieve n (output_buffer c) = Some b'" "buf_inv b'" "buf_content b' = drop n data"
        using Retrieve_spec [OF b, of n] n len by (auto simp: data_def pending_def)
      define c1 where "c1 = emit [OutSend (take n data)] (c\<lparr>output_buffer := b'\<rparr>)"
      have p1: "pending c1 = drop n data" by (simp add: c1_def pending_def b'(3))
      have c1_stream: "stream_step [] c c1"
        using st by (auto simp: stream_step_def c1_def p1 [unfolded c1_def] data_def sent_def emit_def take_is_prefix append_assoc [symmetric] simp del: append_assoc)
          (auto simp: pending_def b' data_def take_is_prefix)
      have r1: "ReadableBytes (output_buffer c1) = length (drop n data)"
        using length_buf_content [OF b'(2)] b'(3) by (simp add: c1_def)
      have base: "buf_inv (input_buffer c1)" "buf_inv (output_buffer c1)" "conn_state c1 \<in> {kConnected, kDisconnecting}"
        "OutShutdownWrite \<notin> set (outs c1)" "fin_last (outs c1)"
        "count_list (outs c1) (OutConnectionCallback kDisconnected) = 0" "count_list (outs c1) OutCloseCallback = 0"
        using inv st fin b'(2) by (auto simp: c1_def conn_inv_def emit_def fin_last_append)
      have eq: "WriteOutputBufferInLoop send c = Some (if drop n data = [] then OutputDrained c1 else WatchWritable c1)"
        using Inr False len ne peek b'(1) r1 by (simp add: WriteOutputBufferInLoop_def Let_def c1_def)
      show ?thesis
      proof (cases "drop n data = []")
        case True
        from drained_ok [OF base(1,2) _ base(3-)] stream_step_trans [OF c1_stream, of "[]"] p1 True eq
        show ?thesis by simp
      next
        case more: False
        have "conn_inv c1"
          using inv base p1 more n by (auto simp: conn_inv_def c1_def data_def [symmetric])
        from enable_writing_ok [OF this _ base(3)] p1 more stream_step_trans [OF c1_stream, of "[]"] eq
        show ?thesis by simp
      qed
    qed
  qed
qed

lemma Flush_ok:
  assumes inv: "conn_inv c" and ok: "send_ok send" and st: "conn_state c \<noteq> kConnecting"
  shows "\<exists>c'. FlushInLoop send c = Some c' \<and> conn_inv c' \<and> stream_step [] c c' \<and> watched c'"
proof (cases "conn_state c = kDisconnected \<or> pending c = [] \<or> IsWriting (conn_channel c)")
  case True
  with inv pending_length [OF inv] show ?thesis by (auto simp: FlushInLoop_def watched_def)
next
  case False
  with st have "conn_state c \<in> {kConnected, kDisconnecting}" by (cases "conn_state c") auto
  from WriteOutput_ok [OF inv ok this] False pending_length [OF inv] show ?thesis by (simp add: FlushInLoop_def)
qed

lemma HandleWrite_ok:
  assumes inv: "conn_inv c" and ok: "send_ok send"
  shows "\<exists>c'. HandleWrite send c = Some c' \<and> conn_inv c' \<and> stream_step [] c c'"
proof (cases "IsWriting (conn_channel c)")
  case True
  with inv have "conn_state c \<in> {kConnected, kDisconnecting}" "pending c \<noteq> []" by (auto simp: conn_inv_def)
  from WriteOutput_ok [OF inv ok this] True show ?thesis by (auto simp: HandleWrite_def)
next
  case False
  with inv show ?thesis by (simp add: HandleWrite_def)
qed

lemma Shutdown_ok:
  assumes inv: "conn_inv c" and ok: "send_ok send" and st: "conn_state c = kDisconnecting" and fin: "OutShutdownWrite \<notin> set (outs c)"
  shows "\<exists>c'. ShutdownInLoop send c = Some c' \<and> conn_inv c' \<and> stream_step [] c c' \<and> watched c'"
proof (cases "pending c = []")
  case True
  from ShutdownDrained_ok [OF inv True st fin] True pending_length [OF inv] show ?thesis
    by (auto simp: ShutdownInLoop_def watched_def ShutdownDrained_def)
next
  case False
  from Flush_ok [OF inv ok] st False pending_length [OF inv] inv show ?thesis by (auto simp: ShutdownInLoop_def watched_def)
qed

subsection \<open>Reading\<close>

lemma ReadFd_ok:
  assumes "buf_inv b" "readv_ok readv"
  shows "\<exists>r b'. ReadFd readv b = Some (r, b') \<and> buf_inv b'"
proof (cases "readv (ReadFd_capacity b)")
  case (Inl e)
  with assms show ?thesis by (simp add: ReadFd_def Let_def)
next
  case (Inr d)
  with assms(2) have "length d \<le> ReadFd_capacity b" by (simp add: readv_ok_def)
  from ReadFd_spec [of b readv d, OF assms(1) Inr this] show ?thesis by blast
qed

lemma HandleRead_ok:
  assumes inv: "conn_inv c" and ok: "readv_ok readv"
  shows "\<exists>c'. HandleRead readv None c = Some c' \<and> conn_inv c' \<and> stream_step [] c c'"
proof -
  obtain r b where rb: "ReadFd readv (input_buffer c) = Some (r, b)" "buf_inv b"
    using ReadFd_ok ok inv by (fastforce simp: conn_inv_def)
  define c1 where "c1 = c\<lparr>input_buffer := b\<rparr>"
  define c2 where "c2 = c1\<lparr>overload_close_count := overload_close_count c1 + 1\<rparr>"
  have c1: "conn_inv c1" "stream_step [] c c1" and c2: "conn_inv c2" "stream_step [] c c2"
    using inv rb(2) by (simp_all add: c1_def c2_def conn_inv_def stream_step_def pending_def sent_def)
  have cases: "HandleRead readv None c \<in> {Some c1, Some (ForceCloseInLoop c2), Some (HandleClose c1), Some (ForceCloseInLoop c1)}"
    using rb(1) by (auto simp: HandleRead_def Let_def HandleError_def c2_def c1_def [symmetric] split: sum.splits)
  note t1 = stream_step_trans [OF c1(2), of "[]", simplified] and t2 = stream_step_trans [OF c2(2), of "[]", simplified]
  from cases show ?thesis
    using c1 ForceClose_ok [OF c2(1)] HandleClose_ok [OF c1(1)] ForceClose_ok [OF c1(1)] t1 t2 by auto
qed

lemma callbacks_ok:
  assumes "conn_inv c" "send_ok send" "readv_ok readv"
  shows "\<exists>c'. run_chan_callbacks send readv None cbs c = Some c' \<and> conn_inv c' \<and> stream_step [] c c'"
  using assms(1)
proof (induction cbs arbitrary: c)
  case (Cons cb cbs)
  have "\<exists>c1. run_chan_callback send readv None cb c = Some c1 \<and> conn_inv c1 \<and> stream_step [] c c1"
    using HandleClose_ok [OF Cons.prems] ForceClose_ok [OF Cons.prems] HandleRead_ok [OF Cons.prems assms(3)]
      HandleWrite_ok [OF Cons.prems assms(2)]
    by (cases cb) (auto simp: run_chan_callback_def HandleError_def)
  then obtain c1 where c1: "run_chan_callback send readv None cb c = Some c1" "conn_inv c1" "stream_step [] c c1" by blast
  from Cons.IH [OF c1(2)] c1 stream_step_trans [OF c1(3), of "[]"] show ?case by auto
qed simp

subsection \<open>Any sequence of operations\<close>

lemma apply_ok:
  assumes inv: "conn_inv c" and st: "conn_state c \<noteq> kConnecting" and ok: "op_ok op"
  shows "\<exists>c'. conn_apply op c = Some c' \<and> conn_inv c' \<and> stream_step (op_accepted op c) c c'"
proof (cases op)
  case (OpWrite data)
  show ?thesis
  proof (cases "Connected c \<and> data \<noteq> []")
    case True
    with inv have "OutShutdownWrite \<notin> set (outs c)" by (auto simp: conn_inv_def Connected_def)
    with WriteInLoop_ok [OF inv] OpWrite True show ?thesis
      by (fastforce simp: conn_apply_def Conn_Write_def op_accepted_def)
  next
    case False
    with OpWrite inv show ?thesis by (auto simp: conn_apply_def Conn_Write_def op_accepted_def)
  qed
next
  case (OpFlush send)
  with Flush_ok [OF inv _ st, of send] ok inv show ?thesis
    by (fastforce simp: conn_apply_def Conn_Flush_def op_accepted_def)
next
  case (OpShutdown send)
  show ?thesis
  proof (cases "conn_state c = kConnected")
    case True
    let ?c = "c\<lparr>conn_state := kDisconnecting\<rparr>"
    have c: "conn_inv ?c" "OutShutdownWrite \<notin> set (outs ?c)" "stream_step [] c ?c"
      using inv True by (auto simp: conn_inv_def stream_step_def pending_def sent_def)
    from Shutdown_ok [OF c(1) _ _ c(2), of send] ok OpShutdown True stream_step_trans [OF c(3), of "[]"] show ?thesis
      by (fastforce simp: conn_apply_def Conn_Shutdown_def op_accepted_def)
  next
    case False
    with OpShutdown inv show ?thesis by (simp add: conn_apply_def Conn_Shutdown_def op_accepted_def)
  qed
next
  case OpForceClose
  with ForceClose_ok [OF inv] show ?thesis by (simp add: conn_apply_def Conn_ForceClose_def op_accepted_def)
next
  case (OpEvent ev send readv)
  with callbacks_ok [OF inv] ok show ?thesis by (simp add: conn_apply_def op_accepted_def)
next
  case (OpQueuedFlush send)
  with Flush_ok [OF inv _ st, of send] ok show ?thesis
    by (fastforce simp: conn_apply_def run_conn_task_def op_accepted_def)
qed

lemma run_ok:
  assumes "conn_inv c" "conn_state c \<noteq> kConnecting" "list_all op_ok ops"
  shows "\<exists>c'. conn_run ops c = Some c' \<and> conn_inv c' \<and> stream_step (accepted ops c) c c'"
  using assms
proof (induction ops arbitrary: c)
  case (Cons op ops)
  then have "op_ok op" by simp
  from apply_ok [OF Cons.prems(1,2) this] obtain c1 where
    c1: "conn_apply op c = Some c1" "conn_inv c1" "stream_step (op_accepted op c) c c1" by blast
  then have "conn_state c1 \<noteq> kConnecting" using Cons.prems(2) by (simp add: stream_step_def)
  from Cons.IH [OF c1(2) this] Cons.prems(3) c1 stream_step_trans [OF c1(3)] show ?case by fastforce
qed simp

lemma established_inv:
  "conn_inv (ConnectEstablished ((TcpConnection_new fd)\<lparr>connection_callback := b1, close_callback := b2,
     write_complete_callback := b3, high_watermark_callback := b4, high_watermark := m, max_output_buffer_bytes := n\<rparr>))"
  by (simp add: ConnectEstablished_def Let_def conn_inv_def TcpConnection_new_def pending_def emit_def)
    (simp add: IsWriting_def EnableReading_def Channel_Update_def Channel_Tie_def Channel_new_def kReadEvent_def
      EPOLLIN_def EPOLLPRI_def EPOLLRDHUP_def kWriteEvent_def EPOLLOUT_def)

section \<open>Properties\<close>

definition demo_conn :: TcpConnection where
  "demo_conn = ConnectEstablished ((TcpConnection_new 5)\<lparr>connection_callback := True, close_callback := True,
     write_complete_callback := True, high_watermark_callback := True, high_watermark := 3, max_output_buffer_bytes := 8\<rparr>)"

text \<open>A socket that takes at most three bytes at a time.\<close>

definition demo_send :: "bytes \<Rightarrow> int + nat" where
  "demo_send d = Inr (min 3 (length d))"

definition demo_ops :: "conn_op list" where
  "demo_ops = [OpWrite ''ab'', OpWrite ''cde'', OpFlush demo_send, OpShutdown demo_send, OpWrite ''lost'',
     OpEvent EPOLLOUT demo_send (\<lambda>_. Inr [])]"

lemma demo_conn_ok: "conn_inv demo_conn" "conn_state demo_conn = kConnected" "list_all op_ok demo_ops"
  by (simp_all add: demo_conn_def established_inv demo_ops_def send_ok_def demo_send_def readv_ok_def)
    (simp add: ConnectEstablished_def Let_def)

text \<open>C8: Byte stream integrity. Whatever calls, flushes, writability events with partial or refused sends and read
  events happen to an established connection, no assertion fails, and the bytes handed to \<open>send\<close> followed by the bytes still
  buffered are exactly the bytes accepted by \<open>Write\<close>, in order, as long as the connection is not closed; when it is, what
  was sent is a prefix of them.\<close>

theorem connection_stream:
  assumes "conn_inv c" "conn_state c \<noteq> kConnecting" "list_all op_ok ops"
  shows "\<exists>c'. conn_run ops c = Some c' \<and> prefix (sent c') (sent c @ pending c @ accepted ops c)
    \<and> (conn_state c' \<noteq> kDisconnected \<longrightarrow> sent c' @ pending c' = sent c @ pending c @ accepted ops c)"
  using run_ok [OF assms] by (auto simp: stream_step_def)

theorem connection_stream_witness:
  "\<exists>c'. conn_run demo_ops demo_conn = Some c' \<and> accepted demo_ops demo_conn = ''abcde'' \<and> sent c' = ''abcde''
     \<and> OutShutdownWrite \<in> set (outs c') \<and> conn_state c' = kDisconnecting"
proof -
  obtain c' where run: "conn_run demo_ops demo_conn = Some c'"
    and st: "prefix (sent c') (sent demo_conn @ pending demo_conn @ accepted demo_ops demo_conn)"
    using connection_stream [of demo_conn demo_ops] demo_conn_ok by auto
  have "map_option (\<lambda>c. (sent c, OutShutdownWrite \<in> set (outs c), conn_state c)) (conn_run demo_ops demo_conn)
      = Some (''abcde'', True, kDisconnecting)" "accepted demo_ops demo_conn = ''abcde''"
    by code_simp+
  with run show ?thesis by auto
qed



text \<open>C29: No lost wake-up. After a flush of an open connection, bytes that the socket did not take are watched for: the
  channel is interested in writability exactly when bytes are left.\<close>

theorem flush_watches_rest:
  assumes "conn_inv c" "conn_state c \<in> {kConnected, kDisconnecting}" "send_ok send"
  shows "\<exists>c'. FlushInLoop send c = Some c'
    \<and> (conn_state c' \<noteq> kDisconnected \<longrightarrow> (IsWriting (conn_channel c') \<longleftrightarrow> PendingOutputBytes c' > 0))"
proof -
  have "conn_state c \<noteq> kConnecting" using assms(2) by auto
  from Flush_ok [OF assms(1,3) this] obtain c' where
    c': "FlushInLoop send c = Some c'" "conn_inv c'" "watched c'" by blast
  with pending_length [OF c'(2)] show ?thesis
    by (auto simp: watched_def conn_inv_def PendingOutputBytes_def)
qed

theorem flush_watches_rest_witness:
  "\<exists>c c'. conn_run [OpWrite ''abcde''] demo_conn = Some c \<and> FlushInLoop demo_send c = Some c'
     \<and> PendingOutputBytes c' = 2 \<and> IsWriting (conn_channel c')"
proof -
  have ne: "conn_state demo_conn \<noteq> kConnecting" and ok: "list_all op_ok [OpWrite ''abcde'']" by (simp_all add: demo_conn_ok)
  from run_ok [OF demo_conn_ok(1) ne ok] obtain c where c: "conn_run [OpWrite ''abcde''] demo_conn = Some c" "conn_inv c"
    by blast
  have "map_option (\<lambda>c. (conn_state c, map_option (\<lambda>c'. (PendingOutputBytes c', conn_state c')) (FlushInLoop demo_send c)))
      (conn_run [OpWrite ''abcde''] demo_conn) = Some (kConnected, Some (2, kConnected))" by code_simp
  with c have f: "conn_state c = kConnected" "map_option (\<lambda>c'. (PendingOutputBytes c', conn_state c')) (FlushInLoop demo_send c) = Some (2, kConnected)"
    by auto
  have "send_ok demo_send" by (simp add: send_ok_def demo_send_def)
  from flush_watches_rest [OF c(2) _ this] f c(1) show ?thesis by auto
qed

end
