(* ===== verification/Timer_Queue.thy ===== *)
theory Timer_Queue
  imports Prelude "HOL-Library.Monad_Syntax"
begin

unbundle bit_operations_syntax

text \<open>
  The hierarchical timing wheel of \<open>nebula/net/timer_queue.cpp\<close>: four levels of ten buckets that
  hold doubly linked lists of slots, a free list of reusable slots, and the identifiers handed to the
  callers. Slot indices, wheel levels and millisecond ticks are natural numbers (the sentinels
  keep their C++ values), generations and timer identifiers are words, time points are
  nanoseconds (\<open>int\<close>). The system calls (\<open>timerfd_settime\<close>, \<open>read\<close>) and the clock are arguments; the
  user's callbacks are functions on the queue and the rest of the program's state \<open>'w\<close>. The two loops
  that follow links are \<open>partial_function (option)\<close>: \<^const>\<open>None\<close> means that they do not return.
\<close>

section \<open>Data\<close>

type_synonym callable = nat
type_synonym TimerId = u64

text \<open>\<open>TimerNotify\<close> keeps a weak pointer to its owner, a function pointer that may be null, and a token.\<close>

record TimerNotify =
  owner :: nat
  handler :: "callable option"
  token :: u64

datatype TimerAction = Functor "callable option" | Notify TimerNotify

definition kInvalidSlot :: nat where
  "kInvalidSlot = 2 ^ 32 - 1"

definition kExternalTimerMask :: u64 where
  "kExternalTimerMask = push_bit 63 1"

definition kSlotIndexMask :: u64 where
  "kSlotIndexMask = push_bit 31 1 - 1"

definition kGenerationMask :: u64 where
  "kGenerationMask = 0xffffffff"

definition kWheelLevelCount :: nat where
  "kWheelLevelCount = 4"

definition kWheelSize :: nat where
  "kWheelSize = 10"

definition kInvalidWheelLevel :: nat where
  "kInvalidWheelLevel = 255"

definition kInvalidBucket :: nat where
  "kInvalidBucket = 255"

definition kWheelQuantumTicks :: "nat list" where
  "kWheelQuantumTicks = [1, 10, 100, 1000]"

record TimerBucket =
  head :: nat
  tail :: nat

record TimerSlot =
  deadline :: int
  action :: TimerAction
  external_timer_id :: u64
  wheel_rounds :: nat
  wheel_prev :: nat
  wheel_next :: nat
  next_free :: nat
  generation :: u32
  wheel_level :: nat
  bucket_index :: nat
  active :: bool

text \<open>What \<open>timerfd_settime\<close> was last told: first expiry and period.\<close>

record itimerspec =
  it_value_sec :: int
  it_value_nsec :: int
  it_interval_nsec :: int

record TimerQueue =
  slots :: "TimerSlot list"
  wheel :: "TimerBucket list list"
  free_slot_head :: nat
  active_timer_count :: nat
  wheel_epoch :: int
  current_tick :: nat
  timer_fd_armed :: bool
  timer_fd_spec :: itimerspec
  next_external_timer_id :: u64
  external_timer_slots :: "u64 \<rightharpoonup> nat"

datatype timer_exn = overflow_error string | runtime_error string

text \<open>The two readings of the clock and the result of \<open>timerfd_settime\<close> that an operation sees.\<close>

record timer_os =
  clock_now :: int
  clock_arm :: int
  settime_ok :: bool

definition TimerSlot_new :: TimerSlot where
  "TimerSlot_new = \<lparr>deadline = 0, action = Functor None, external_timer_id = 0, wheel_rounds = 0,
     wheel_prev = kInvalidSlot, wheel_next = kInvalidSlot, next_free = kInvalidSlot, generation = 0,
     wheel_level = kInvalidWheelLevel, bucket_index = kInvalidBucket, active = False\<rparr>"

definition TimerQueue_new :: "int \<Rightarrow> TimerQueue" where
  "TimerQueue_new epoch = \<lparr>slots = [],
     wheel = replicate kWheelLevelCount (replicate kWheelSize \<lparr>head = kInvalidSlot, tail = kInvalidSlot\<rparr>),
     free_slot_head = kInvalidSlot, active_timer_count = 0, wheel_epoch = epoch, current_tick = 0,
     timer_fd_armed = False,
     timer_fd_spec = \<lparr>it_value_sec = 0, it_value_nsec = 0, it_interval_nsec = 0\<rparr>,
     next_external_timer_id = 1, external_timer_slots = Map.empty\<rparr>"

text \<open>Assignments through the references \<open>slots_[i]\<close> and \<open>wheel_[level][bucket]\<close>.\<close>

definition upd_slot :: "nat \<Rightarrow> (TimerSlot \<Rightarrow> TimerSlot) \<Rightarrow> TimerQueue \<Rightarrow> TimerQueue" where
  "upd_slot i f q = q\<lparr>slots := (slots q)[i := f (slots q ! i)]\<rparr>"

definition bucket_at :: "TimerQueue \<Rightarrow> nat \<Rightarrow> nat \<Rightarrow> TimerBucket" where
  "bucket_at q l b = wheel q ! l ! b"

definition upd_bucket :: "nat \<Rightarrow> nat \<Rightarrow> (TimerBucket \<Rightarrow> TimerBucket) \<Rightarrow> TimerQueue \<Rightarrow> TimerQueue" where
  "upd_bucket l b f q = q\<lparr>wheel := (wheel q)[l := (wheel q ! l)[b := f (wheel q ! l ! b)]]\<rparr>"

section \<open>Timer identifiers\<close>

definition TimerId_Valid :: "TimerId \<Rightarrow> bool" where
  "TimerId_Valid timer_id \<longleftrightarrow> timer_id \<noteq> 0"

definition IsExternalTimerId :: "TimerId \<Rightarrow> bool" where
  "IsExternalTimerId timer_id \<longleftrightarrow> (timer_id AND kExternalTimerMask) \<noteq> 0"

definition MakeSlotTimerId :: "nat \<Rightarrow> u32 \<Rightarrow> TimerId" where
  "MakeSlotTimerId slot_index gen = (push_bit 31 (ucast gen) OR (of_nat slot_index + 1))"

definition MakeExternalTimerId :: "TimerQueue \<Rightarrow> TimerId \<times> TimerQueue" where
  "MakeExternalTimerId q =
     (let sequence = next_external_timer_id q
      in (kExternalTimerMask OR (sequence AND NOT kExternalTimerMask),
          q\<lparr>next_external_timer_id := sequence + 1\<rparr>))"

definition DecodeSlotTimerId :: "TimerId \<Rightarrow> (nat \<times> u32) option" where
  "DecodeSlotTimerId timer_id =
     (if \<not> TimerId_Valid timer_id \<or> IsExternalTimerId timer_id then None
      else let slot_token = timer_id AND kSlotIndexMask in
        if slot_token = 0 then None
        else let slot_index = unat (slot_token - 1);
                 gen = ucast (drop_bit 31 timer_id AND kGenerationMask)
          in if gen \<noteq> 0 then Some (slot_index, gen) else None)"

section \<open>Time\<close>

text \<open>\<open>duration_cast<milliseconds>\<close> truncates towards zero, \<open>ceil<milliseconds>\<close> rounds up.\<close>

definition duration_cast_ms :: "int \<Rightarrow> int" where
  "duration_cast_ms ns = (if ns \<ge> 0 then ns div 1000000 else - ((- ns) div 1000000))"

definition ceil_ms :: "int \<Rightarrow> int" where
  "ceil_ms ns = - ((- ns) div 1000000)"

definition DeadlineTick :: "TimerQueue \<Rightarrow> int \<Rightarrow> nat" where
  "DeadlineTick q d =
     (if d \<le> wheel_epoch q then 0 else nat (ceil_ms (d - wheel_epoch q)))"

definition SyncCurrentTick :: "timer_os \<Rightarrow> TimerQueue \<Rightarrow> TimerQueue" where
  "SyncCurrentTick os q =
     (let elapsed_ms = duration_cast_ms (clock_now os - wheel_epoch q);
          now_tick = (if elapsed_ms > 0 then nat elapsed_ms else 0)
      in if now_tick > current_tick q then q\<lparr>current_tick := now_tick\<rparr> else q)"

definition ArmTimerFd :: "timer_os \<Rightarrow> TimerQueue \<Rightarrow> timer_exn + TimerQueue" where
  "ArmTimerFd os q =
     (if timer_fd_armed q then Inr q
      else let next_tick = wheel_epoch q + int (current_tick q + 1) * 1000000;
               delay0 = next_tick - clock_arm os;
               delay = (if delay0 \<le> 0 then 1 else delay0)
        in if settime_ok os
           then Inr (q\<lparr>timer_fd_spec := \<lparr>it_value_sec = delay div 1000000000,
                          it_value_nsec = delay mod 1000000000, it_interval_nsec = 1000000\<rparr>,
                       timer_fd_armed := True\<rparr>)
           else Inl (runtime_error ''timerfd_settime failed''))"

definition DisarmTimerFd :: "timer_os \<Rightarrow> TimerQueue \<Rightarrow> timer_exn + TimerQueue" where
  "DisarmTimerFd os q =
     (if \<not> timer_fd_armed q then Inr q
      else if settime_ok os
        then Inr (q\<lparr>timer_fd_spec := \<lparr>it_value_sec = 0, it_value_nsec = 0, it_interval_nsec = 0\<rparr>,
                    timer_fd_armed := False\<rparr>)
        else Inl (runtime_error ''timerfd_settime failed''))"

section \<open>The life of a slot\<close>

definition AllocateSlot ::
  "int \<Rightarrow> TimerAction \<Rightarrow> u64 \<Rightarrow> TimerQueue \<Rightarrow> timer_exn + (nat \<times> TimerQueue)" where
  "AllocateSlot d act ext q0 =
     (let picked =
        (if free_slot_head q0 \<noteq> kInvalidSlot
         then let i = free_slot_head q0
              in Inr (i, q0\<lparr>free_slot_head := next_free (slots q0 ! i)\<rparr>)
         else if length (slots q0) \<ge> unat kSlotIndexMask
              then Inl (overflow_error ''timer slot index exhausted'')
              else Inr (length (slots q0), q0\<lparr>slots := slots q0 @ [TimerSlot_new]\<rparr>))
      in case picked of
           Inl e \<Rightarrow> Inl e
         | Inr (slot_index, q) \<Rightarrow>
             Inr (slot_index, upd_slot slot_index
               (\<lambda>slot. slot\<lparr>generation := (if generation slot = - 1 then 1 else generation slot + 1),
                  deadline := d, action := act, external_timer_id := ext, wheel_rounds := 0,
                  wheel_prev := kInvalidSlot, wheel_next := kInvalidSlot, next_free := kInvalidSlot,
                  wheel_level := kInvalidWheelLevel, bucket_index := kInvalidBucket,
                  active := True\<rparr>) q))"

definition ReleaseSlot :: "nat \<Rightarrow> TimerQueue \<Rightarrow> TimerQueue" where
  "ReleaseSlot slot_index q =
     (upd_slot slot_index
        (\<lambda>slot. slot\<lparr>action := Functor None, external_timer_id := 0, wheel_rounds := 0,
           wheel_prev := kInvalidSlot, wheel_next := kInvalidSlot,
           wheel_level := kInvalidWheelLevel, bucket_index := kInvalidBucket,
           active := False, next_free := free_slot_head q\<rparr>) q)\<lparr>free_slot_head := slot_index\<rparr>"

section \<open>Buckets\<close>

definition LinkTimerSlot :: "nat \<Rightarrow> nat \<Rightarrow> nat \<Rightarrow> TimerQueue \<Rightarrow> TimerQueue" where
  "LinkTimerSlot slot_index l b q =
     (let old_tail = tail (bucket_at q l b);
          q1 = upd_slot slot_index
            (\<lambda>slot. slot\<lparr>wheel_level := l, bucket_index := b, wheel_prev := old_tail,
               wheel_next := kInvalidSlot\<rparr>) q;
          q2 = (if old_tail \<noteq> kInvalidSlot
                then upd_slot old_tail (\<lambda>slot. slot\<lparr>wheel_next := slot_index\<rparr>) q1
                else upd_bucket l b (\<lambda>bk. bk\<lparr>head := slot_index\<rparr>) q1)
      in upd_bucket l b (\<lambda>bk. bk\<lparr>tail := slot_index\<rparr>) q2)"

definition UnlinkTimerSlot :: "nat \<Rightarrow> TimerQueue \<Rightarrow> TimerQueue" where
  "UnlinkTimerSlot slot_index q =
     (let slot = slots q ! slot_index; l = wheel_level slot; b = bucket_index slot;
          p = wheel_prev slot; n = wheel_next slot;
          q1 = (if p \<noteq> kInvalidSlot then upd_slot p (\<lambda>s. s\<lparr>wheel_next := n\<rparr>) q
                else upd_bucket l b (\<lambda>bk. bk\<lparr>head := n\<rparr>) q);
          q2 = (if n \<noteq> kInvalidSlot then upd_slot n (\<lambda>s. s\<lparr>wheel_prev := p\<rparr>) q1
                else upd_bucket l b (\<lambda>bk. bk\<lparr>tail := p\<rparr>) q1)
      in upd_slot slot_index
           (\<lambda>s. s\<lparr>wheel_prev := kInvalidSlot, wheel_next := kInvalidSlot,
              wheel_level := kInvalidWheelLevel, bucket_index := kInvalidBucket\<rparr>) q2)"

definition RemoveTimerSlot :: "nat \<Rightarrow> TimerQueue \<Rightarrow> TimerQueue" where
  "RemoveTimerSlot slot_index q =
     (let slot = slots q ! slot_index in
      if \<not> active slot then q
      else let q1 = (if external_timer_id slot \<noteq> 0
                     then q\<lparr>external_timer_slots := (external_timer_slots q)(external_timer_id slot := None)\<rparr>
                     else q);
               q2 = (if wheel_level slot \<noteq> kInvalidWheelLevel then UnlinkTimerSlot slot_index q1 else q1)
        in ReleaseSlot slot_index (q2\<lparr>active_timer_count := active_timer_count q2 - 1\<rparr>))"

definition wheel_level_for :: "nat \<Rightarrow> nat" where
  "wheel_level_for delta_ticks =
     (if delta_ticks < 10 then 0 else if delta_ticks < 100 then 1
      else if delta_ticks < 1000 then 2 else 3)"

definition PlaceTimerSlot :: "nat \<Rightarrow> nat \<Rightarrow> TimerQueue \<Rightarrow> TimerQueue" where
  "PlaceTimerSlot slot_index expiry_tick q =
     (let delta_ticks = expiry_tick - current_tick q;
          l = wheel_level_for delta_ticks;
          quantum_ticks = kWheelQuantumTicks ! l;
          b = (expiry_tick div quantum_ticks) mod kWheelSize;
          rounds = (if l = 3
                    then (expiry_tick div quantum_ticks - current_tick q div quantum_ticks - 1) div kWheelSize
                    else 0)
      in LinkTimerSlot slot_index l b (upd_slot slot_index (\<lambda>slot. slot\<lparr>wheel_rounds := rounds\<rparr>) q))"

definition ScheduleTimerSlot :: "nat \<Rightarrow> TimerQueue \<Rightarrow> TimerQueue" where
  "ScheduleTimerSlot slot_index q =
     (let expiry = DeadlineTick q (deadline (slots q ! slot_index));
          expiry_tick = (if expiry \<le> current_tick q then current_tick q + 1 else expiry)
      in PlaceTimerSlot slot_index expiry_tick q)"

section \<open>Adding and cancelling\<close>

definition AddTimerInLoop ::
  "timer_os \<Rightarrow> int \<Rightarrow> TimerAction \<Rightarrow> u64 \<Rightarrow> TimerQueue \<Rightarrow> (timer_exn + TimerId) \<times> TimerQueue" where
  "AddTimerInLoop os d act ext q0 =
     (let q1 = (if \<not> timer_fd_armed q0 then SyncCurrentTick os q0 else q0) in
      case AllocateSlot d act ext q1 of
        Inl e \<Rightarrow> (Inl e, q1)
      | Inr (slot_index, q2) \<Rightarrow>
          let q3 = (if ext \<noteq> 0 \<and> external_timer_slots q2 ext = None
                    then q2\<lparr>external_timer_slots := (external_timer_slots q2)(ext \<mapsto> slot_index)\<rparr>
                    else q2);
              q4 = ScheduleTimerSlot slot_index q3;
              q5 = q4\<lparr>active_timer_count := active_timer_count q4 + 1\<rparr>
          in case (if \<not> timer_fd_armed q5 then ArmTimerFd os q5 else Inr q5) of
               Inl e \<Rightarrow> (Inl e, RemoveTimerSlot slot_index q5)
             | Inr q6 \<Rightarrow>
                 if ext \<noteq> 0 then (Inr ext, q6)
                 else (Inr (MakeSlotTimerId slot_index (generation (slots q6 ! slot_index))), q6))"

definition CancelInLoop :: "timer_os \<Rightarrow> TimerId \<Rightarrow> TimerQueue \<Rightarrow> timer_exn option \<times> TimerQueue" where
  "CancelInLoop os timer_id q =
     (let found =
        (if IsExternalTimerId timer_id then external_timer_slots q timer_id
         else case DecodeSlotTimerId timer_id of
                None \<Rightarrow> None
              | Some (slot_index, gen) \<Rightarrow>
                  if slot_index \<ge> length (slots q) then None
                  else let slot = slots q ! slot_index in
                    if \<not> active slot \<or> generation slot \<noteq> gen then None else Some slot_index)
      in case found of
           None \<Rightarrow> (None, q)
         | Some slot_index \<Rightarrow>
             let q1 = RemoveTimerSlot slot_index q in
             if active_timer_count q1 = 0
             then (case DisarmTimerFd os q1 of Inl e \<Rightarrow> (Some e, q1) | Inr q2 \<Rightarrow> (None, q2))
             else (None, q1))"

text \<open>
  The public entry points. On another thread they only queue a task for the loop thread; \<open>AddTimer\<close> then
  returns the external identifier it reserved. Both overloads of \<open>AddTimer\<close> differ in the action only.
\<close>

datatype timer_task = TaskAdd int TimerAction TimerId | TaskCancel TimerId

definition AddTimer ::
  "timer_os \<Rightarrow> bool \<Rightarrow> int \<Rightarrow> TimerAction \<Rightarrow> TimerQueue \<Rightarrow> (timer_exn + TimerId) \<times> timer_task list \<times> TimerQueue" where
  "AddTimer os in_loop d act q =
     (if in_loop then (case AddTimerInLoop os d act 0 q of (r, q') \<Rightarrow> (r, [], q'))
      else case MakeExternalTimerId q of
        (timer_id, q') \<Rightarrow> (Inr timer_id, [TaskAdd d act timer_id], q'))"

definition Cancel ::
  "timer_os \<Rightarrow> bool \<Rightarrow> TimerId \<Rightarrow> TimerQueue \<Rightarrow> timer_exn option \<times> timer_task list \<times> TimerQueue" where
  "Cancel os in_loop timer_id q =
     (if \<not> TimerId_Valid timer_id then (None, [], q)
      else if in_loop then (case CancelInLoop os timer_id q of (e, q') \<Rightarrow> (e, [], q'))
      else (None, [TaskCancel timer_id], q))"

definition run_timer_task :: "timer_os \<Rightarrow> timer_task \<Rightarrow> TimerQueue \<Rightarrow> timer_exn option \<times> TimerQueue" where
  "run_timer_task os t q =
     (case t of
        TaskAdd d act timer_id \<Rightarrow>
          (case AddTimerInLoop os d act timer_id q of
             (Inl e, q') \<Rightarrow> (Some e, q') | (Inr _, q') \<Rightarrow> (None, q'))
      | TaskCancel timer_id \<Rightarrow> CancelInLoop os timer_id q)"

section \<open>Turning the wheel\<close>

text \<open>User code run by an action, and whether a weak owner can still be locked.\<close>

record 'w timer_env =
  run_callable :: "callable \<Rightarrow> TimerQueue \<times> 'w \<Rightarrow> TimerQueue \<times> 'w"
  run_handler :: "callable \<Rightarrow> nat \<Rightarrow> u64 \<Rightarrow> TimerQueue \<times> 'w \<Rightarrow> TimerQueue \<times> 'w"
  owner_alive :: "'w \<Rightarrow> nat \<Rightarrow> bool"

definition TimerNotify_Invoke ::
  "'w timer_env \<Rightarrow> TimerNotify \<Rightarrow> TimerQueue \<times> 'w \<Rightarrow> TimerQueue \<times> 'w" where
  "TimerNotify_Invoke env n qw =
     (case handler n of
        None \<Rightarrow> qw
      | Some h \<Rightarrow> if owner_alive env (snd qw) (owner n) then run_handler env h (owner n) (token n) qw
                  else qw)"

definition InvokeAction ::
  "'w timer_env \<Rightarrow> TimerAction \<Rightarrow> TimerQueue \<times> 'w \<Rightarrow> TimerQueue \<times> 'w" where
  "InvokeAction env act qw =
     (case act of
        Functor (Some callback) \<Rightarrow> run_callable env callback qw
      | Functor None \<Rightarrow> qw
      | Notify n \<Rightarrow> TimerNotify_Invoke env n qw)"

definition cascade_step :: "nat \<Rightarrow> nat \<Rightarrow> TimerQueue \<Rightarrow> TimerQueue" where
  "cascade_step l slot_index q =
     (if l = 3 \<and> wheel_rounds (slots q ! slot_index) > 0
      then upd_slot slot_index (\<lambda>slot. slot\<lparr>wheel_rounds := wheel_rounds slot - 1\<rparr>) q
      else let q1 = UnlinkTimerSlot slot_index q;
               expiry_tick = DeadlineTick q1 (deadline (slots q1 ! slot_index))
        in if expiry_tick \<le> current_tick q1
           then LinkTimerSlot slot_index 0 (current_tick q1 mod kWheelSize) q1
           else PlaceTimerSlot slot_index expiry_tick q1)"

partial_function (option) cascade_loop :: "nat \<Rightarrow> nat \<Rightarrow> TimerQueue \<Rightarrow> TimerQueue option" where
  "cascade_loop l slot_index q =
     (if slot_index = kInvalidSlot then Some q
      else let next_slot = wheel_next (slots q ! slot_index)
        in cascade_loop l next_slot (cascade_step l slot_index q))"

definition CascadeLevel :: "nat \<Rightarrow> TimerQueue \<Rightarrow> TimerQueue option" where
  "CascadeLevel l q =
     (let quantum_ticks = kWheelQuantumTicks ! l;
          b = (current_tick q div quantum_ticks) mod kWheelSize
      in cascade_loop l (head (bucket_at q l b)) q)"

definition expire_step :: "'w timer_env \<Rightarrow> nat \<Rightarrow> TimerQueue \<times> 'w \<Rightarrow> TimerQueue \<times> 'w" where
  "expire_step env b qw =
     (let q = fst qw; slot_index = head (bucket_at q 0 b); slot = slots q ! slot_index;
          expiry_tick = DeadlineTick q (deadline slot)
      in if expiry_tick > current_tick q
         then (PlaceTimerSlot slot_index expiry_tick (UnlinkTimerSlot slot_index q), snd qw)
         else InvokeAction env (action slot) (RemoveTimerSlot slot_index q, snd qw))"

partial_function (option) expire_loop ::
  "'w timer_env \<Rightarrow> nat \<Rightarrow> TimerQueue \<times> 'w \<Rightarrow> (TimerQueue \<times> 'w) option" where
  "expire_loop env b qw =
     (if head (bucket_at (fst qw) 0 b) = kInvalidSlot then Some qw
      else expire_loop env b (expire_step env b qw))"

definition ExpireCurrentBucket :: "'w timer_env \<Rightarrow> TimerQueue \<times> 'w \<Rightarrow> (TimerQueue \<times> 'w) option" where
  "ExpireCurrentBucket env qw = expire_loop env (current_tick (fst qw) mod kWheelSize) qw"

declare cascade_loop.simps [code] expire_loop.simps [code]

definition CascadeDue :: "TimerQueue \<Rightarrow> nat \<Rightarrow> TimerQueue option" where
  "CascadeDue q l =
     (if current_tick q mod kWheelQuantumTicks ! l = 0 then CascadeLevel l q else Some q)"

text \<open>One iteration of the loop in \<open>AdvanceWheel\<close>: one millisecond.\<close>

definition advance_tick :: "'w timer_env \<Rightarrow> TimerQueue \<times> 'w \<Rightarrow> (TimerQueue \<times> 'w) option" where
  "advance_tick env qw = do {
     let q0 = (fst qw)\<lparr>current_tick := current_tick (fst qw) + 1\<rparr>;
     q1 \<leftarrow> CascadeDue q0 3;
     q2 \<leftarrow> CascadeDue q1 2;
     q3 \<leftarrow> CascadeDue q2 1;
     ExpireCurrentBucket env (q3, snd qw)
   }"

fun AdvanceWheel :: "'w timer_env \<Rightarrow> nat \<Rightarrow> TimerQueue \<times> 'w \<Rightarrow> (TimerQueue \<times> 'w) option" where
  "AdvanceWheel env 0 qw = Some qw"
| "AdvanceWheel env (Suc n) qw = do { qw' \<leftarrow> advance_tick env qw; AdvanceWheel env n qw' }"

text \<open>\<open>HandleRead\<close> with the result of \<open>read\<close> on the timerfd: an \<open>errno\<close> or the number of expirations.\<close>

definition EAGAIN :: int where "EAGAIN = 11"
definition EINTR :: int where "EINTR = 4"

definition TimerQueue_HandleRead ::
  "timer_os \<Rightarrow> 'w timer_env \<Rightarrow> int + nat \<Rightarrow> TimerQueue \<times> 'w \<Rightarrow> (timer_exn option \<times> TimerQueue \<times> 'w) option" where
  "TimerQueue_HandleRead os env n qw =
     (case n of
        Inl errno \<Rightarrow>
          if errno = EAGAIN \<or> errno = EINTR then Some (None, qw)
          else Some (Some (runtime_error ''timerfd read failed''), qw)
      | Inr expirations \<Rightarrow> do {
          qw' \<leftarrow> AdvanceWheel env expirations qw;
          if active_timer_count (fst qw') = 0
          then (case DisarmTimerFd os (fst qw') of
                  Inl e \<Rightarrow> Some (Some e, qw')
                | Inr q \<Rightarrow> Some (None, q, snd qw'))
          else Some (None, qw')
        })"

end
