(* ===== verification/Rpc_Channel.thy ===== *)
theory Rpc_Channel
  imports Rpc_Codec Rpc_Metrics Net_Connection Timer_Queue
begin

unbundle bit_operations_syntax

text \<open>
  \<open>nebula/rpc/rpc_channel.cpp\<close>, the client side of a connection, with the parts of
  \<open>nebula/net/tcp_client.cpp\<close> and \<open>nebula/net/event_loop.cpp\<close> that it drives: the table of pending calls, the four ways
  in which a call completes (response, timeout, cancellation, disconnection), the admission checks, the heartbeat
  and the metrics report.

  The state of the model is the channel together with the objects it points to: connections,
  controllers, coroutine completions and response messages are tables indexed by an address. Everything
  runs on the thread of the loop, except the entry points that carry a flag \<open>in_loop\<close>: when it is false
  the call comes from another thread and leaves a task in \<open>loop_tasks\<close>. Reading the clock takes the next
  value of the sequence \<open>steady_now\<close>. User code (a \<open>done\<close> closure, a resumed coroutine, the degrade
  handler) is a function on the state, a field of the environment.
\<close>

section \<open>Data\<close>

definition kHeartbeatIntervalMs :: int where "kHeartbeatIntervalMs = 3000"

definition kHeartbeatMaxMissed :: int where "kHeartbeatMaxMissed = 3"

text \<open>
  A \<open>google::protobuf::RpcController*\<close>: null, an object of another class (of which the channel only calls
  \<open>SetFailed\<close>), or an \<open>RpcController\<close>; \<open>dynamic_cast\<close> tells them apart.
\<close>

datatype controller_ref = NullController | ForeignController nat | RpcControllerAt nat

record RpcCoroutineCompletion =
  coro_handle :: bool
  coro_request_id :: u64
  coro_trace_id :: u64
  coro_latency :: int
  coro_remote_error_code :: int

record PendingCall =
  pc_response :: nat
  pc_controller :: controller_ref
  pc_done :: "nat option"
  pc_completion :: "nat option"
  pc_method :: method_ptr
  pc_deadline :: "int option"
  pc_sent_at :: int
  pc_trace_id :: u64
  pc_timeout_timer :: TimerId
  pc_cancel_token :: int
  pc_call :: RpcCallState

datatype ConnectionState = ChConnecting | ChConnected | ChDisconnected

text \<open>The tasks that the channel and its client put into the queue of the loop.\<close>

datatype chan_task =
    TaskInvalid controller_ref "nat option" "nat option" string
  | TaskRegister u64 bytes PendingCall
  | TaskCancelCall u64
  | TaskResume nat
  | TaskFlushConnection nat
  | TaskFlushChannel
  | TaskStartMetrics int
  | TaskStopMetrics
  | TaskConnectDestroyed nat

text \<open>How the caller learns that a call is over: its closure runs, or its coroutine is queued for resumption.\<close>

datatype notification = ByClosure nat | ByCoroutine nat

text \<open>What an observer outside the channel sees, in order.\<close>

datatype chan_event =
    EvBegin notification
  | EvNotify notification
  | EvResumed nat
  | EvConnectorStart
  | EvConnectorRestart
  | EvConnectorStop
  | EvCloseFd int
  | EvReport int u64 nat

text \<open>The fields of \<open>TcpClient\<close> that matter to a channel.\<close>

record TcpClient =
  client_connect :: bool
  client_connection :: "nat option"
  next_connection_id :: nat
  client_callbacks :: bool

text \<open>
  \<open>next_request_id\<close> counts without bound; the atomic holds this number modulo 2^64. \<open>raised\<close> is the last exception
  of the timer queue, if there was any, and \<open>dangling\<close> says that a task has used the channel after
  its destruction.
\<close>

record RpcChannel =
  alive_guard :: bool
  connection :: "nat option"
  connection_state :: ConnectionState
  connection_error :: string
  pending_calls :: "(u64 \<times> PendingCall) list"
  max_pending_calls :: nat
  degrade_handler :: "nat option"
  overload_reject_count :: u64
  metrics :: RpcMetrics
  metrics_window_start :: int
  metrics_interval :: int
  metrics_timer :: TimerId
  heartbeat_missed :: int
  heartbeat_timer :: TimerId
  next_request_id :: nat
  trace_counter :: u64
  client :: TcpClient
  conns :: "nat \<Rightarrow> TcpConnection"
  controllers :: "nat \<Rightarrow> RpcController"
  foreign_errors :: "nat \<Rightarrow> string option"
  completions :: "nat \<Rightarrow> RpcCoroutineCompletion"
  responses :: "nat \<Rightarrow> bytes option"
  timer_queue :: TimerQueue
  loop_tasks :: "chan_task list"
  clock_reads :: nat
  raised :: "timer_exn option"
  dangling :: bool
  history :: "chan_event list"

text \<open>
  The environment: protobuf (meta codec, parsing of responses, descriptors), the operating system (clock,
  \<open>timerfd_settime\<close>, \<open>send\<close>, process identifier), the iteration order of \<open>unordered_map\<close>, and user code.
\<close>

record rpc_env =
  pb :: MetaCodec
  parse_response :: "nat \<Rightarrow> bytes \<Rightarrow> bool"
  service_full_name :: "method_ptr \<Rightarrow> bytes"
  method_index :: "method_ptr \<Rightarrow> u32"
  steady_now :: "nat \<Rightarrow> int"
  settime_succeeds :: "nat \<Rightarrow> bool"
  send_result :: "RpcChannel \<Rightarrow> bytes \<Rightarrow> int + nat"
  process_id :: u64
  map_order :: "RpcChannel \<Rightarrow> u64 list"
  run_user :: "nat \<Rightarrow> RpcChannel \<Rightarrow> RpcChannel"
  resume_coroutine :: "nat \<Rightarrow> RpcChannel \<Rightarrow> RpcChannel"
  run_degrade :: "nat \<Rightarrow> controller_ref \<Rightarrow> nat \<Rightarrow> string \<Rightarrow> RpcChannel \<Rightarrow> bool \<times> RpcChannel"

definition emit_event :: "chan_event \<Rightarrow> RpcChannel \<Rightarrow> RpcChannel" where
  "emit_event e s = s\<lparr>history := history s @ [e]\<rparr>"

definition QueueInLoop :: "chan_task \<Rightarrow> RpcChannel \<Rightarrow> RpcChannel" where
  "QueueInLoop t s = s\<lparr>loop_tasks := loop_tasks s @ [t]\<rparr>"

definition Now :: "rpc_env \<Rightarrow> RpcChannel \<Rightarrow> int \<times> RpcChannel" where
  "Now env s = (steady_now env (clock_reads s), s\<lparr>clock_reads := clock_reads s + 1\<rparr>)"

section \<open>Timers of the loop\<close>

definition loop_os :: "rpc_env \<Rightarrow> RpcChannel \<Rightarrow> timer_os" where
  "loop_os env s = \<lparr>clock_now = steady_now env (clock_reads s), clock_arm = steady_now env (clock_reads s + 1),
     settime_ok = settime_succeeds env (clock_reads s)\<rparr>"

definition RunAt :: "rpc_env \<Rightarrow> int \<Rightarrow> TimerAction \<Rightarrow> RpcChannel \<Rightarrow> (timer_exn + TimerId) \<times> RpcChannel" where
  "RunAt env d act s =
     (case AddTimer (loop_os env s) True d act (timer_queue s) of
        (r, ts, q) \<Rightarrow>
          let s1 = s\<lparr>timer_queue := q, clock_reads := clock_reads s + 2\<rparr>
          in (r, case r of Inr _ \<Rightarrow> s1 | Inl e \<Rightarrow> s1\<lparr>raised := Some e\<rparr>))"

definition RunAfter :: "rpc_env \<Rightarrow> int \<Rightarrow> TimerAction \<Rightarrow> RpcChannel \<Rightarrow> (timer_exn + TimerId) \<times> RpcChannel" where
  "RunAfter env delay_ms act s = (let (n, s1) = Now env s in RunAt env (n + delay_ms * 1000000) act s1)"

definition CancelTimer :: "rpc_env \<Rightarrow> TimerId \<Rightarrow> RpcChannel \<Rightarrow> RpcChannel" where
  "CancelTimer env tid s =
     (case Cancel (loop_os env s) True tid (timer_queue s) of
        (e, ts, q) \<Rightarrow>
          let s1 = s\<lparr>timer_queue := q, clock_reads := clock_reads s + 2\<rparr>
          in case e of None \<Rightarrow> s1 | Some x \<Rightarrow> s1\<lparr>raised := Some x\<rparr>)"

text \<open>The assignment of a new timer's identifier, which an exception skips.\<close>

definition set_timer :: "(TimerId \<Rightarrow> RpcChannel \<Rightarrow> RpcChannel) \<Rightarrow> timer_exn + TimerId \<Rightarrow> RpcChannel \<Rightarrow> RpcChannel" where
  "set_timer assign r s = (case r of Inl _ \<Rightarrow> s | Inr tid \<Rightarrow> assign tid s)"

text \<open>The callables of the channel's own timers.\<close>

definition kHeartbeatFunctor :: callable where "kHeartbeatFunctor = 1"
definition kMetricsFunctor :: callable where "kMetricsFunctor = 2"
definition kHandleTimeoutNotify :: callable where "kHandleTimeoutNotify = 3"

section \<open>Controllers, responses and completions\<close>

definition GenerateTraceId :: "rpc_env \<Rightarrow> RpcChannel \<Rightarrow> u64 \<times> RpcChannel" where
  "GenerateTraceId env s =
     (let process_salt = process_id env * 0x9E3779B97F4A7C15;
          value1 = process_salt XOR (trace_counter s * 0x9E3779B97F4A7C15);
          (n, s1) = Now env (s\<lparr>trace_counter := trace_counter s + 1\<rparr>)
      in (value1 XOR of_int n, s1))"

definition ResolveDeadline :: "rpc_env \<Rightarrow> controller_ref \<Rightarrow> RpcChannel \<Rightarrow> int option \<times> RpcChannel" where
  "ResolveDeadline env controller s =
     (case controller of
        RpcControllerAt k \<Rightarrow>
          (case ctrl_deadline (controllers s k) of
             Some d \<Rightarrow> (Some d, s)
           | None \<Rightarrow>
               (case timeout (controllers s k) of
                  Some t \<Rightarrow> (let (n, s1) = Now env s in (Some (n + t * 1000000), s1))
                | None \<Rightarrow> (None, s)))
      | _ \<Rightarrow> (None, s))"

definition upd_controller :: "nat \<Rightarrow> (RpcController \<Rightarrow> RpcController) \<Rightarrow> RpcChannel \<Rightarrow> RpcChannel" where
  "upd_controller k f s = s\<lparr>controllers := (controllers s)(k := f (controllers s k))\<rparr>"

definition SetControllerFailure :: "controller_ref \<Rightarrow> string \<Rightarrow> RpcChannel \<Rightarrow> RpcChannel" where
  "SetControllerFailure controller reason s =
     (case controller of
        NullController \<Rightarrow> s
      | ForeignController k \<Rightarrow> s\<lparr>foreign_errors := (foreign_errors s)(k := Some reason)\<rparr>
      | RpcControllerAt k \<Rightarrow> upd_controller k (SetFailed reason) s)"

definition SetCallState :: "controller_ref \<Rightarrow> RpcCallState \<Rightarrow> RpcChannel \<Rightarrow> RpcChannel" where
  "SetCallState controller state s =
     (case controller of RpcControllerAt k \<Rightarrow> upd_controller k (MarkCallState state) s | _ \<Rightarrow> s)"

definition ApplyFailure :: "controller_ref \<Rightarrow> string \<Rightarrow> RpcCallState \<Rightarrow> RpcChannel \<Rightarrow> RpcChannel" where
  "ApplyFailure controller reason state s = SetCallState controller state (SetControllerFailure controller reason s)"

text \<open>A response object is identified with the bytes it was last parsed from.\<close>

definition ApplyFrame :: "rpc_env \<Rightarrow> nat \<Rightarrow> controller_ref \<Rightarrow> RpcFrame \<Rightarrow> RpcChannel \<Rightarrow> RpcChannel" where
  "ApplyFrame env response controller frame s =
     (if meta_type (frame_meta frame) = ERROR
      then SetControllerFailure controller (meta_error_text (frame_meta frame)) s
      else if meta_type (frame_meta frame) \<noteq> RESPONSE
      then SetControllerFailure controller ''unexpected RPC frame type'' s
      else let s1 = s\<lparr>responses := (responses s)(response := Some (frame_payload frame))\<rparr>
        in if \<not> parse_response env response (frame_payload frame)
           then SetControllerFailure controller ''response protobuf parse failed'' s1 else s1)"

definition QueueCoroutineResume :: "nat option \<Rightarrow> RpcChannel \<Rightarrow> RpcChannel" where
  "QueueCoroutineResume completion s =
     (case completion of None \<Rightarrow> s | Some k \<Rightarrow> QueueInLoop (TaskResume k) s)"

definition upd_completion ::
  "nat option \<Rightarrow> (RpcCoroutineCompletion \<Rightarrow> RpcCoroutineCompletion) \<Rightarrow> RpcChannel \<Rightarrow> RpcChannel" where
  "upd_completion completion f s =
     (case completion of
        None \<Rightarrow> s
      | Some k \<Rightarrow> s\<lparr>completions := (completions s)(k := f (completions s k))\<rparr>)"

definition NotifyCompletion :: "rpc_env \<Rightarrow> PendingCall \<Rightarrow> RpcChannel \<Rightarrow> RpcChannel" where
  "NotifyCompletion env pc s =
     (case pc_completion pc of
        Some k \<Rightarrow> QueueCoroutineResume (Some k) (emit_event (EvNotify (ByCoroutine k)) s)
      | None \<Rightarrow>
          (case pc_done pc of
             Some d \<Rightarrow> run_user env d (emit_event (EvNotify (ByClosure d)) s)
           | None \<Rightarrow> s))"

definition duration_cast_us :: "int \<Rightarrow> int" where
  "duration_cast_us ns = sgn ns * (\<bar>ns\<bar> div 1000)"

definition RecordMetrics :: "rpc_env \<Rightarrow> PendingCall \<Rightarrow> RpcCallState \<Rightarrow> RpcChannel \<Rightarrow> int \<times> RpcChannel" where
  "RecordMetrics env pc state s =
     (let (n, s1) = Now env s;
          latency = duration_cast_us (n - pc_sent_at pc)
      in (latency, s1\<lparr>metrics := RpcMetrics_Record (Some (pc_method pc)) state latency (metrics s1)\<rparr>))"

section \<open>Completing a call\<close>

definition TakePendingCall :: "rpc_env \<Rightarrow> u64 \<Rightarrow> RpcChannel \<Rightarrow> PendingCall option \<times> RpcChannel" where
  "TakePendingCall env request_id s =
     (case map_of (pending_calls s) request_id of
        None \<Rightarrow> (None, s)
      | Some pc \<Rightarrow>
          let s1 = s\<lparr>pending_calls := filter (\<lambda>e. fst e \<noteq> request_id) (pending_calls s)\<rparr>;
              s2 = (if TimerId_Valid (pc_timeout_timer pc) then CancelTimer env (pc_timeout_timer pc) s1 else s1);
              s3 = (if pc_cancel_token pc \<ge> 0
                    then (case pc_controller pc of
                            RpcControllerAt k \<Rightarrow> upd_controller k (\<lambda>c. fst (RemoveOnCancel (pc_cancel_token pc) c)) s2
                          | _ \<Rightarrow> s2)
                    else s2)
          in (Some pc, s3))"

definition upd_call :: "u64 \<Rightarrow> (PendingCall \<Rightarrow> PendingCall) \<Rightarrow> RpcChannel \<Rightarrow> RpcChannel" where
  "upd_call request_id f s =
     s\<lparr>pending_calls := map (\<lambda>(r, pc). (r, if r = request_id then f pc else pc)) (pending_calls s)\<rparr>"

text \<open>The first steps of every completion: find the call, win it, take it out of the table.\<close>

definition ClaimCall :: "rpc_env \<Rightarrow> u64 \<Rightarrow> RpcCallState \<Rightarrow> RpcChannel \<Rightarrow> PendingCall option \<times> RpcChannel" where
  "ClaimCall env request_id state s =
     (case map_of (pending_calls s) request_id of
        None \<Rightarrow> (None, s)
      | Some pc \<Rightarrow>
          (case TryComplete state (pc_call pc) of
             (won, st) \<Rightarrow>
               if \<not> won then (None, s)
               else TakePendingCall env request_id (upd_call request_id (\<lambda>p. p\<lparr>pc_call := st\<rparr>) s)))"

definition CompleteCallWithFrame :: "rpc_env \<Rightarrow> u64 \<Rightarrow> RpcFrame \<Rightarrow> RpcChannel \<Rightarrow> RpcChannel" where
  "CompleteCallWithFrame env request_id frame s =
     (case ClaimCall env request_id Completed s of
        (None, s1) \<Rightarrow> s1
      | (Some pc, s1) \<Rightarrow>
          let server_error = (meta_type (frame_meta frame) = ERROR);
              (latency, s2) = RecordMetrics env pc (if server_error then Failed else Completed) s1;
              s3 = upd_completion (pc_completion pc) (\<lambda>c. c\<lparr>coro_latency := latency,
                     coro_remote_error_code := (if server_error then meta_error_code (frame_meta frame) else 0)\<rparr>) s2;
              s4 = SetCallState (pc_controller pc) Completed s3;
              s5 = ApplyFrame env (pc_response pc) (pc_controller pc) frame s4
          in NotifyCompletion env pc s5)"

definition CompleteCallWithFailure :: "rpc_env \<Rightarrow> u64 \<Rightarrow> string \<Rightarrow> RpcCallState \<Rightarrow> RpcChannel \<Rightarrow> RpcChannel" where
  "CompleteCallWithFailure env request_id reason state s =
     (case ClaimCall env request_id state s of
        (None, s1) \<Rightarrow> s1
      | (Some pc, s1) \<Rightarrow>
          let (latency, s2) = RecordMetrics env pc state s1;
              s3 = upd_completion (pc_completion pc) (\<lambda>c. c\<lparr>coro_latency := latency\<rparr>) s2;
              s4 = ApplyFailure (pc_controller pc) reason state s3
          in NotifyCompletion env pc s4)"

definition CompleteCallWithCancel :: "rpc_env \<Rightarrow> u64 \<Rightarrow> RpcChannel \<Rightarrow> RpcChannel" where
  "CompleteCallWithCancel env request_id s =
     (case ClaimCall env request_id Cancelled s of
        (None, s1) \<Rightarrow> s1
      | (Some pc, s1) \<Rightarrow>
          let (latency, s2) = RecordMetrics env pc Cancelled s1;
              s3 = upd_completion (pc_completion pc) (\<lambda>c. c\<lparr>coro_latency := latency\<rparr>) s2;
              s4 = (case pc_controller pc of RpcControllerAt k \<Rightarrow> upd_controller k MarkCanceled s3 | _ \<Rightarrow> s3)
          in NotifyCompletion env pc s4)"

definition FailAllPending :: "rpc_env \<Rightarrow> string \<Rightarrow> RpcChannel \<Rightarrow> RpcChannel" where
  "FailAllPending env reason s =
     fold (\<lambda>request_id. CompleteCallWithFailure env request_id reason Failed) (map_order env s) s"

text \<open>
  One pass of the loop of \<open>FailAllPendingNow\<close>, for the first call of the table; the loop ends when the table
  is empty. The closures it runs may start further calls, so that its end is a theorem.
\<close>

definition FailFirstNow :: "rpc_env \<Rightarrow> string \<Rightarrow> u64 \<Rightarrow> RpcChannel \<Rightarrow> RpcChannel" where
  "FailFirstNow env reason request_id s =
     (let won = (case map_of (pending_calls s) request_id of Some pc \<Rightarrow> fst (TryComplete Failed (pc_call pc)) | None \<Rightarrow> False);
          s1 = upd_call request_id (\<lambda>p. p\<lparr>pc_call := snd (TryComplete Failed (pc_call p))\<rparr>) s
      in case TakePendingCall env request_id s1 of
           (None, s2) \<Rightarrow> s2
         | (Some pc, s2) \<Rightarrow>
             if won
             then let (latency, s3) = RecordMetrics env pc Failed s2;
                      s4 = upd_completion (pc_completion pc) (\<lambda>c. c\<lparr>coro_latency := latency\<rparr>) s3;
                      s5 = ApplyFailure (pc_controller pc) reason Failed s4
                  in NotifyCompletion env pc s5
             else s2)"

definition FailNextNow :: "rpc_env \<Rightarrow> string \<Rightarrow> RpcChannel \<Rightarrow> RpcChannel" where
  "FailNextNow env reason s = FailFirstNow env reason (hd (map_order env s)) s"

partial_function (option) FailAllPendingNow :: "rpc_env \<Rightarrow> string \<Rightarrow> RpcChannel \<Rightarrow> RpcChannel option" where
  "FailAllPendingNow env reason s =
     (if pending_calls s = [] then Some s
      else FailAllPendingNow env reason (FailNextNow env reason s))"

section \<open>Heartbeat, connection callback and client\<close>

definition CancelHeartbeatInLoop :: "rpc_env \<Rightarrow> RpcChannel \<Rightarrow> RpcChannel" where
  "CancelHeartbeatInLoop env s =
     (if \<not> TimerId_Valid (heartbeat_timer s) then s
      else (CancelTimer env (heartbeat_timer s) s)\<lparr>heartbeat_timer := 0\<rparr>)"

definition ScheduleHeartbeatInLoop :: "rpc_env \<Rightarrow> RpcChannel \<Rightarrow> RpcChannel" where
  "ScheduleHeartbeatInLoop env s =
     (let (tid, s1) = RunAfter env kHeartbeatIntervalMs (Functor (Some kHeartbeatFunctor)) (CancelHeartbeatInLoop env s)
      in set_timer (\<lambda>t s. s\<lparr>heartbeat_timer := t\<rparr>) tid s1)"

definition OnConnection :: "rpc_env \<Rightarrow> nat \<Rightarrow> RpcChannel \<Rightarrow> RpcChannel" where
  "OnConnection env conn s =
     (if Connected (conns s conn)
      then ScheduleHeartbeatInLoop env
             (s\<lparr>connection := Some conn, connection_state := ChConnected, connection_error := [], heartbeat_missed := 0\<rparr>)
      else let s1 = CancelHeartbeatInLoop env s;
               s2 = (if connection s1 = Some conn then s1\<lparr>connection := None\<rparr> else s1)
        in if connection_state s2 = ChDisconnected then s2
           else let s3 = s2\<lparr>connection_state := ChConnecting, connection_error := ''RPC connection closed''\<rparr>
             in FailAllPending env (connection_error s3) s3)"

definition RemoveConnection :: "nat \<Rightarrow> RpcChannel \<Rightarrow> RpcChannel" where
  "RemoveConnection conn s =
     (let s1 = (if client_connection (client s) = Some conn
                then s\<lparr>client := (client s)\<lparr>client_connection := None\<rparr>\<rparr> else s);
          s2 = s1\<lparr>conns := (conns s1)(conn := (conns s1 conn)\<lparr>close_callback := False\<rparr>)\<rparr>;
          s3 = (if client_connect (client s2) then emit_event EvConnectorRestart s2 else s2)
      in QueueInLoop (TaskConnectDestroyed conn) s3)"

text \<open>
  An operation of a connection followed by the callbacks it ran: they are the last thing each of the operations used
  here does. An operation without result is a failed assertion, which \<open>Net_Connection\<close> excludes.
\<close>

definition dispatch_out :: "rpc_env \<Rightarrow> nat \<Rightarrow> conn_out \<Rightarrow> RpcChannel \<Rightarrow> RpcChannel" where
  "dispatch_out env conn e s =
     (case e of
        OutConnectionCallback st \<Rightarrow> OnConnection env conn s
      | OutCloseCallback \<Rightarrow> RemoveConnection conn s
      | _ \<Rightarrow> s)"

definition with_conn :: "rpc_env \<Rightarrow> nat \<Rightarrow> (TcpConnection \<Rightarrow> TcpConnection option) \<Rightarrow> RpcChannel \<Rightarrow> RpcChannel" where
  "with_conn env conn operation s =
     (case operation (conns s conn) of
        None \<Rightarrow> s
      | Some c \<Rightarrow>
          fold (dispatch_out env conn) (drop (length (outs (conns s conn))) (outs c))
            (s\<lparr>conns := (conns s)(conn := c)\<rparr>))"

definition conn_Write :: "rpc_env \<Rightarrow> nat \<Rightarrow> bytes \<Rightarrow> RpcChannel \<Rightarrow> RpcChannel" where
  "conn_Write env conn data s = with_conn env conn (\<lambda>c. map_option fst (Conn_Write True data c)) s"

definition conn_Flush :: "rpc_env \<Rightarrow> nat \<Rightarrow> RpcChannel \<Rightarrow> RpcChannel" where
  "conn_Flush env conn s = with_conn env conn (\<lambda>c. map_option fst (Conn_Flush True (send_result env s) c)) s"

definition conn_ForceClose :: "rpc_env \<Rightarrow> nat \<Rightarrow> RpcChannel \<Rightarrow> RpcChannel" where
  "conn_ForceClose env conn s = with_conn env conn (\<lambda>c. Some (fst (Conn_ForceClose True c))) s"

definition conn_Shutdown :: "rpc_env \<Rightarrow> nat \<Rightarrow> RpcChannel \<Rightarrow> RpcChannel" where
  "conn_Shutdown env conn s = with_conn env conn (\<lambda>c. map_option fst (Conn_Shutdown True (send_result env s) c)) s"

definition NewConnection :: "rpc_env \<Rightarrow> int \<Rightarrow> RpcChannel \<Rightarrow> RpcChannel" where
  "NewConnection env fd s =
     (if \<not> client_connect (client s) then emit_event (EvCloseFd fd) s
      else let conn = next_connection_id (client s);
               c = (TcpConnection_new fd)\<lparr>connection_callback := client_callbacks (client s), close_callback := True\<rparr>;
               s1 = s\<lparr>client := (client s)\<lparr>next_connection_id := conn + 1, client_connection := Some conn\<rparr>,
                      conns := (conns s)(conn := c)\<rparr>
        in with_conn env conn (\<lambda>c. Some (ConnectEstablished c)) s1)"

definition TcpClient_Disconnect :: "rpc_env \<Rightarrow> RpcChannel \<Rightarrow> RpcChannel" where
  "TcpClient_Disconnect env s =
     (let s1 = s\<lparr>client := (client s)\<lparr>client_connect := False\<rparr>\<rparr>
      in case client_connection (client s1) of None \<Rightarrow> s1 | Some conn \<Rightarrow> conn_Shutdown env conn s1)"

definition TcpClient_destroy :: "rpc_env \<Rightarrow> RpcChannel \<Rightarrow> RpcChannel" where
  "TcpClient_destroy env s =
     (let s1 = emit_event EvConnectorStop s
      in case client_connection (client s1) of
           None \<Rightarrow> s1
         | Some conn \<Rightarrow>
             let s2 = s1\<lparr>client := (client s1)\<lparr>client_connection := None\<rparr>,
                         conns := (conns s1)(conn := (conns s1 conn)\<lparr>connection_callback := False,
                           write_complete_callback := False, close_callback := False\<rparr>)\<rparr>
             in with_conn env conn (\<lambda>c. Some (ConnectDestroyed c)) s2)"

definition SendHeartbeatInLoop :: "rpc_env \<Rightarrow> RpcChannel \<Rightarrow> RpcChannel" where
  "SendHeartbeatInLoop env s =
     (case connection s of
        None \<Rightarrow> s
      | Some conn \<Rightarrow>
          let request_id = of_nat (next_request_id s);
              (trace_id, s1) = GenerateTraceId env (s\<lparr>next_request_id := next_request_id s + 1\<rparr>);
              meta = RpcMeta_default\<lparr>meta_type := HEARTBEAT, meta_request_id := request_id, meta_trace_id := trace_id\<rparr>;
              data = Encode (pb env) meta []
          in if data \<noteq> [] then conn_Flush env conn (conn_Write env conn data s1) else s1)"

text \<open>\<open>connection_\<close> is read again after \<open>Write\<close>; \<open>Write\<close> of at most \<open>max_output_buffer_bytes\<close>, which is not set
  for a client of this class, does not run the callback that resets it.\<close>

definition OnHeartbeatTimer :: "rpc_env \<Rightarrow> RpcChannel \<Rightarrow> RpcChannel" where
  "OnHeartbeatTimer env s =
     ScheduleHeartbeatInLoop env
       (if connection_state s \<noteq> ChConnected \<or> connection s = None then s\<lparr>heartbeat_missed := 0\<rparr>
        else if heartbeat_missed s \<ge> kHeartbeatMaxMissed
        then conn_ForceClose env (the (connection s)) (s\<lparr>heartbeat_missed := 0\<rparr>)
        else SendHeartbeatInLoop env (s\<lparr>heartbeat_missed := heartbeat_missed s + 1\<rparr>))"

section \<open>Cancellation\<close>

text \<open>
  Running a closure of a controller: user code, or the closure that cancels a call. What user code does on another
  thread are further operations of that thread.
\<close>

definition run_closure :: "rpc_env \<Rightarrow> bool \<Rightarrow> closure_event \<Rightarrow> RpcChannel \<Rightarrow> RpcChannel" where
  "run_closure env in_loop e s =
     (case e of
        Delete _ \<Rightarrow> s
      | Run (UserClosure n) \<Rightarrow> if in_loop then run_user env n s else s
      | Run (CancelCall request_id) \<Rightarrow>
          if \<not> alive_guard s then s
          else if in_loop then CompleteCallWithCancel env request_id s
          else QueueInLoop (TaskCancelCall request_id) s)"

definition controller_op :: "rpc_env \<Rightarrow> bool \<Rightarrow> nat \<Rightarrow> ctrl_op \<Rightarrow> RpcChannel \<Rightarrow> RpcChannel" where
  "controller_op env in_loop k operation s =
     (case ctrl_apply operation (controllers s k) of
        (c, es) \<Rightarrow> fold (run_closure env in_loop) es (s\<lparr>controllers := (controllers s)(k := c)\<rparr>))"

definition CancelCoroutineCall :: "rpc_env \<Rightarrow> bool \<Rightarrow> u64 \<Rightarrow> RpcChannel \<Rightarrow> RpcChannel" where
  "CancelCoroutineCall env in_loop request_id s =
     (if request_id = 0 then s
      else if in_loop then if alive_guard s then CompleteCallWithCancel env request_id s else s
      else QueueInLoop (TaskCancelCall request_id) s)"

section \<open>Starting a call\<close>

definition RejectIfUnavailable :: "rpc_env \<Rightarrow> u64 \<Rightarrow> PendingCall \<Rightarrow> RpcChannel \<Rightarrow> bool \<times> RpcChannel" where
  "RejectIfUnavailable env request_id pc s =
     (if connection_state s = ChConnected then (False, s)
      else let reason = (if connection_state s = ChDisconnected then connection_error s
                         else ''RPC connection is not available'');
               (latency, s1) = RecordMetrics env pc Failed s;
               s2 = upd_completion (pc_completion pc) (\<lambda>c. c\<lparr>coro_latency := latency\<rparr>) s1;
               s3 = ApplyFailure (pc_controller pc) reason Failed s2
        in (True, NotifyCompletion env pc s3))"

definition RejectOverloaded :: "rpc_env \<Rightarrow> PendingCall \<Rightarrow> string \<Rightarrow> RpcChannel \<Rightarrow> RpcChannel" where
  "RejectOverloaded env pc reason s =
     (let s1 = s\<lparr>overload_reject_count := overload_reject_count s + 1\<rparr>;
          (handled, s2) = (case degrade_handler s1 of
             None \<Rightarrow> (False, s1)
           | Some h \<Rightarrow> run_degrade env h (pc_controller pc) (pc_response pc) reason s1)
      in if handled then NotifyCompletion env pc (SetCallState (pc_controller pc) Completed s2)
         else NotifyCompletion env pc (ApplyFailure (pc_controller pc) reason Failed s2))"

definition RejectIfOverloaded :: "rpc_env \<Rightarrow> u64 \<Rightarrow> PendingCall \<Rightarrow> RpcChannel \<Rightarrow> bool \<times> RpcChannel" where
  "RejectIfOverloaded env request_id pc s =
     (if max_pending_calls s = 0 \<or> length (pending_calls s) < max_pending_calls s then (False, s)
      else let (latency, s1) = RecordMetrics env pc Failed s;
               s2 = upd_completion (pc_completion pc) (\<lambda>c. c\<lparr>coro_latency := latency\<rparr>) s1
        in (True, RejectOverloaded env pc ''too many pending rpcs'' s2))"

definition RejectIfExpired :: "rpc_env \<Rightarrow> u64 \<Rightarrow> PendingCall \<Rightarrow> RpcChannel \<Rightarrow> bool \<times> RpcChannel" where
  "RejectIfExpired env request_id pc s =
     (case pc_deadline pc of
        None \<Rightarrow> (False, s)
      | Some d \<Rightarrow>
          let (n, s0) = Now env s in
          if d > n then (False, s0)
          else let (latency, s1) = RecordMetrics env pc Timeout s0;
                   s2 = upd_completion (pc_completion pc) (\<lambda>c. c\<lparr>coro_latency := latency\<rparr>) s1;
                   s3 = ApplyFailure (pc_controller pc) ''RPC timeout'' Timeout s2
            in (True, NotifyCompletion env pc s3))"

definition RegisterCancelCallback :: "rpc_env \<Rightarrow> u64 \<Rightarrow> PendingCall \<Rightarrow> RpcChannel \<Rightarrow> int \<times> RpcChannel" where
  "RegisterCancelCallback env request_id pc s =
     (case pc_controller pc of
        RpcControllerAt k \<Rightarrow>
          if pc_completion pc \<noteq> None then (-1, s)
          else (case RegisterOnCancel (Some (CancelCall request_id)) (controllers s k) of
                  (tok, c, es) \<Rightarrow>
                    (tok, fold (run_closure env True) es (s\<lparr>controllers := (controllers s)(k := c)\<rparr>)))
      | _ \<Rightarrow> (-1, s))"

text \<open>The owner of the notification is the alive guard, the only owner in the model.\<close>

definition RegisterTimeoutTimer :: "rpc_env \<Rightarrow> u64 \<Rightarrow> PendingCall \<Rightarrow> RpcChannel \<Rightarrow> timer_exn option \<times> RpcChannel" where
  "RegisterTimeoutTimer env request_id pc s =
     (case pc_deadline pc of
        None \<Rightarrow> (None, s)
      | Some d \<Rightarrow>
          (case RunAt env d (Notify \<lparr>owner = 0, handler = Some kHandleTimeoutNotify, token = request_id\<rparr>) s of
             (Inl e, s1) \<Rightarrow> (Some e, s1)
           | (Inr tid, s1) \<Rightarrow> (None, upd_call request_id (\<lambda>p. p\<lparr>pc_timeout_timer := tid\<rparr>) s1)))"

definition WriteRegisteredCall :: "rpc_env \<Rightarrow> u64 \<Rightarrow> bytes \<Rightarrow> RpcChannel \<Rightarrow> RpcChannel" where
  "WriteRegisteredCall env request_id data s =
     (case connection s of
        None \<Rightarrow> CompleteCallWithFailure env request_id ''RPC connection is not available'' Failed s
      | Some conn \<Rightarrow>
          if \<not> Connected (conns s conn)
          then CompleteCallWithFailure env request_id ''RPC connection is not available'' Failed s
          else conn_Write env conn data s)"

text \<open>\<open>emplace\<close> leaves an existing entry alone.\<close>

definition emplace :: "u64 \<Rightarrow> PendingCall \<Rightarrow> RpcChannel \<Rightarrow> RpcChannel" where
  "emplace request_id pc s =
     (if map_of (pending_calls s) request_id = None then s\<lparr>pending_calls := (request_id, pc) # pending_calls s\<rparr> else s)"

text \<open>An exception of the timer queue leaves \<open>RegisterAndSend\<close> before the write.\<close>

definition RegisterAndSend :: "rpc_env \<Rightarrow> u64 \<Rightarrow> bytes \<Rightarrow> PendingCall \<Rightarrow> RpcChannel \<Rightarrow> RpcChannel" where
  "RegisterAndSend env request_id data pc s =
     (case RejectIfUnavailable env request_id pc s of
        (True, s1) \<Rightarrow> s1
      | (False, s1) \<Rightarrow>
     (case RejectIfOverloaded env request_id pc s1 of
        (True, s2) \<Rightarrow> s2
      | (False, s2) \<Rightarrow>
     (case RejectIfExpired env request_id pc s2 of
        (True, s3) \<Rightarrow> s3
      | (False, s3) \<Rightarrow>
     (case RegisterCancelCallback env request_id pc (emplace request_id pc s3) of
        (cancel_token, s4) \<Rightarrow>
          (case map_of (pending_calls s4) request_id of
             None \<Rightarrow> s4
           | Some alive \<Rightarrow>
               (case RegisterTimeoutTimer env request_id alive
                       (upd_call request_id (\<lambda>p. p\<lparr>pc_cancel_token := cancel_token\<rparr>) s4) of
                  (Some e, s5) \<Rightarrow> s5
                | (None, s5) \<Rightarrow> WriteRegisteredCall env request_id data s5))))))"

definition CompleteInvalid :: "rpc_env \<Rightarrow> controller_ref \<Rightarrow> nat option \<Rightarrow> nat option \<Rightarrow> string \<Rightarrow> RpcChannel \<Rightarrow> RpcChannel" where
  "CompleteInvalid env controller done completion reason s =
     (let s1 = ApplyFailure controller reason Invalid s
      in case done of
           Some d \<Rightarrow> run_user env d (emit_event (EvNotify (ByClosure d)) s1)
         | None \<Rightarrow>
             (case completion of
                None \<Rightarrow> s1
              | Some k \<Rightarrow> QueueCoroutineResume (Some k) (emit_event (EvNotify (ByCoroutine k)) s1)))"

definition complete_invalid ::
  "rpc_env \<Rightarrow> bool \<Rightarrow> controller_ref \<Rightarrow> nat option \<Rightarrow> nat option \<Rightarrow> string \<Rightarrow> RpcChannel \<Rightarrow> RpcChannel" where
  "complete_invalid env in_loop controller done completion reason s =
     (if in_loop then CompleteInvalid env controller done completion reason s
      else QueueInLoop (TaskInvalid controller done completion reason) s)"

definition notification_of :: "nat option \<Rightarrow> nat option \<Rightarrow> notification list" where
  "notification_of done completion =
     (case completion of Some k \<Rightarrow> [ByCoroutine k] | None \<Rightarrow> (case done of Some d \<Rightarrow> [ByClosure d] | None \<Rightarrow> []))"

text \<open>The event at the beginning marks that a caller now waits for a notification.\<close>

definition BeginCall ::
  "rpc_env \<Rightarrow> bool \<Rightarrow> method_ptr option \<Rightarrow> controller_ref \<Rightarrow> MessageLite option \<Rightarrow> nat option \<Rightarrow> nat option \<Rightarrow> nat option \<Rightarrow>
   RpcChannel \<Rightarrow> RpcChannel" where
  "BeginCall env in_loop method controller request response done completion s0 =
     (let s = fold emit_event (map EvBegin (notification_of done completion)) s0 in
      case (method, request, response) of
        (Some m, Some req, Some resp) \<Rightarrow>
          let (deadline, s1) = ResolveDeadline env controller s;
              request_id = of_nat (next_request_id s1);
              (trace_id, s2) = GenerateTraceId env (s1\<lparr>next_request_id := next_request_id s1 + 1\<rparr>);
              s3 = upd_completion completion (\<lambda>c. c\<lparr>coro_request_id := request_id, coro_trace_id := trace_id\<rparr>) s2;
              meta = RpcMeta_default\<lparr>meta_type := REQUEST, meta_request_id := request_id,
                       meta_service_name := service_full_name env m, meta_method_index := method_index env m,
                       meta_trace_id := trace_id\<rparr>;
              data = EncodeMessage (pb env) meta req
          in if data = [] then complete_invalid env in_loop controller done completion ''request frame encoding failed'' s3
             else let (sent_at, s4) = Now env s3;
                      pc = \<lparr>pc_response = resp, pc_controller = controller, pc_done = done, pc_completion = completion,
                            pc_method = m, pc_deadline = deadline, pc_sent_at = sent_at, pc_trace_id = trace_id,
                            pc_timeout_timer = 0, pc_cancel_token = -1, pc_call = Pending\<rparr>
               in if in_loop then RegisterAndSend env request_id data pc s4
                  else QueueInLoop (TaskRegister request_id data pc) s4
      | _ \<Rightarrow> complete_invalid env in_loop controller done completion ''invalid RPC call arguments'' s)"

definition CallMethod ::
  "rpc_env \<Rightarrow> bool \<Rightarrow> method_ptr option \<Rightarrow> controller_ref \<Rightarrow> MessageLite option \<Rightarrow> nat option \<Rightarrow> nat option \<Rightarrow>
   RpcChannel \<Rightarrow> RpcChannel" where
  "CallMethod env in_loop method controller request response done s =
     (case done of
        None \<Rightarrow> ApplyFailure controller ''async RpcChannel requires a non-null done callback'' Invalid s
      | Some d \<Rightarrow> BeginCall env in_loop method controller request response (Some d) None s)"

text \<open>Must be called on the thread of the loop.\<close>

definition StartCoroutineCall ::
  "rpc_env \<Rightarrow> method_ptr option \<Rightarrow> controller_ref \<Rightarrow> MessageLite option \<Rightarrow> nat option \<Rightarrow> nat option \<Rightarrow>
   RpcChannel \<Rightarrow> RpcChannel" where
  "StartCoroutineCall env method controller request response completion s =
     (case completion of
        None \<Rightarrow> ApplyFailure controller ''coroutine RPC requires a completion state'' Invalid s
      | Some k \<Rightarrow> BeginCall env True method controller request response None (Some k) s)"

section \<open>Incoming data and timers\<close>

definition HandleFrame :: "rpc_env \<Rightarrow> RpcFrame \<Rightarrow> RpcChannel \<Rightarrow> RpcChannel" where
  "HandleFrame env frame s =
     (if meta_type (frame_meta frame) = HEARTBEAT then s\<lparr>heartbeat_missed := 0\<rparr>
      else CompleteCallWithFrame env (meta_request_id (frame_meta frame)) frame s)"

definition ProtocolError :: "rpc_env \<Rightarrow> string \<Rightarrow> RpcChannel \<Rightarrow> RpcChannel" where
  "ProtocolError env error s =
     (let s1 = s\<lparr>connection_state := ChDisconnected, connection_error := ''RPC protocol error: '' @ error\<rparr>
      in TcpClient_Disconnect env (FailAllPending env (connection_error s1) s1))"

definition set_input :: "nat \<Rightarrow> Buffer \<Rightarrow> RpcChannel \<Rightarrow> RpcChannel" where
  "set_input conn b s = s\<lparr>conns := (conns s)(conn := (conns s conn)\<lparr>input_buffer := b\<rparr>)\<rparr>"

text \<open>\<^const>\<open>None\<close> is a failed assertion of the buffer, or a loop that does not end; the lemmas exclude both.\<close>

partial_function (option) OnMessage :: "rpc_env \<Rightarrow> nat \<Rightarrow> RpcChannel \<Rightarrow> RpcChannel option" where
  "OnMessage env conn s =
     (case Decode (pb env) (input_buffer (conns s conn)) of
        None \<Rightarrow> None
      | Some kNeedMore \<Rightarrow> Some (QueueInLoop (TaskFlushConnection conn) s)
      | Some (kError error) \<Rightarrow> Some (ProtocolError env error s)
      | Some (kOk frame) \<Rightarrow>
          (let s1 = HandleFrame env frame s in
           case Retrieve (wire_size frame) (input_buffer (conns s1 conn)) of
             None \<Rightarrow> None
           | Some b \<Rightarrow> OnMessage env conn (set_input conn b s1)))"

definition OnTimeout :: "rpc_env \<Rightarrow> u64 \<Rightarrow> RpcChannel \<Rightarrow> RpcChannel" where
  "OnTimeout env request_id s = CompleteCallWithFailure env request_id ''RPC timeout'' Timeout s"

definition HandleTimeoutNotify :: "rpc_env \<Rightarrow> u64 \<Rightarrow> RpcChannel \<Rightarrow> RpcChannel" where
  "HandleTimeoutNotify env request_id s = (if \<not> alive_guard s then s else OnTimeout env request_id s)"

section \<open>Metrics report\<close>

definition ReportMetricsInLoop :: "rpc_env \<Rightarrow> RpcChannel \<Rightarrow> RpcChannel" where
  "ReportMetricsInLoop env s =
     (let s1 = (if TimerId_Valid (metrics_timer s) then (CancelTimer env (metrics_timer s) s)\<lparr>metrics_timer := 0\<rparr> else s)
      in if metrics_interval s1 \<le> 0 then s1
         else let (n, s2) = Now env s1;
                  elapsed = duration_cast_ms (n - metrics_window_start s2);
                  (count, m) = TakeCycleCount (metrics s2);
                  s3 = emit_event (EvReport elapsed count (length (pending_calls s2))) (s2\<lparr>metrics := m\<rparr>);
                  (n', s4) = Now env s3;
                  (tid, s5) = RunAfter env (metrics_interval s4) (Functor (Some kMetricsFunctor)) (s4\<lparr>metrics_window_start := n'\<rparr>)
           in set_timer (\<lambda>t s. s\<lparr>metrics_timer := t\<rparr>) tid s5)"

definition StartMetricsInLoop :: "rpc_env \<Rightarrow> int \<Rightarrow> RpcChannel \<Rightarrow> RpcChannel" where
  "StartMetricsInLoop env interval s =
     (let (n, s1) = Now env s;
          s2 = s1\<lparr>metrics_interval := interval, metrics_window_start := n\<rparr>
      in if interval \<le> 0 then s2
         else let (tid, s3) = RunAfter env interval (Functor (Some kMetricsFunctor)) s2
           in set_timer (\<lambda>t s. s\<lparr>metrics_timer := t\<rparr>) tid s3)"

definition StartMetricsReport :: "rpc_env \<Rightarrow> bool \<Rightarrow> int \<Rightarrow> RpcChannel \<Rightarrow> RpcChannel" where
  "StartMetricsReport env in_loop interval s =
     (if in_loop then StartMetricsInLoop env interval s else QueueInLoop (TaskStartMetrics interval) s)"

definition StopMetricsInLoop :: "rpc_env \<Rightarrow> RpcChannel \<Rightarrow> RpcChannel" where
  "StopMetricsInLoop env s =
     (let s1 = s\<lparr>metrics_interval := 0\<rparr>
      in if TimerId_Valid (metrics_timer s1) then (CancelTimer env (metrics_timer s1) s1)\<lparr>metrics_timer := 0\<rparr> else s1)"

definition StopMetricsReport :: "rpc_env \<Rightarrow> bool \<Rightarrow> RpcChannel \<Rightarrow> RpcChannel" where
  "StopMetricsReport env in_loop s = (if in_loop then StopMetricsInLoop env s else QueueInLoop TaskStopMetrics s)"

section \<open>Other public operations, construction and destruction\<close>

definition RpcChannel_Connected :: "RpcChannel \<Rightarrow> bool" where
  "RpcChannel_Connected s \<longleftrightarrow> connection_state s = ChConnected \<and> connection s \<noteq> None"

definition Flush :: "rpc_env \<Rightarrow> bool \<Rightarrow> RpcChannel \<Rightarrow> RpcChannel" where
  "Flush env in_loop s =
     (if in_loop then (case connection s of None \<Rightarrow> s | Some conn \<Rightarrow> conn_Flush env conn s)
      else QueueInLoop TaskFlushChannel s)"

definition SetMaxPendingCalls :: "nat \<Rightarrow> RpcChannel \<Rightarrow> RpcChannel" where
  "SetMaxPendingCalls n s = s\<lparr>max_pending_calls := n\<rparr>"

definition SetDegradeHandler :: "nat option \<Rightarrow> RpcChannel \<Rightarrow> RpcChannel" where
  "SetDegradeHandler h s = s\<lparr>degrade_handler := h\<rparr>"

definition PendingCallCount :: "RpcChannel \<Rightarrow> nat" where
  "PendingCallCount s = length (pending_calls s)"

definition RpcChannel_new :: "int \<Rightarrow> RpcChannel" where
  "RpcChannel_new epoch = \<lparr>alive_guard = True, connection = None, connection_state = ChConnecting, connection_error = [],
     pending_calls = [], max_pending_calls = 0, degrade_handler = None, overload_reject_count = 0,
     metrics = RpcMetrics_new, metrics_window_start = 0, metrics_interval = 0, metrics_timer = 0,
     heartbeat_missed = 0, heartbeat_timer = 0, next_request_id = 1, trace_counter = 0,
     client = \<lparr>client_connect = True, client_connection = None, next_connection_id = 1, client_callbacks = True\<rparr>,
     conns = (\<lambda>_. TcpConnection_new 0), controllers = (\<lambda>_. RpcController_new), foreign_errors = (\<lambda>_. None),
     completions = (\<lambda>_. \<lparr>coro_handle = True, coro_request_id = 0, coro_trace_id = 0, coro_latency = 0, coro_remote_error_code = 0\<rparr>),
     responses = (\<lambda>_. None), timer_queue = TimerQueue_new epoch, loop_tasks = [], clock_reads = 0, raised = None,
     dangling = False, history = [EvConnectorStart]\<rparr>"

definition prepare_destroy :: "rpc_env \<Rightarrow> RpcChannel \<Rightarrow> RpcChannel" where
  "prepare_destroy env s =
     (let s1 = StopMetricsReport env True (CancelHeartbeatInLoop env s);
          s2 = s1\<lparr>alive_guard := False, client := (client s1)\<lparr>client_callbacks := False\<rparr>\<rparr>;
          s3 = TcpClient_destroy env s2
      in s3\<lparr>connection := None\<rparr>)"

definition RpcChannel_destroy :: "rpc_env \<Rightarrow> RpcChannel \<Rightarrow> RpcChannel option" where
  "RpcChannel_destroy env s = FailAllPendingNow env ''RPC channel closed'' (prepare_destroy env s)"

text \<open>
  The tasks of the loop. Those that capture a weak pointer to the alive guard give up on a destroyed channel;
  \<open>TaskInvalid\<close>, \<open>TaskRegister\<close> and the two metrics tasks capture \<open>this\<close>: on a destroyed channel their behaviour is
  undefined, which \<^const>\<open>dangling\<close> records.
\<close>

definition run_task :: "rpc_env \<Rightarrow> chan_task \<Rightarrow> RpcChannel \<Rightarrow> RpcChannel" where
  "run_task env t s =
     (case t of
        TaskInvalid controller done completion reason \<Rightarrow>
          if alive_guard s then CompleteInvalid env controller done completion reason s else s\<lparr>dangling := True\<rparr>
      | TaskRegister request_id data pc \<Rightarrow>
          if alive_guard s then RegisterAndSend env request_id data pc s else s\<lparr>dangling := True\<rparr>
      | TaskCancelCall request_id \<Rightarrow> if alive_guard s then CompleteCallWithCancel env request_id s else s
      | TaskResume k \<Rightarrow>
          if coro_handle (completions s k)
          then resume_coroutine env k (emit_event (EvResumed k)
                 (upd_completion (Some k) (\<lambda>c. c\<lparr>coro_handle := False\<rparr>) s))
          else s
      | TaskFlushConnection conn \<Rightarrow> conn_Flush env conn s
      | TaskFlushChannel \<Rightarrow> if alive_guard s then Flush env True s else s
      | TaskStartMetrics interval \<Rightarrow> if alive_guard s then StartMetricsInLoop env interval s else s\<lparr>dangling := True\<rparr>
      | TaskStopMetrics \<Rightarrow> if alive_guard s then StopMetricsInLoop env s else s\<lparr>dangling := True\<rparr>
      | TaskConnectDestroyed conn \<Rightarrow> with_conn env conn (\<lambda>c. Some (ConnectDestroyed c)) s)"

text \<open>The loop runs a queued task; the order between the tasks of this and other threads is left open.\<close>

definition run_queued :: "rpc_env \<Rightarrow> nat \<Rightarrow> RpcChannel \<Rightarrow> RpcChannel" where
  "run_queued env i s =
     (if i < length (loop_tasks s)
      then run_task env (loop_tasks s ! i) (s\<lparr>loop_tasks := take i (loop_tasks s) @ drop (Suc i) (loop_tasks s)\<rparr>)
      else s)"

text \<open>An event of the channel of a connection; the message callback is set and cleared together with the connection callback.\<close>

datatype conn_event = ConnReadable "int + bytes" | ConnWritable | ConnHangup | ConnError

definition handle_conn_event :: "rpc_env \<Rightarrow> nat \<Rightarrow> conn_event \<Rightarrow> RpcChannel \<Rightarrow> RpcChannel option" where
  "handle_conn_event env conn e s =
     (case e of
        ConnReadable result \<Rightarrow>
          (case ReadFd (\<lambda>_. result) (input_buffer (conns s conn)) of
             None \<Rightarrow> None
           | Some (r, b) \<Rightarrow>
               if (case r of Inr n \<Rightarrow> n > 0 | Inl _ \<Rightarrow> False) \<and> connection_callback (conns s conn)
               then OnMessage env conn (set_input conn b s)
               else Some (with_conn env conn (HandleRead (\<lambda>_. result) None) s))
      | ConnWritable \<Rightarrow> Some (with_conn env conn (HandleWrite (send_result env s)) s)
      | ConnHangup \<Rightarrow> Some (with_conn env conn (\<lambda>c. Some (HandleClose c)) s)
      | ConnError \<Rightarrow> Some (with_conn env conn (\<lambda>c. Some (HandleError c)) s))"

section \<open>User code\<close>

text \<open>
  What callbacks, coroutines and the degrade handler do: they use the public operations of the channel and
  of controllers, on the thread of the loop.
\<close>

datatype user_op =
    UCall "method_ptr option" controller_ref "MessageLite option" "nat option" "nat option"
  | UCoroutine "method_ptr option" controller_ref "MessageLite option" "nat option" "nat option"
  | UCancelCoroutine u64
  | UFlush
  | UController nat ctrl_op
  | USetDegrade "nat option"
  | UStartMetrics int
  | UStopMetrics

definition user_apply :: "rpc_env \<Rightarrow> user_op \<Rightarrow> RpcChannel \<Rightarrow> RpcChannel" where
  "user_apply env u s =
     (case u of
        UCall m c req resp done \<Rightarrow> CallMethod env True m c req resp done s
      | UCoroutine m c req resp k \<Rightarrow> StartCoroutineCall env m c req resp k s
      | UCancelCoroutine r \<Rightarrow> CancelCoroutineCall env True r s
      | UFlush \<Rightarrow> Flush env True s
      | UController k operation \<Rightarrow> controller_op env True k operation s
      | USetDegrade h \<Rightarrow> SetDegradeHandler h s
      | UStartMetrics interval \<Rightarrow> StartMetricsReport env True interval s
      | UStopMetrics \<Rightarrow> StopMetricsReport env True s)"

text \<open>
  A program gives each closure, coroutine and degrade handler the operations it performs from a given state.
  Callbacks run inside callbacks; \<open>user_env os p n\<close> is the environment in which they nest at most
  \<open>n\<close> deep.
\<close>

record user_program =
  prog_closure :: "nat \<Rightarrow> RpcChannel \<Rightarrow> user_op list"
  prog_resume :: "nat \<Rightarrow> RpcChannel \<Rightarrow> user_op list"
  prog_degrade :: "nat \<Rightarrow> controller_ref \<Rightarrow> nat \<Rightarrow> string \<Rightarrow> RpcChannel \<Rightarrow> bool \<times> user_op list"

primrec user_env :: "rpc_env \<Rightarrow> user_program \<Rightarrow> nat \<Rightarrow> rpc_env" where
  "user_env os p 0 = os\<lparr>run_user := (\<lambda>d s. s), resume_coroutine := (\<lambda>k s. s),
     run_degrade := (\<lambda>h c r reason s. (False, s))\<rparr>"
| "user_env os p (Suc n) = os\<lparr>
     run_user := (\<lambda>d s. fold (user_apply (user_env os p n)) (prog_closure p d s) s),
     resume_coroutine := (\<lambda>k s. fold (user_apply (user_env os p n)) (prog_resume p k s) s),
     run_degrade := (\<lambda>h c r reason s. case prog_degrade p h c r reason s of
       (handled, us) \<Rightarrow> (handled, fold (user_apply (user_env os p n)) us s))\<rparr>"

section \<open>Runs\<close>

text \<open>Everything that can happen to a channel, in any order.\<close>

datatype chan_op =
    OpUser user_op
  | OpRemoteCall "method_ptr option" controller_ref "MessageLite option" "nat option" "nat option"
  | OpRemoteCancel u64
  | OpRemoteFlush
  | OpRemoteController nat ctrl_op
  | OpRemoteStartMetrics int
  | OpRemoteStopMetrics
  | OpSetMaxPendingCalls nat
  | OpTask nat
  | OpTimeout u64
  | OpHeartbeatTimer
  | OpMetricsTimer
  | OpNewConnection int
  | OpConnEvent nat conn_event
  | OpDestroy

text \<open>
  The functors of the heartbeat and metrics timers give up on a destroyed channel. A program may still use
  its controllers after it has destroyed the channel, but not the channel.
\<close>

definition on_channel :: "(RpcChannel \<Rightarrow> RpcChannel) \<Rightarrow> RpcChannel \<Rightarrow> RpcChannel" where
  "on_channel f s = (if alive_guard s then f s else s\<lparr>dangling := True\<rparr>)"

definition chan_apply :: "rpc_env \<Rightarrow> chan_op \<Rightarrow> RpcChannel \<Rightarrow> RpcChannel option" where
  "chan_apply env operation s =
     (case operation of
        OpUser (UController k op) \<Rightarrow> Some (controller_op env True k op s)
      | OpUser u \<Rightarrow> Some (on_channel (user_apply env u) s)
      | OpRemoteCall m c req resp done \<Rightarrow> Some (on_channel (CallMethod env False m c req resp done) s)
      | OpRemoteCancel r \<Rightarrow> Some (on_channel (CancelCoroutineCall env False r) s)
      | OpRemoteFlush \<Rightarrow> Some (on_channel (Flush env False) s)
      | OpRemoteController k op \<Rightarrow> Some (controller_op env False k op s)
      | OpRemoteStartMetrics interval \<Rightarrow> Some (on_channel (StartMetricsReport env False interval) s)
      | OpRemoteStopMetrics \<Rightarrow> Some (on_channel (StopMetricsReport env False) s)
      | OpSetMaxPendingCalls n \<Rightarrow> Some (on_channel (SetMaxPendingCalls n) s)
      | OpTask i \<Rightarrow> Some (run_queued env i s)
      | OpTimeout r \<Rightarrow> Some (HandleTimeoutNotify env r s)
      | OpHeartbeatTimer \<Rightarrow> Some (if alive_guard s then OnHeartbeatTimer env s else s)
      | OpMetricsTimer \<Rightarrow> Some (if alive_guard s then ReportMetricsInLoop env s else s)
      | OpNewConnection fd \<Rightarrow> Some (if alive_guard s then NewConnection env fd s else s)
      | OpConnEvent conn e \<Rightarrow> handle_conn_event env conn e s
      | OpDestroy \<Rightarrow> if alive_guard s then RpcChannel_destroy env s else Some (s\<lparr>dangling := True\<rparr>))"

fun chan_run :: "rpc_env \<Rightarrow> chan_op list \<Rightarrow> RpcChannel \<Rightarrow> RpcChannel option" where
  "chan_run env [] s = Some s"
| "chan_run env (op # ops) s = (case chan_apply env op s of None \<Rightarrow> None | Some s1 \<Rightarrow> chan_run env ops s1)"

end
