(* ===== verification/Conn_Closing.thy ===== *)
theory Conn_Closing
  imports Net_Connection
begin

text \<open>
  What every operation of a connection has in common, as its owners (the client channel and the server) rely on it: it keeps
  the bytes received, does not reopen a closed connection and runs the connection callback only when it has
  closed the connection.
\<close>

definition closing :: "TcpConnection \<Rightarrow> TcpConnection \<Rightarrow> bool" where
  "closing c c' \<longleftrightarrow> input_buffer c' = input_buffer c \<and> (conn_state c = kDisconnected \<longrightarrow> conn_state c' = kDisconnected)
     \<and> (\<exists>es. outs c' = outs c @ es \<and> ((\<exists>st. OutConnectionCallback st \<in> set es) \<longrightarrow> conn_state c' = kDisconnected))"

lemma closing_refl [simp]: "closing c c"
  by (simp add: closing_def)

lemma closing_trans: "closing c c' \<Longrightarrow> closing c' c'' \<Longrightarrow> closing c c''"
  unfolding closing_def by (elim conjE exE) (auto intro: exI)

lemma closing_same:
  "input_buffer c' = input_buffer c \<Longrightarrow> conn_state c' = conn_state c \<Longrightarrow> outs c' = outs c \<Longrightarrow> closing c c'"
  by (simp add: closing_def)

lemma closing_emit: "(\<forall>st. OutConnectionCallback st \<notin> set es) \<Longrightarrow> closing c (emit es c)"
  by (auto simp: closing_def emit_def)

lemma closing_HandleClose: "closing c (HandleClose c)"
  by (auto simp: HandleClose_def closing_def emit_def Let_def)

lemma closing_ForceClose: "closing c (ForceCloseInLoop c)"
proof -
  have "closing c (c\<lparr>output_buffer := b, conn_channel := ch\<rparr>)" for b ch by (rule closing_same) simp_all
  then show ?thesis unfolding ForceCloseInLoop_def using closing_trans [OF _ closing_HandleClose] by simp
qed

lemma closing_HandleError: "closing c (HandleError c)"
  unfolding HandleError_def by (rule closing_ForceClose)

lemma closing_fields:
  "closing c (c\<lparr>conn_channel := ch\<rparr>)" "closing c (c\<lparr>output_buffer := b\<rparr>)" "closing c (c\<lparr>overload_close_count := n\<rparr>)"
  "closing c (c\<lparr>high_watermark_count := n\<rparr>)"
  by (rule closing_same; simp)+

lemma closing_NotifyHighWatermark: "closing c (NotifyHighWatermark a b c)"
  unfolding NotifyHighWatermark_def using closing_trans [OF closing_fields(4) closing_emit [of "[OutQueueHighWatermark b]"]] by simp

lemma closing_WriteInLoop: "WriteInLoop data c = Some c' \<Longrightarrow> closing c c'"
  unfolding WriteInLoop_def Let_def
  using closing_trans [OF closing_fields(3) closing_ForceClose] closing_trans [OF closing_NotifyHighWatermark closing_fields(2)]
  by (auto split: if_splits simp: bind_eq_Some_conv)

lemma closing_WatchWritable: "closing c (WatchWritable c)"
  unfolding WatchWritable_def by (simp add: closing_fields)

lemma closing_ShutdownDrained: "closing c (ShutdownDrained c)"
  unfolding ShutdownDrained_def by (simp add: closing_emit)

lemma closing_OutputDrained: "closing c (OutputDrained c)"
proof -
  have a: "closing d (if write_complete_callback d then emit [OutQueueWriteComplete] d else d)" for d
    by (simp add: closing_emit)
  have b: "closing d (if conn_state d = kDisconnecting then ShutdownDrained d else d)" for d
    by (simp add: closing_ShutdownDrained)
  have c: "closing c (if IsWriting (conn_channel c) then c\<lparr>conn_channel := DisableWriting (conn_channel c)\<rparr> else c)"
    by (simp add: closing_fields)
  show ?thesis unfolding OutputDrained_def Let_def by (rule closing_trans [OF closing_trans [OF c a] b])
qed

lemma closing_WriteOutput: "WriteOutputBufferInLoop send c = Some c' \<Longrightarrow> closing c c'"
proof -
  assume w: "WriteOutputBufferInLoop send c = Some c'"
  have sent: "closing c (emit [OutSend d] (c\<lparr>output_buffer := b\<rparr>))" for d b
    using closing_trans [OF closing_fields(2) closing_emit [of "[OutSend d]"]] by simp
  show ?thesis
    using w closing_fields(1) closing_HandleError closing_WatchWritable closing_trans [OF sent closing_OutputDrained]
      closing_trans [OF sent closing_WatchWritable]
    unfolding WriteOutputBufferInLoop_def
    by (auto simp: Let_def bind_eq_Some_conv split: if_splits sum.splits)
qed

lemma closing_FlushInLoop: "FlushInLoop send c = Some c' \<Longrightarrow> closing c c'"
  unfolding FlushInLoop_def by (auto split: if_splits intro: closing_WriteOutput)

lemma closing_HandleWrite: "HandleWrite send c = Some c' \<Longrightarrow> closing c c'"
  unfolding HandleWrite_def by (auto split: if_splits intro: closing_WriteOutput)

lemma closing_ShutdownInLoop: "ShutdownInLoop send c = Some c' \<Longrightarrow> closing c c'"
  unfolding ShutdownInLoop_def by (auto split: if_splits intro: closing_FlushInLoop closing_ShutdownDrained)

lemma closing_Disconnecting: "conn_state c = kConnected \<Longrightarrow> closing c (c\<lparr>conn_state := kDisconnecting\<rparr>)"
  by (simp add: closing_def)

lemma closing_Destroyed: "closing c (ConnectDestroyed c)"
  by (auto simp: ConnectDestroyed_def closing_def emit_def Let_def)

text \<open>The entry points, called on the thread of the loop or from another thread.\<close>

lemma closing_calls:
  "map_option fst (Conn_Write True data c) = Some c' \<Longrightarrow> closing c c'"
  "map_option fst (Conn_Flush True send c) = Some c' \<Longrightarrow> closing c c'"
  "map_option fst (Conn_Shutdown True send c) = Some c' \<Longrightarrow> closing c c'"
  "closing c (fst (Conn_ForceClose True c))"
  using closing_trans [OF closing_Disconnecting closing_ShutdownInLoop]
  by (auto simp: Conn_Write_def Conn_Flush_def Conn_Shutdown_def Conn_ForceClose_def Let_def closing_ForceClose
      split: if_splits intro: closing_WriteInLoop closing_FlushInLoop)

lemma closing_entry:
  "Conn_Write in_loop data c = Some (c', ts) \<Longrightarrow> closing c c'"
  "Conn_Flush in_loop send c = Some (c', ts) \<Longrightarrow> closing c c'"
  "Conn_Shutdown in_loop send c = Some (c', ts) \<Longrightarrow> closing c c'"
  using closing_trans [OF closing_Disconnecting closing_ShutdownInLoop]
  by (auto simp: Conn_Write_def Conn_Flush_def Conn_Shutdown_def Let_def closing_Disconnecting
      split: if_splits intro: closing_WriteInLoop closing_FlushInLoop)

lemma closing_run_conn_task: "run_conn_task send t c = Some c' \<Longrightarrow> closing c c'"
  by (cases t) (auto simp: run_conn_task_def closing_ForceClose intro: closing_WriteInLoop closing_FlushInLoop closing_ShutdownInLoop)

lemma HandleRead_closing: "HandleRead readv None c = Some c' \<Longrightarrow> \<exists>b. closing (c\<lparr>input_buffer := b\<rparr>) c'"
proof -
  assume h: "HandleRead readv None c = Some c'"
  then obtain r b where rb: "ReadFd readv (input_buffer c) = Some (r, b)" by (auto simp: HandleRead_def bind_eq_Some_conv)
  let ?c = "c\<lparr>input_buffer := b\<rparr>"
  have "closing ?c c'"
  proof (cases r)
    case (Inl e)
    with h rb show ?thesis using closing_HandleError [of ?c] by (auto simp: HandleRead_def Let_def split: if_splits)
  next
    case (Inr n)
    with h rb show ?thesis
      using closing_HandleClose [of ?c] closing_trans [OF closing_fields(3) closing_ForceClose, of ?c]
      by (auto simp: HandleRead_def Let_def split: if_splits)
  qed
  then show ?thesis ..
qed

end
