(* ===== verification/Rpc_Calls.thy ===== *)
theory Rpc_Calls
  imports Rpc_Channel Conn_Closing
begin

text \<open>
  What every operation of the channel keeps. A caller who starts a call is owed one notification; the debt
  moves from the history (\<open>EvBegin\<close>) through the queue of the loop and the table of pending calls back to the history
  (\<open>EvNotify\<close>). \<open>step P s Q s'\<close> relates two states between which a piece of code that enters with the notifications
  \<open>P\<close> in its hands and leaves with \<open>Q\<close> neither loses nor duplicates one, keeps the table well-formed and
  bounded, and does not undo what is final (a closed connection, a protocol error, the stopped client).
\<close>

section \<open>Ledger\<close>

definition notif :: "PendingCall \<Rightarrow> notification list" where
  "notif pc = notification_of (pc_done pc) (pc_completion pc)"

definition task_notifs :: "chan_task \<Rightarrow> notification list" where
  "task_notifs t = (case t of TaskInvalid c d k r \<Rightarrow> notification_of d k | TaskRegister r b pc \<Rightarrow> notif pc | _ \<Rightarrow> [])"

definition task_ids :: "chan_task \<Rightarrow> u64 list" where
  "task_ids t = (case t of TaskRegister r b pc \<Rightarrow> [r] | _ \<Rightarrow> [])"

definition waiting :: "RpcChannel \<Rightarrow> notification multiset" where
  "waiting s = mset (concat (map (\<lambda>e. notif (snd e)) (pending_calls s))) + mset (concat (map task_notifs (loop_tasks s)))"

definition begun :: "RpcChannel \<Rightarrow> notification multiset" where
  "begun s = mset (concat (map (\<lambda>e. case e of EvBegin n \<Rightarrow> [n] | _ \<Rightarrow> []) (history s)))"

definition notified :: "RpcChannel \<Rightarrow> notification multiset" where
  "notified s = mset (concat (map (\<lambda>e. case e of EvNotify n \<Rightarrow> [n] | _ \<Rightarrow> []) (history s)))"

definition owed :: "RpcChannel \<Rightarrow> notification multiset \<Rightarrow> bool" where
  "owed s X \<longleftrightarrow> begun s = notified s + waiting s + X"

definition keys :: "RpcChannel \<Rightarrow> u64 set" where
  "keys s = fst ` set (pending_calls s)"

definition queued_ids :: "RpcChannel \<Rightarrow> u64 list" where
  "queued_ids s = concat (map task_ids (loop_tasks s))"

definition one_way :: "nat option \<Rightarrow> nat option \<Rightarrow> bool" where
  "one_way d k \<longleftrightarrow> (d = None) \<noteq> (k = None)"

definition task_ok :: "chan_task \<Rightarrow> bool" where
  "task_ok t = (case t of TaskInvalid c d k r \<Rightarrow> one_way d k | TaskRegister r b pc \<Rightarrow> pc_call pc = Pending | _ \<Rightarrow> True)"

definition chan_wf :: "RpcChannel \<Rightarrow> bool" where
  "chan_wf s \<longleftrightarrow> distinct (map fst (pending_calls s) @ queued_ids s)
     \<and> (\<forall>r \<in> set (map fst (pending_calls s) @ queued_ids s). unat r < next_request_id s)
     \<and> (\<forall>e \<in> set (pending_calls s). pc_call (snd e) = Pending) \<and> (\<forall>t \<in> set (loop_tasks s). task_ok t)"

definition bounded :: "RpcChannel \<Rightarrow> bool" where
  "bounded s \<longleftrightarrow> max_pending_calls s \<noteq> 0 \<longrightarrow> length (pending_calls s) \<le> max_pending_calls s"

text \<open>The 64-bit request counter has not wrapped and no task has used a destroyed channel.\<close>

definition sane :: "RpcChannel \<Rightarrow> bool" where
  "sane s \<longleftrightarrow> next_request_id s \<le> 2 ^ 64 \<and> \<not> dangling s"

text \<open>How often coroutine \<open>k\<close> has been resumed, and whether it still can be. Operations of the channel never make a coroutine resumable again.\<close>

definition resumable :: "nat \<Rightarrow> RpcChannel \<Rightarrow> nat" where
  "resumable k s = length (filter (\<lambda>e. e = EvResumed k) (history s)) + (if coro_handle (completions s k) then 1 else 0)"

lemma resumable_simps [simp]:
  "resumable k (s\<lparr>alive_guard := x0\<rparr>) = resumable k s" "resumable k (s\<lparr>connection := x1\<rparr>) = resumable k s"
  "resumable k (s\<lparr>connection_state := x2\<rparr>) = resumable k s" "resumable k (s\<lparr>connection_error := x3\<rparr>) = resumable k s"
  "resumable k (s\<lparr>pending_calls := x4\<rparr>) = resumable k s" "resumable k (s\<lparr>max_pending_calls := x5\<rparr>) = resumable k s"
  "resumable k (s\<lparr>degrade_handler := x6\<rparr>) = resumable k s" "resumable k (s\<lparr>overload_reject_count := x7\<rparr>) = resumable k s"
  "resumable k (s\<lparr>metrics := x8\<rparr>) = resumable k s" "resumable k (s\<lparr>metrics_window_start := x9\<rparr>) = resumable k s"
  "resumable k (s\<lparr>metrics_interval := x10\<rparr>) = resumable k s" "resumable k (s\<lparr>metrics_timer := x11\<rparr>) = resumable k s"
  "resumable k (s\<lparr>heartbeat_missed := x12\<rparr>) = resumable k s" "resumable k (s\<lparr>heartbeat_timer := x13\<rparr>) = resumable k s"
  "resumable k (s\<lparr>next_request_id := x14\<rparr>) = resumable k s" "resumable k (s\<lparr>trace_counter := x15\<rparr>) = resumable k s"
  "resumable k (s\<lparr>client := x16\<rparr>) = resumable k s" "resumable k (s\<lparr>conns := x17\<rparr>) = resumable k s"
  "resumable k (s\<lparr>controllers := x18\<rparr>) = resumable k s" "resumable k (s\<lparr>foreign_errors := x19\<rparr>) = resumable k s"
  "resumable k (s\<lparr>responses := x20\<rparr>) = resumable k s" "resumable k (s\<lparr>timer_queue := x21\<rparr>) = resumable k s"
  "resumable k (s\<lparr>loop_tasks := x22\<rparr>) = resumable k s" "resumable k (s\<lparr>clock_reads := x23\<rparr>) = resumable k s"
  "resumable k (s\<lparr>raised := x24\<rparr>) = resumable k s" "resumable k (s\<lparr>dangling := x25\<rparr>) = resumable k s"
  by (simp_all add: resumable_def)

lemma resumable_emit [simp]: "resumable k (s\<lparr>history := history s @ [e]\<rparr>) = resumable k s + (if e = EvResumed k then 1 else 0)"
  by (simp add: resumable_def)

definition chan_mono :: "RpcChannel \<Rightarrow> RpcChannel \<Rightarrow> bool" where
  "chan_mono s s' \<longleftrightarrow> next_request_id s \<le> next_request_id s' \<and> (dangling s \<longrightarrow> dangling s')
     \<and> (raised s' = None \<longrightarrow> raised s = None)
     \<and> (\<forall>c. input_buffer (conns s' c) = input_buffer (conns s c))
     \<and> (\<forall>c. conn_state (conns s c) = kDisconnected \<longrightarrow> conn_state (conns s' c) = kDisconnected)
     \<and> max_pending_calls s' = max_pending_calls s \<and> alive_guard s' = alive_guard s
     \<and> client_callbacks (client s') = client_callbacks (client s)
     \<and> next_connection_id (client s') = next_connection_id (client s)
     \<and> (client_connect (client s') \<longrightarrow> client_connect (client s))
     \<and> (client_connection (client s) = None \<longrightarrow> client_connection (client s') = None)
     \<and> (connection_state s = ChDisconnected \<longrightarrow> connection_state s' = ChDisconnected)
     \<and> (connection_state s' = ChConnected \<longrightarrow> connection_state s = ChConnected)
     \<and> (connection s = None \<longrightarrow> connection s' = None)
     \<and> (\<forall>k. resumable k s' \<le> resumable k s)"

definition step :: "notification multiset \<Rightarrow> RpcChannel \<Rightarrow> notification multiset \<Rightarrow> RpcChannel \<Rightarrow> bool" where
  "step P s Q s' \<longleftrightarrow> chan_mono s s'
     \<and> (sane s' \<and> chan_wf s \<longrightarrow> chan_wf s' \<and> (\<forall>X. owed s (X + P) \<longrightarrow> owed s' (X + Q)) \<and> (bounded s \<longrightarrow> bounded s')
          \<and> (connection s = None \<and> raised s' = None \<longrightarrow> keys s' \<subseteq> keys s))"

abbreviation keep :: "RpcChannel \<Rightarrow> RpcChannel \<Rightarrow> bool" where
  "keep s s' \<equiv> step {#} s {#} s'"

lemma chan_mono_refl [simp, intro]: "chan_mono s s"
  by (simp add: chan_mono_def)

lemma chan_monoD:
  assumes "chan_mono s s'"
  shows "next_request_id s \<le> next_request_id s'" "dangling s \<longrightarrow> dangling s'" "raised s' = None \<longrightarrow> raised s = None"
    "\<forall>c. input_buffer (conns s' c) = input_buffer (conns s c)"
    "\<forall>c. conn_state (conns s c) = kDisconnected \<longrightarrow> conn_state (conns s' c) = kDisconnected"
    "max_pending_calls s' = max_pending_calls s \<and> alive_guard s' = alive_guard s
      \<and> client_callbacks (client s') = client_callbacks (client s) \<and> next_connection_id (client s') = next_connection_id (client s)"
    "client_connect (client s') \<longrightarrow> client_connect (client s)"
    "client_connection (client s) = None \<longrightarrow> client_connection (client s') = None"
    "connection_state s = ChDisconnected \<longrightarrow> connection_state s' = ChDisconnected"
    "connection_state s' = ChConnected \<longrightarrow> connection_state s = ChConnected" "connection s = None \<longrightarrow> connection s' = None"
    "\<forall>k. resumable k s' \<le> resumable k s"
  using assms unfolding chan_mono_def by blast+

lemma chan_mono_trans:
  assumes "chan_mono s s'" "chan_mono s' s''"
  shows "chan_mono s s''"
proof -
  note d = chan_monoD [OF assms(1)] and e = chan_monoD [OF assms(2)]
  have "next_request_id s \<le> next_request_id s''" by (rule le_trans [OF d(1) e(1)])
  moreover have "dangling s \<longrightarrow> dangling s''" "raised s'' = None \<longrightarrow> raised s = None" using d(2,3) e(2,3) by auto
  moreover have "\<forall>c. input_buffer (conns s'' c) = input_buffer (conns s c)" using d(4) e(4) by simp
  moreover have "\<forall>c. conn_state (conns s c) = kDisconnected \<longrightarrow> conn_state (conns s'' c) = kDisconnected" using d(5) e(5) by blast
  moreover have "max_pending_calls s'' = max_pending_calls s" "alive_guard s'' = alive_guard s"
    "client_callbacks (client s'') = client_callbacks (client s)" "next_connection_id (client s'') = next_connection_id (client s)"
    using d(6) e(6) by simp_all
  moreover have "client_connect (client s'') \<longrightarrow> client_connect (client s)"
    "client_connection (client s) = None \<longrightarrow> client_connection (client s'') = None" using d(7,8) e(7,8) by auto
  moreover have "connection_state s = ChDisconnected \<longrightarrow> connection_state s'' = ChDisconnected" using d(9) e(9) by auto
  moreover have "connection_state s'' = ChConnected \<longrightarrow> connection_state s = ChConnected" using d(10) e(10) by auto
  moreover have "connection s = None \<longrightarrow> connection s'' = None" using d(11) e(11) by auto
  moreover have "\<forall>k. resumable k s'' \<le> resumable k s" using d(12) e(12) le_trans by blast
  ultimately show ?thesis unfolding chan_mono_def by (intro conjI)
qed

lemma chan_mono_sane: "chan_mono s s' \<Longrightarrow> sane s' \<Longrightarrow> sane s"
  by (auto simp: chan_mono_def sane_def)

lemma step_refl [simp, intro]: "step P s P s"
  by (simp add: step_def)

lemma step_trans:
  assumes "step P s Q s'" "step Q s' R s''"
  shows "step P s R s''"
proof -
  have m: "chan_mono s s'" "chan_mono s' s''" using assms by (simp_all add: step_def)
  then have q: "raised s'' = None \<Longrightarrow> raised s' = None" "connection s = None \<Longrightarrow> connection s' = None"
    by (auto simp: chan_mono_def)
  show ?thesis
    using assms chan_mono_trans [OF m] chan_mono_sane [OF m(2)] q unfolding step_def by blast
qed

lemma step_frame: "step P s Q s' \<Longrightarrow> step (F + P) s (F + Q) s'"
  unfolding step_def by (simp add: add.assoc [symmetric])

lemma keep_frame: "keep s s' \<Longrightarrow> step P s P s'"
  using step_frame [of "{#}" s "{#}" s' P] by simp

lemma step_keep: "step P s Q s' \<Longrightarrow> keep s' s'' \<Longrightarrow> step P s Q s''"
  using step_trans keep_frame by blast

lemma keep_step: "keep s s' \<Longrightarrow> step P s' Q s'' \<Longrightarrow> step P s Q s''"
  using step_trans keep_frame by blast

lemma stepD:
  assumes "step P s Q s'"
  shows "sane s' \<Longrightarrow> sane s" "raised s' = None \<Longrightarrow> raised s = None" "connection s = None \<Longrightarrow> connection s' = None"
    "sane s' \<Longrightarrow> chan_wf s \<Longrightarrow> chan_wf s'" "sane s' \<Longrightarrow> chan_wf s \<Longrightarrow> owed s (X + P) \<Longrightarrow> owed s' (X + Q)"
    "sane s' \<Longrightarrow> chan_wf s \<Longrightarrow> connection s = None \<Longrightarrow> raised s' = None \<Longrightarrow> keys s' \<subseteq> keys s"
    "sane s' \<Longrightarrow> chan_wf s \<Longrightarrow> bounded s \<Longrightarrow> bounded s'"
  using assms chan_mono_sane unfolding step_def by (blast, (auto simp: chan_mono_def)[2], blast+)

lemma keep_fold: "(\<And>x s. x \<in> set xs \<Longrightarrow> keep s (f x s)) \<Longrightarrow> keep s (fold f xs s)"
proof (induction xs arbitrary: s)
  case (Cons x xs)
  have "keep s (f x s)" by (rule Cons.prems) simp
  moreover have "keep (f x s) (fold f xs (f x s))" by (rule Cons.IH) (rule Cons.prems, simp)
  ultimately show ?case by (simp add: step_trans)
qed simp

text \<open>Changes outside of what \<^const>\<open>step\<close> looks at.\<close>

definition same_core :: "RpcChannel \<Rightarrow> RpcChannel \<Rightarrow> bool" where
  "same_core s s' \<longleftrightarrow> pending_calls s' = pending_calls s \<and> loop_tasks s' = loop_tasks s
     \<and> begun s' = begun s \<and> notified s' = notified s \<and> chan_mono s s'"

lemma wf_mono:
  assumes "chan_wf s" "pending_calls s' = pending_calls s" "loop_tasks s' = loop_tasks s"
    "next_request_id s \<le> next_request_id s'"
  shows "chan_wf s'"
  using assms(1,4) unfolding chan_wf_def queued_ids_def assms(2,3) by (blast intro: order_less_le_trans)

lemma same_core_keep: "same_core s s' \<Longrightarrow> keep s s'"
proof -
  assume c: "same_core s s'"
  then have m: "chan_mono s s'" and eqs: "pending_calls s' = pending_calls s" "loop_tasks s' = loop_tasks s"
    "begun s' = begun s" "notified s' = notified s" by (simp_all add: same_core_def)
  have "next_request_id s \<le> next_request_id s'" "max_pending_calls s' = max_pending_calls s"
    using m by (simp_all add: chan_mono_def)
  with m show ?thesis
    unfolding step_def owed_def waiting_def bounded_def keys_def eqs using wf_mono [OF _ eqs(1,2)] by simp
qed

lemma same_core_trans: "same_core s s' \<Longrightarrow> same_core s' s'' \<Longrightarrow> same_core s s''"
  using chan_mono_trans by (simp add: same_core_def) blast

lemma same_core_refl [simp, intro]: "same_core s s"
  by (simp add: same_core_def)

section \<open>Steps that do not run user code\<close>

lemmas core_simps = same_core_def chan_mono_def begun_def notified_def

lemma core_Now: "same_core s (snd (Now env s))"
  by (simp add: Now_def core_simps)

lemma core_RunAt: "same_core s (snd (RunAt env d act s))"
  by (auto simp: RunAt_def core_simps Let_def split: prod.splits sum.splits)

lemma core_RunAfter: "same_core s (snd (RunAfter env d act s))"
  unfolding RunAfter_def Let_def using core_Now [of s env] core_RunAt same_core_trans by (auto split: prod.splits)

lemma core_CancelTimer: "same_core s (CancelTimer env tid s)"
  by (auto simp: CancelTimer_def core_simps Let_def split: prod.splits option.splits)

lemma core_GenerateTraceId: "same_core s (snd (GenerateTraceId env s))"
  by (simp add: GenerateTraceId_def Let_def Now_def core_simps)

lemma core_ResolveDeadline: "same_core s (snd (ResolveDeadline env c s))"
  by (auto simp: ResolveDeadline_def Let_def Now_def core_simps split: controller_ref.splits option.splits)

lemma core_upd_controller: "same_core s (upd_controller k f s)"
  by (simp add: upd_controller_def core_simps)

lemma core_SetControllerFailure: "same_core s (SetControllerFailure c r s)"
  by (auto simp: SetControllerFailure_def upd_controller_def core_simps split: controller_ref.splits)

lemma core_SetCallState: "same_core s (SetCallState c r s)"
  by (auto simp: SetCallState_def upd_controller_def core_simps split: controller_ref.splits)

lemma core_ApplyFailure: "same_core s (ApplyFailure c r st s)"
  unfolding ApplyFailure_def using core_SetControllerFailure core_SetCallState same_core_trans by blast

lemma core_responses: "same_core s (s\<lparr>responses := f\<rparr>)"
  by (simp add: core_simps)

lemma core_ApplyFrame: "same_core s (ApplyFrame env r c f s)"
  unfolding ApplyFrame_def Let_def
  using core_SetControllerFailure same_core_trans [OF core_responses core_SetControllerFailure] core_responses by simp

lemma core_upd_completion:
  "same_core s (upd_completion k (\<lambda>c. c\<lparr>coro_latency := l\<rparr>) s)"
  "same_core s (upd_completion k (\<lambda>c. c\<lparr>coro_latency := l, coro_remote_error_code := e\<rparr>) s)"
  "same_core s (upd_completion k (\<lambda>c. c\<lparr>coro_request_id := r, coro_trace_id := t\<rparr>) s)"
  by (auto simp: upd_completion_def core_simps resumable_def split: option.splits)

lemma core_resumed:
  "coro_handle (completions s k) \<Longrightarrow>
   same_core s (emit_event (EvResumed k) (upd_completion (Some k) (\<lambda>c. c\<lparr>coro_handle := False\<rparr>) s))"
  by (auto simp: upd_completion_def core_simps resumable_def emit_event_def)

lemma core_RecordMetrics: "same_core s (snd (RecordMetrics env pc st s))"
  by (simp add: RecordMetrics_def Let_def Now_def core_simps)

lemma core_set_timer: "(\<And>t s. same_core s (f t s)) \<Longrightarrow> same_core s (set_timer f r s)"
  by (auto simp: set_timer_def split: sum.splits)

lemma core_fields [simp, intro]:
  "same_core s (s\<lparr>heartbeat_timer := t\<rparr>)" "same_core s (s\<lparr>metrics_timer := t\<rparr>)" "same_core s (s\<lparr>heartbeat_missed := i\<rparr>)"
  "same_core s (s\<lparr>metrics_interval := i\<rparr>)" "same_core s (s\<lparr>overload_reject_count := c\<rparr>)" "same_core s (s\<lparr>degrade_handler := h\<rparr>)"
  "same_core s (s\<lparr>metrics := m\<rparr>)" "same_core s (s\<lparr>metrics_window_start := i\<rparr>)" "same_core s (s\<lparr>controllers := cs\<rparr>)"
  by (simp_all add: core_simps)

lemmas cores = core_Now core_RunAt core_RunAfter core_CancelTimer core_GenerateTraceId core_ResolveDeadline
  core_upd_controller core_SetControllerFailure core_SetCallState core_ApplyFailure core_ApplyFrame
  core_upd_completion core_RecordMetrics

text \<open>The same, for the results of operations that return a pair.\<close>

lemma core_pair:
  "Now env s = (n, s') \<Longrightarrow> same_core s s'" "RunAt env d act s = (r, s') \<Longrightarrow> same_core s s'"
  "RunAfter env i act s = (r, s') \<Longrightarrow> same_core s s'" "GenerateTraceId env s = (t, s') \<Longrightarrow> same_core s s'"
  "ResolveDeadline env c s = (dl, s') \<Longrightarrow> same_core s s'" "RecordMetrics env pc st s = (l, s') \<Longrightarrow> same_core s s'"
  using cores(1) [of s env] cores(2) [of s env d act] cores(3) [of s env i act] cores(5) [of s env] cores(6) [of s env c]
    cores(15) [of s env pc st] by simp_all

lemma core_CancelHeartbeat: "same_core s (CancelHeartbeatInLoop env s)"
  unfolding CancelHeartbeatInLoop_def by (simp add: same_core_trans [OF core_CancelTimer core_fields(1)])

lemma core_ScheduleHeartbeat: "same_core s (ScheduleHeartbeatInLoop env s)"
proof -
  obtain r s1 where e: "RunAfter env kHeartbeatIntervalMs (Functor (Some kHeartbeatFunctor)) (CancelHeartbeatInLoop env s) = (r, s1)"
    by (cases "RunAfter env kHeartbeatIntervalMs (Functor (Some kHeartbeatFunctor)) (CancelHeartbeatInLoop env s)")
  have "same_core s s1" by (rule same_core_trans [OF core_CancelHeartbeat core_pair(3) [OF e]])
  moreover have "same_core s1 (set_timer (\<lambda>t s. s\<lparr>heartbeat_timer := t\<rparr>) r s1)" by (rule core_set_timer) simp
  ultimately show ?thesis using same_core_trans by (simp add: ScheduleHeartbeatInLoop_def e)
qed

lemma keep_Queue:
  assumes "task_notifs t = []" "task_ids t = []" "task_ok t"
  shows "keep s (QueueInLoop t s)"
  using assms by (auto simp: step_def chan_mono_def QueueInLoop_def owed_def waiting_def begun_def notified_def chan_wf_def
    queued_ids_def bounded_def keys_def)

lemma step_emit:
  "step {#} s {#n#} (emit_event (EvBegin n) s)" "step {#n#} s {#} (emit_event (EvNotify n) s)"
  by (auto simp: step_def chan_mono_def emit_event_def owed_def waiting_def begun_def notified_def chan_wf_def
    queued_ids_def bounded_def keys_def)

lemma core_emit:
  "same_core s (emit_event EvConnectorRestart s)"
  "same_core s (emit_event EvConnectorStop s)" "same_core s (emit_event (EvCloseFd fd) s)"
  "same_core s (emit_event (EvReport e c n) s)"
  by (simp_all add: core_simps emit_event_def)

lemma step_Resume: "keep s (QueueCoroutineResume k s)"
  by (cases k) (auto simp: QueueCoroutineResume_def intro!: keep_Queue simp: task_notifs_def task_ids_def task_ok_def)

text \<open>Taking a call out of the table puts its notification into the hands of the code.\<close>

lemma map_of_split:
  "distinct (map fst xs) \<Longrightarrow> map_of xs r = Some p \<Longrightarrow>
   \<exists>ys zs. xs = ys @ (r, p) # zs \<and> filter (\<lambda>e. fst e \<noteq> r) xs = ys @ zs"
proof -
  assume d: "distinct (map fst xs)" and m: "map_of xs r = Some p"
  obtain ys zs where xs: "xs = ys @ (r, p) # zs" using map_of_SomeD [OF m] by (meson split_list)
  have "r \<notin> fst ` set ys" "r \<notin> fst ` set zs" using d by (auto simp: xs)
  then have "filter (\<lambda>e. fst e \<noteq> r) ys = ys" "filter (\<lambda>e. fst e \<noteq> r) zs = zs" by (force intro: filter_True)+
  with xs show ?thesis by auto
qed

lemma step_erase:
  assumes "map_of (pending_calls s) r = Some p"
  shows "step {#} s (mset (notif p)) (s\<lparr>pending_calls := filter (\<lambda>e. fst e \<noteq> r) (pending_calls s)\<rparr>)"
proof -
  let ?s = "s\<lparr>pending_calls := filter (\<lambda>e. fst e \<noteq> r) (pending_calls s)\<rparr>"
  have "chan_wf ?s \<and> (\<forall>X. owed s X \<longrightarrow> owed ?s (X + mset (notif p))) \<and> (bounded s \<longrightarrow> bounded ?s) \<and> keys ?s \<subseteq> keys s"
    if wf: "chan_wf s"
  proof -
    obtain ys zs where xs: "pending_calls s = ys @ (r, p) # zs" "filter (\<lambda>e. fst e \<noteq> r) (pending_calls s) = ys @ zs"
      using map_of_split [of "pending_calls s" r p] assms wf by (auto simp: chan_wf_def)
    show ?thesis
      using wf xs(1) unfolding xs(2)
      by (auto simp: chan_wf_def owed_def waiting_def bounded_def keys_def queued_ids_def begun_def notified_def ac_simps)
  qed
  then show ?thesis by (simp add: step_def chan_mono_def)
qed

lemma Take_Some:
  assumes "TakePendingCall env r s = (Some p, s')"
  shows "map_of (pending_calls s) r = Some p \<and> step {#} s (mset (notif p)) s'
    \<and> pending_calls s' = filter (\<lambda>e. fst e \<noteq> r) (pending_calls s)"
proof -
  let ?s = "s\<lparr>pending_calls := filter (\<lambda>e. fst e \<noteq> r) (pending_calls s)\<rparr>"
  have m: "map_of (pending_calls s) r = Some p"
    using assms by (auto simp: TakePendingCall_def Let_def split: option.splits)
  have "same_core ?s s'"
    using assms m same_core_trans [OF core_CancelTimer core_upd_controller] core_CancelTimer core_upd_controller
    by (auto simp: TakePendingCall_def Let_def split: controller_ref.splits)
  then show ?thesis
    using m step_keep [OF step_erase [OF m] same_core_keep] by (simp add: same_core_def)
qed

lemma Take_None: "TakePendingCall env r s = (None, s') \<Longrightarrow> s' = s \<and> map_of (pending_calls s) r = None"
  by (auto simp: TakePendingCall_def Let_def split: option.splits)

lemma map_of_upd_call:
  "map_of (pending_calls (upd_call r f s)) x = (if x = r then map_option f (map_of (pending_calls s) r) else map_of (pending_calls s) x)"
proof -
  have "map_of (map (\<lambda>(k, pc). (k, if k = r then f pc else pc)) xs) x
      = (if x = r then map_option f (map_of xs r) else map_of xs x)" for xs
    by (induction xs) auto
  then show ?thesis by (simp add: upd_call_def)
qed

lemma filter_upd_call:
  "filter (\<lambda>e. fst e \<noteq> r) (pending_calls (upd_call r f s)) = filter (\<lambda>e. fst e \<noteq> r) (pending_calls s)"
proof -
  have "filter (\<lambda>e. fst e \<noteq> r) (map (\<lambda>(k, pc). (k, if k = r then f pc else pc)) xs) = filter (\<lambda>e. fst e \<noteq> r) xs" for xs
    by (induction xs) auto
  then show ?thesis by (simp add: upd_call_def)
qed

text \<open>Winning a call and taking it; the new state of the call is only seen by the code that took it.\<close>

lemma Take_upd:
  assumes m: "map_of (pending_calls s) r = Some p" and n: "notif (f p) = notif p"
    and t: "TakePendingCall env r (upd_call r f s) = (p', s')"
  shows "p' = Some (f p) \<and> step {#} s (mset (notif p)) s' \<and> pending_calls s' = filter (\<lambda>e. fst e \<noteq> r) (pending_calls s)"
proof -
  let ?e = "s\<lparr>pending_calls := filter (\<lambda>e. fst e \<noteq> r) (pending_calls s)\<rparr>"
  have m': "map_of (pending_calls (upd_call r f s)) r = Some (f p)" using m by (simp add: map_of_upd_call)
  have e: "(upd_call r f s)\<lparr>pending_calls := filter (\<lambda>e. fst e \<noteq> r) (pending_calls (upd_call r f s))\<rparr> = ?e"
    unfolding filter_upd_call by (simp add: upd_call_def)
  have "p' = Some (f p) \<and> same_core ?e s'"
    using t m' same_core_trans [OF core_CancelTimer core_upd_controller] core_CancelTimer core_upd_controller
    by (auto simp: TakePendingCall_def Let_def e split: controller_ref.splits if_splits)
  then show ?thesis
    using step_keep [OF step_erase [OF m] same_core_keep] by (simp add: same_core_def)
qed

lemma Claim_Some:
  assumes "ClaimCall env r st s = (Some p', s')"
  shows "\<exists>p. map_of (pending_calls s) r = Some p \<and> pc_call p = Pending \<and> p' = p\<lparr>pc_call := st\<rparr>
    \<and> step {#} s (mset (notif p')) s' \<and> pending_calls s' = filter (\<lambda>e. fst e \<noteq> r) (pending_calls s)"
proof -
  obtain p where m: "map_of (pending_calls s) r = Some p" and pe: "pc_call p = Pending"
    and t: "TakePendingCall env r (upd_call r (\<lambda>p. p\<lparr>pc_call := st\<rparr>) s) = (Some p', s')"
    using assms by (auto simp: ClaimCall_def TryComplete_def split: option.splits if_splits)
  have "notif (p\<lparr>pc_call := st\<rparr>) = notif p" by (simp add: notif_def)
  with Take_upd [OF m _ t] m pe show ?thesis by auto
qed

lemma Claim_None: "ClaimCall env r st s = (None, s') \<Longrightarrow> s' = s"
proof -
  assume c: "ClaimCall env r st s = (None, s')"
  show ?thesis
  proof (cases "map_of (pending_calls s) r")
    case None
    with c show ?thesis by (simp add: ClaimCall_def)
  next
    case (Some p)
    have "TakePendingCall env r (upd_call r (\<lambda>p. p\<lparr>pc_call := st\<rparr>) s) \<noteq> (None, s')"
      using Take_upd [OF Some, of "\<lambda>p. p\<lparr>pc_call := st\<rparr>" env None s'] by (auto simp: notif_def)
    with c Some show ?thesis by (auto simp: ClaimCall_def TryComplete_def split: if_splits)
  qed
qed

section \<open>Code that runs user code\<close>

text \<open>
  What the channel relies on in user code: it acts through the public operations, so that it keeps every
  caller's claim and undoes nothing that is final.
\<close>

locale user_code =
  fixes env :: rpc_env
  assumes user: "keep s (run_user env d s)"
    and resume: "keep s (resume_coroutine env k s)"
    and degrade: "keep s (snd (run_degrade env h c r reason s))"
begin

lemma Notify: "step (mset (notif pc)) s {#} (NotifyCompletion env pc s)"
proof (cases "pc_completion pc")
  case (Some k)
  with step_keep [OF step_emit(2) step_Resume] show ?thesis by (simp add: NotifyCompletion_def notif_def notification_of_def)
next
  case None
  then show ?thesis
    using step_keep [OF step_emit(2) user]
    by (cases "pc_done pc") (simp_all add: NotifyCompletion_def notif_def notification_of_def)
qed

lemma core_Notify: "same_core s s' \<Longrightarrow> step (mset (notif pc)) s {#} (NotifyCompletion env pc s')"
  using keep_step [OF same_core_keep Notify] .

lemma Claim_Notify:
  assumes "ClaimCall env r st s = (Some pc, s1)" "same_core s1 s2"
  shows "keep s (NotifyCompletion env pc s2)"
  using Claim_Some [OF assms(1)] step_trans [OF _ core_Notify [OF assms(2)]] by blast

lemma Frame: "keep s (CompleteCallWithFrame env r f s)"
proof (cases "ClaimCall env r Completed s")
  case (Pair p s1)
  show ?thesis
  proof (cases p)
    case None
    with Pair Claim_None [of env r Completed s s1] show ?thesis by (simp add: CompleteCallWithFrame_def)
  next
    case (Some pc)
    have "same_core s1 (ApplyFrame env (pc_response pc) (pc_controller pc) f (SetCallState (pc_controller pc) Completed
        (upd_completion (pc_completion pc) (\<lambda>c. c\<lparr>coro_latency := l, coro_remote_error_code := e\<rparr>) (snd (RecordMetrics env pc st s1)))))" for l e st
      by (rule same_core_trans [OF core_RecordMetrics same_core_trans [OF core_upd_completion(2) same_core_trans [OF core_SetCallState core_ApplyFrame]]])
    with Pair Some show ?thesis
      by (simp add: CompleteCallWithFrame_def Let_def case_prod_unfold Claim_Notify)
  qed
qed

lemma Failure: "keep s (CompleteCallWithFailure env r reason st s)"
proof (cases "ClaimCall env r st s")
  case (Pair p s1)
  show ?thesis
  proof (cases p)
    case None
    with Pair Claim_None [of env r st s s1] show ?thesis by (simp add: CompleteCallWithFailure_def)
  next
    case (Some pc)
    have "same_core s1 (ApplyFailure (pc_controller pc) reason st
        (upd_completion (pc_completion pc) (\<lambda>c. c\<lparr>coro_latency := l\<rparr>) (snd (RecordMetrics env pc st s1))))" for l
      by (rule same_core_trans [OF core_RecordMetrics same_core_trans [OF core_upd_completion(1) core_ApplyFailure]])
    with Pair Some show ?thesis
      by (simp add: CompleteCallWithFailure_def Let_def case_prod_unfold Claim_Notify)
  qed
qed

lemma Cancelling: "keep s (CompleteCallWithCancel env r s)"
proof (cases "ClaimCall env r Cancelled s")
  case (Pair p s1)
  show ?thesis
  proof (cases p)
    case None
    with Pair Claim_None [of env r Cancelled s s1] show ?thesis by (simp add: CompleteCallWithCancel_def)
  next
    case (Some pc)
    define s3 where "s3 = upd_completion (pc_completion pc) (\<lambda>c. c\<lparr>coro_latency := fst (RecordMetrics env pc Cancelled s1)\<rparr>)
      (snd (RecordMetrics env pc Cancelled s1))"
    have "same_core s1 s3" unfolding s3_def by (rule same_core_trans [OF core_RecordMetrics core_upd_completion(1)])
    then have "same_core s1 (case pc_controller pc of RpcControllerAt k \<Rightarrow> upd_controller k MarkCanceled s3 | _ \<Rightarrow> s3)"
      using same_core_trans core_upd_controller by (auto split: controller_ref.splits)
    from Claim_Notify [OF Pair [unfolded Some] this, unfolded s3_def] show ?thesis
      using Pair Some by (simp add: CompleteCallWithCancel_def Let_def case_prod_unfold)
  qed
qed

lemma FailAll: "keep s (FailAllPending env reason s)"
  unfolding FailAllPending_def by (rule keep_fold) (rule Failure)

end

section \<open>The rest of the channel, with user code\<close>

lemma conn_update_core:
  assumes "closing (conns s conn) c"
  shows "same_core s (s\<lparr>conns := (conns s)(conn := c)\<rparr>)"
  using assms by (auto simp: core_simps closing_def)

context user_code
begin

lemma OnConnection_closed:
  assumes "conn_state (conns s conn) = kDisconnected"
  shows "keep s (OnConnection env conn s)"
proof -
  define s1 where "s1 = CancelHeartbeatInLoop env s"
  define s2 where "s2 = (if connection s1 = Some conn then s1\<lparr>connection := None\<rparr> else s1)"
  have c: "same_core s s1" unfolding s1_def by (rule core_CancelHeartbeat)
  have c1: "same_core s1 s2" by (auto simp: s2_def core_simps)
  have c2: "connection_state s2 \<noteq> ChDisconnected \<Longrightarrow> same_core s2 (s2\<lparr>connection_state := ChConnecting, connection_error := e\<rparr>)" for e
    by (simp add: core_simps)
  have k: "keep s s2" using same_core_trans [OF c c1] by (rule same_core_keep)
  have "\<not> Connected (conns s conn)" using assms by (simp add: Connected_def)
  then have "OnConnection env conn s = (if connection_state s2 = ChDisconnected then s2
      else FailAllPending env ''RPC connection closed''
        (s2\<lparr>connection_state := ChConnecting, connection_error := ''RPC connection closed''\<rparr>))"
    by (simp add: OnConnection_def Let_def s1_def s2_def)
  then show ?thesis
    using k step_trans [OF k step_trans [OF same_core_keep [OF c2] FailAll]] by simp
qed

lemma RemoveConnection_keep: "keep s (RemoveConnection conn s)"
proof -
  define s1 where "s1 = (if client_connection (client s) = Some conn then s\<lparr>client := (client s)\<lparr>client_connection := None\<rparr>\<rparr> else s)"
  define s2 where "s2 = s1\<lparr>conns := (conns s1)(conn := (conns s1 conn)\<lparr>close_callback := False\<rparr>)\<rparr>"
  define s3 where "s3 = (if client_connect (client s2) then emit_event EvConnectorRestart s2 else s2)"
  have "same_core s s1" by (simp add: s1_def core_simps)
  moreover have "same_core s1 s2" by (simp add: s2_def core_simps)
  moreover have "same_core s2 s3" by (simp add: s3_def core_emit)
  ultimately have "same_core s s3" using same_core_trans by blast
  moreover have "keep s3 (QueueInLoop (TaskConnectDestroyed conn) s3)"
    by (rule keep_Queue) (simp_all add: task_notifs_def task_ids_def task_ok_def)
  ultimately show ?thesis
    using step_trans same_core_keep unfolding RemoveConnection_def Let_def s1_def [symmetric] s2_def [symmetric] s3_def [symmetric]
    by blast
qed

lemma dispatch_keep:
  "(\<exists>st. e = OutConnectionCallback st) \<longrightarrow> conn_state (conns s conn) = kDisconnected \<Longrightarrow> keep s (dispatch_out env conn e s)"
  by (cases e) (auto simp: dispatch_out_def OnConnection_closed RemoveConnection_keep)

lemma dispatch_fold:
  "(\<exists>st. OutConnectionCallback st \<in> set es) \<longrightarrow> conn_state (conns s conn) = kDisconnected \<Longrightarrow>
   keep s (fold (dispatch_out env conn) es s)"
proof (induction es arbitrary: s)
  case (Cons e es)
  have k: "keep s (dispatch_out env conn e s)" by (rule dispatch_keep) (use Cons.prems in auto)
  then have "conn_state (conns s conn) = kDisconnected \<longrightarrow> conn_state (conns (dispatch_out env conn e s) conn) = kDisconnected"
    by (simp add: step_def chan_mono_def)
  with Cons.prems have "keep (dispatch_out env conn e s) (fold (dispatch_out env conn) es (dispatch_out env conn e s))"
    by (intro Cons.IH) auto
  with k step_trans show ?case by simp
qed simp

lemma with_conn_keep:
  assumes "\<And>c'. operation (conns s conn) = Some c' \<Longrightarrow> closing (conns s conn) c'"
  shows "keep s (with_conn env conn operation s)"
proof (cases "operation (conns s conn)")
  case (Some c)
  then have cl: "closing (conns s conn) c" by (rule assms)
  then obtain es where es: "outs c = outs (conns s conn) @ es"
    "(\<exists>st. OutConnectionCallback st \<in> set es) \<longrightarrow> conn_state c = kDisconnected"
    by (auto simp: closing_def)
  have "keep s (s\<lparr>conns := (conns s)(conn := c)\<rparr>)" using conn_update_core [OF cl] by (rule same_core_keep)
  moreover have "keep (s\<lparr>conns := (conns s)(conn := c)\<rparr>)
      (fold (dispatch_out env conn) es (s\<lparr>conns := (conns s)(conn := c)\<rparr>))"
    by (rule dispatch_fold) (use es(2) in simp)
  ultimately show ?thesis using Some es(1) step_trans by (simp add: with_conn_def)
qed (simp add: with_conn_def)

lemma conn_calls:
  "keep s (conn_Write env conn data s)" "keep s (conn_Flush env conn s)" "keep s (conn_ForceClose env conn s)"
  "keep s (conn_Shutdown env conn s)" "keep s (with_conn env conn (\<lambda>c. Some (ConnectDestroyed c)) s)"
  unfolding conn_Write_def conn_Flush_def conn_ForceClose_def conn_Shutdown_def
  by (rule with_conn_keep; use closing_calls closing_Destroyed in fastforce)+

lemma Disconnect_keep: "keep s (TcpClient_Disconnect env s)"
proof -
  have "same_core s (s\<lparr>client := (client s)\<lparr>client_connect := False\<rparr>\<rparr>)" by (simp add: core_simps)
  from same_core_keep [OF this] show ?thesis
    unfolding TcpClient_Disconnect_def Let_def using step_trans [OF _ conn_calls(4)] by (auto split: option.splits)
qed

lemma SendHeartbeat_keep: "keep s (SendHeartbeatInLoop env s)"
proof (cases "connection s")
  case (Some conn)
  obtain t s1 where g: "GenerateTraceId env (s\<lparr>next_request_id := Suc (next_request_id s)\<rparr>) = (t, s1)"
    by (cases "GenerateTraceId env (s\<lparr>next_request_id := Suc (next_request_id s)\<rparr>)")
  have "same_core s (s\<lparr>next_request_id := Suc (next_request_id s)\<rparr>)" by (simp add: core_simps)
  from same_core_keep [OF same_core_trans [OF this core_pair(4) [OF g]]] have "keep s s1" .
  then show ?thesis
    using step_trans [OF \<open>keep s s1\<close> step_trans [OF conn_calls(1) conn_calls(2)]]
    by (simp add: SendHeartbeatInLoop_def Some g Let_def)
qed (simp add: SendHeartbeatInLoop_def)

lemma Heartbeat_keep: "keep s (OnHeartbeatTimer env s)"
proof -
  have "keep s (s\<lparr>heartbeat_missed := i\<rparr>)" for i by (rule same_core_keep) simp
  then have "keep s (if connection_state s \<noteq> ChConnected \<or> connection s = None then s\<lparr>heartbeat_missed := 0\<rparr>
        else if heartbeat_missed s \<ge> kHeartbeatMaxMissed
        then conn_ForceClose env (the (connection s)) (s\<lparr>heartbeat_missed := 0\<rparr>)
        else SendHeartbeatInLoop env (s\<lparr>heartbeat_missed := heartbeat_missed s + 1\<rparr>))"
    using step_trans [OF _ conn_calls(3)] step_trans [OF _ SendHeartbeat_keep] by auto
  then show ?thesis
    unfolding OnHeartbeatTimer_def using step_trans same_core_keep [OF core_ScheduleHeartbeat] by blast
qed

lemma run_closure_keep: "keep s (run_closure env in_loop e s)"
proof -
  have "keep s (QueueInLoop (TaskCancelCall r) s)" for r
    by (rule keep_Queue) (simp_all add: task_notifs_def task_ids_def task_ok_def)
  then show ?thesis by (auto simp: run_closure_def user Cancelling split: closure_event.splits closure.splits)
qed

lemma run_closures_keep: "keep s (fold (run_closure env in_loop) es (s\<lparr>controllers := cs\<rparr>))"
proof -
  have "keep s (s\<lparr>controllers := cs\<rparr>)" by (rule same_core_keep) simp
  moreover have "keep t (fold (run_closure env in_loop) es t)" for t by (rule keep_fold) (rule run_closure_keep)
  ultimately show ?thesis using step_trans by blast
qed

lemma controller_op_keep: "keep s (controller_op env in_loop k operation s)"
  unfolding controller_op_def using run_closures_keep by (auto split: prod.splits)

lemma CancelCoroutine_keep: "keep s (CancelCoroutineCall env in_loop r s)"
proof -
  have "keep s (QueueInLoop (TaskCancelCall r) s)"
    by (rule keep_Queue) (simp_all add: task_notifs_def task_ids_def task_ok_def)
  then show ?thesis by (simp add: CancelCoroutineCall_def Cancelling)
qed

lemma HandleFrame_keep: "keep s (HandleFrame env f s)"
  unfolding HandleFrame_def by (simp add: Frame same_core_keep)

lemma ProtocolError_keep: "keep s (ProtocolError env e s)"
proof -
  have "keep s (s\<lparr>connection_state := ChDisconnected, connection_error := x\<rparr>)" for x
    by (rule same_core_keep) (simp add: core_simps)
  then show ?thesis
    unfolding ProtocolError_def Let_def using step_trans [OF _ step_trans [OF FailAll Disconnect_keep]] by simp
qed

lemma Reject_keep:
  "RejectIfUnavailable env r pc s = (b, s') \<Longrightarrow> if b then step (mset (notif pc)) s {#} s' else s' = s"
  "RejectIfExpired env r pc s = (b, s') \<Longrightarrow> if b then step (mset (notif pc)) s {#} s' else same_core s s'"
proof -
  have n: "step (mset (notif pc)) s {#} (NotifyCompletion env pc
      (ApplyFailure (pc_controller pc) reason st (upd_completion (pc_completion pc) (\<lambda>c. c\<lparr>coro_latency := l\<rparr>) (snd (RecordMetrics env pc st t)))))"
    if "same_core s t" for t reason st l
    by (rule core_Notify) (rule same_core_trans [OF that same_core_trans [OF core_RecordMetrics same_core_trans [OF core_upd_completion(1) core_ApplyFailure]]])
  show "RejectIfUnavailable env r pc s = (b, s') \<Longrightarrow> if b then step (mset (notif pc)) s {#} s' else s' = s"
    using n [OF same_core_refl] by (auto simp: RejectIfUnavailable_def Let_def case_prod_unfold split: if_splits)
  show "RejectIfExpired env r pc s = (b, s') \<Longrightarrow> if b then step (mset (notif pc)) s {#} s' else same_core s s'"
    using n [OF core_Now] core_Now [of s env]
    by (auto simp: RejectIfExpired_def Let_def case_prod_unfold split: if_splits option.splits)
qed

lemma RejectOverloaded_keep: "step (mset (notif pc)) s {#} (RejectOverloaded env pc reason s)"
proof -
  define s1 where "s1 = s\<lparr>overload_reject_count := overload_reject_count s + 1\<rparr>"
  define hs where "hs = (case degrade_handler s1 of None \<Rightarrow> (False, s1)
    | Some h \<Rightarrow> run_degrade env h (pc_controller pc) (pc_response pc) reason s1)"
  have "keep s s1" unfolding s1_def by (rule same_core_keep) simp
  moreover have "keep s1 (snd hs)" using degrade by (auto simp: hs_def split: option.splits)
  ultimately have k: "keep s (snd hs)" by (rule step_trans)
  have "RejectOverloaded env pc reason s = NotifyCompletion env pc
      (if fst hs then SetCallState (pc_controller pc) Completed (snd hs) else ApplyFailure (pc_controller pc) reason Failed (snd hs))"
    by (simp add: RejectOverloaded_def Let_def case_prod_unfold s1_def [symmetric] hs_def [symmetric])
  then show ?thesis
    using keep_step [OF k core_Notify] core_SetCallState core_ApplyFailure by simp
qed

lemma RejectIfOverloaded_keep:
  "RejectIfOverloaded env r pc s = (b, s') \<Longrightarrow>
   if b then step (mset (notif pc)) s {#} s' else s' = s \<and> (max_pending_calls s = 0 \<or> length (pending_calls s) < max_pending_calls s)"
  using keep_step [OF same_core_keep [OF same_core_trans [OF core_RecordMetrics core_upd_completion(1)]] RejectOverloaded_keep]
  by (auto simp: RejectIfOverloaded_def Let_def case_prod_unfold split: if_splits)

lemma RegisterCancel_keep: "RegisterCancelCallback env r pc s = (t, s') \<Longrightarrow> keep s s'"
  using run_closures_keep by (auto simp: RegisterCancelCallback_def split: controller_ref.splits if_splits prod.splits)

end

text \<open>Changing an entry of the table without touching its notification or its state.\<close>

lemma table_keep:
  assumes "map fst ps = map fst (pending_calls s)"
    and "map (\<lambda>e. notif (snd e)) ps = map (\<lambda>e. notif (snd e)) (pending_calls s)"
    and "map (\<lambda>e. pc_call (snd e)) ps = map (\<lambda>e. pc_call (snd e)) (pending_calls s)"
  shows "keep s (s\<lparr>pending_calls := ps\<rparr>)"
proof -
  have "length ps = length (pending_calls s)" using assms(1) by (rule map_eq_imp_length_eq)
  moreover have "fst ` set ps = fst ` set (pending_calls s)" unfolding set_map [symmetric] assms(1) ..
  moreover have eq: "(\<lambda>e. pc_call (snd e)) ` set ps = (\<lambda>e. pc_call (snd e)) ` set (pending_calls s)"
    unfolding set_map [symmetric] assms(3) ..
  have "(\<forall>x \<in> (\<lambda>e. pc_call (snd e)) ` set ps. x = Pending) \<longleftrightarrow> (\<forall>e \<in> set (pending_calls s). pc_call (snd e) = Pending)"
    unfolding eq by simp
  then have "(\<forall>e \<in> set ps. pc_call (snd e) = Pending) \<longleftrightarrow> (\<forall>e \<in> set (pending_calls s). pc_call (snd e) = Pending)" by simp
  ultimately show ?thesis
    unfolding step_def chan_mono_def owed_def waiting_def begun_def notified_def chan_wf_def queued_ids_def bounded_def keys_def
    by (simp add: assms(1,2))
qed

lemma upd_call_keep:
  assumes "\<And>p. notif (f p) = notif p" "\<And>p. pc_call (f p) = pc_call p"
  shows "keep s (upd_call r f s)"
  unfolding upd_call_def by (rule table_keep) (use assms in auto)

lemma RegisterTimeout_keep: "RegisterTimeoutTimer env r pc s = (e, s') \<Longrightarrow> keep s s'"
proof (cases "pc_deadline pc")
  case (Some d)
  assume a: "RegisterTimeoutTimer env r pc s = (e, s')"
  let ?run = "RunAt env d (Notify \<lparr>owner = 0, handler = Some kHandleTimeoutNotify, token = r\<rparr>) s"
  have k: "keep s (snd ?run)" by (rule same_core_keep [OF core_RunAt])
  have u: "keep t (upd_call r (\<lambda>p. p\<lparr>pc_timeout_timer := tid\<rparr>) t)" for t tid
    by (rule upd_call_keep) (simp_all add: notif_def)
  from a Some k step_trans [OF k u] show ?thesis
    by (cases ?run; cases "fst ?run") (auto simp: RegisterTimeoutTimer_def)
qed (simp add: RegisterTimeoutTimer_def)

section \<open>Admission of a call\<close>

text \<open>As \<^const>\<open>step\<close>, for code that may leave a new entry in the table.\<close>

definition estep :: "notification multiset \<Rightarrow> RpcChannel \<Rightarrow> notification multiset \<Rightarrow> RpcChannel \<Rightarrow> bool" where
  "estep P s Q s' \<longleftrightarrow> chan_mono s s'
     \<and> (sane s' \<and> chan_wf s \<longrightarrow> chan_wf s' \<and> (\<forall>X. owed s (X + P) \<longrightarrow> owed s' (X + Q)) \<and> (bounded s \<longrightarrow> bounded s'))"

lemma step_estep: "step P s Q s' \<Longrightarrow> estep P s Q s'"
  by (simp add: step_def estep_def)

lemma step_iff:
  "step P s Q s' \<longleftrightarrow> estep P s Q s' \<and> (sane s' \<and> chan_wf s \<and> connection s = None \<and> raised s' = None \<longrightarrow> keys s' \<subseteq> keys s)"
  unfolding step_def estep_def by blast

lemma estepD:
  assumes "estep P s Q s'"
  shows "chan_mono s s'" "sane s' \<Longrightarrow> chan_wf s \<Longrightarrow> chan_wf s'"
  using assms unfolding estep_def by blast+

lemma estep_trans:
  assumes "estep P s Q s'" "estep Q s' R s''"
  shows "estep P s R s''"
proof -
  have m: "chan_mono s s'" "chan_mono s' s''" using assms by (simp_all add: estep_def)
  show ?thesis using assms chan_mono_trans [OF m] chan_mono_sane [OF m(2)] unfolding estep_def by blast
qed

text \<open>An identifier that no call uses, as long as the counter has not wrapped.\<close>

definition fresh :: "u64 \<Rightarrow> RpcChannel \<Rightarrow> bool" where
  "fresh r s \<longleftrightarrow> (chan_wf s \<and> sane s \<longrightarrow> r \<notin> keys s \<and> r \<notin> set (queued_ids s) \<and> unat r < next_request_id s)"

lemma fresh_core: "same_core s s' \<Longrightarrow> fresh r s \<Longrightarrow> chan_wf s \<Longrightarrow> fresh r s'"
proof -
  assume c: "same_core s s'" and f: "fresh r s" and wf: "chan_wf s"
  have eqs: "pending_calls s' = pending_calls s" "loop_tasks s' = loop_tasks s" and m: "chan_mono s s'"
    using c by (simp_all add: same_core_def)
  have "next_request_id s \<le> next_request_id s'" using m by (simp add: chan_mono_def)
  then show ?thesis
    using f wf chan_mono_sane [OF m] unfolding fresh_def keys_def queued_ids_def eqs by (blast intro: order_less_le_trans)
qed

lemma emplace_estep:
  assumes "fresh r s" "pc_call pc = Pending" "max_pending_calls s = 0 \<or> length (pending_calls s) < max_pending_calls s"
  shows "estep (mset (notif pc)) s {#} (emplace r pc s)"
proof -
  have m: "chan_mono s (emplace r pc s)" by (simp add: emplace_def chan_mono_def)
  have "chan_wf (emplace r pc s) \<and> (\<forall>X. owed s (X + mset (notif pc)) \<longrightarrow> owed (emplace r pc s) X) \<and> bounded (emplace r pc s)"
    if "sane s" "chan_wf s"
  proof -
    have f: "r \<notin> keys s" "r \<notin> set (queued_ids s)" "unat r < next_request_id s" using assms(1) that by (simp_all add: fresh_def)
    then have e: "emplace r pc s = s\<lparr>pending_calls := (r, pc) # pending_calls s\<rparr>"
      by (simp add: emplace_def keys_def map_of_eq_None_iff)
    show ?thesis
      using that(2) f assms(2,3) unfolding e
      by (auto simp: chan_wf_def keys_def queued_ids_def owed_def waiting_def begun_def notified_def bounded_def)
  qed
  with m chan_mono_sane [OF m] show ?thesis by (simp add: estep_def)
qed

lemma keys_emplace: "keys (emplace r pc s) \<subseteq> insert r (keys s)"
  by (auto simp: emplace_def keys_def)

lemma RegisterTimeout_raised: "RegisterTimeoutTimer env r pc s = (Some e, s') \<Longrightarrow> raised s' = Some e"
  by (auto simp: RegisterTimeoutTimer_def RunAt_def Let_def split: option.splits prod.splits sum.splits)

text \<open>From the insertion into the table to the end.\<close>

definition register_tail :: "rpc_env \<Rightarrow> u64 \<Rightarrow> bytes \<Rightarrow> PendingCall \<Rightarrow> RpcChannel \<Rightarrow> RpcChannel" where
  "register_tail env r data pc s =
     (case RegisterCancelCallback env r pc s of
        (cancel_token, s4) \<Rightarrow>
          (case map_of (pending_calls s4) r of
             None \<Rightarrow> s4
           | Some alive \<Rightarrow>
               (case RegisterTimeoutTimer env r alive (upd_call r (\<lambda>p. p\<lparr>pc_cancel_token := cancel_token\<rparr>) s4) of
                  (Some e, s5) \<Rightarrow> s5
                | (None, s5) \<Rightarrow> WriteRegisteredCall env r data s5)))"

context user_code
begin

lemma Failure_removes:
  assumes wf: "chan_wf s" and s': "s' = CompleteCallWithFailure env r reason st s"
    and fin: "sane s'" "raised s' = None" "connection s = None"
  shows "keys s' \<subseteq> keys s - {r}"
proof (cases "map_of (pending_calls s) r")
  case None
  then have "s' = s" by (simp add: s' CompleteCallWithFailure_def ClaimCall_def)
  moreover have "r \<notin> keys s" using None by (simp add: keys_def map_of_eq_None_iff)
  ultimately show ?thesis by simp
next
  case (Some p)
  have p: "pc_call p = Pending" using wf map_of_SomeD [OF Some] by (force simp: chan_wf_def)
  obtain p' s1 where c: "ClaimCall env r st s = (Some p', s1)"
  proof (cases "ClaimCall env r st s")
    case (Pair x s1)
    then have "x \<noteq> None" using Some p Take_upd [OF Some, of "\<lambda>p. p\<lparr>pc_call := st\<rparr>" env x s1]
      by (auto simp: ClaimCall_def TryComplete_def notif_def)
    with Pair that show ?thesis by (cases x) auto
  qed
  define s2 where "s2 = ApplyFailure (pc_controller p') reason st (upd_completion (pc_completion p')
     (\<lambda>c. c\<lparr>coro_latency := fst (RecordMetrics env p' st s1)\<rparr>) (snd (RecordMetrics env p' st s1)))"
  have core: "same_core s1 s2" unfolding s2_def
    by (rule same_core_trans [OF core_RecordMetrics same_core_trans [OF core_upd_completion(1) core_ApplyFailure]])
  have "s' = NotifyCompletion env p' s2"
    by (simp add: s' CompleteCallWithFailure_def c Let_def case_prod_unfold s2_def)
  then have n: "step (mset (notif p')) s1 {#} s'" using core_Notify [OF core] by simp
  have cl: "step {#} s (mset (notif p')) s1" "pending_calls s1 = filter (\<lambda>e. fst e \<noteq> r) (pending_calls s)"
    using Claim_Some [OF c] by blast+
  have "sane s1" using n fin(1) chan_mono_sane unfolding step_def by blast
  then have "chan_wf s1" "connection s1 = None" using cl(1) wf fin(3) by (auto simp: step_def chan_mono_def)
  then have "keys s' \<subseteq> keys s1" using n fin by (simp add: step_def)
  moreover have "keys s1 \<subseteq> keys s - {r}" by (auto simp: keys_def cl(2))
  ultimately show ?thesis by blast
qed

lemma Write_keep: "keep s (WriteRegisteredCall env r data s)"
  by (auto simp: WriteRegisteredCall_def Failure conn_calls split: option.splits)

lemma Write_removes:
  "chan_wf s \<Longrightarrow> s' = WriteRegisteredCall env r data s \<Longrightarrow> sane s' \<Longrightarrow> raised s' = None \<Longrightarrow> connection s = None \<Longrightarrow>
   keys s' \<subseteq> keys s - {r}"
  using Failure_removes by (simp add: WriteRegisteredCall_def)

lemma tail_keep:
  assumes "s' = register_tail env r data pc s"
  shows "keep s s' \<and> (sane s' \<and> chan_wf s \<and> connection s = None \<and> raised s' = None \<longrightarrow> keys s' \<subseteq> keys s - {r})"
proof -
  obtain t s4 where c: "RegisterCancelCallback env r pc s = (t, s4)" by (cases "RegisterCancelCallback env r pc s")
  have k4: "keep s s4" using RegisterCancel_keep [OF c] .
  show ?thesis
  proof (cases "map_of (pending_calls s4) r")
    case None
    then have "s' = s4" using assms c by (simp add: register_tail_def)
    moreover have "r \<notin> keys s4" using None by (simp add: keys_def map_of_eq_None_iff)
    ultimately show ?thesis using k4 by (auto simp: step_def)
  next
    case (Some alive)
    let ?u = "upd_call r (\<lambda>p. p\<lparr>pc_cancel_token := t\<rparr>) s4"
    obtain e s5 where t: "RegisterTimeoutTimer env r alive ?u = (e, s5)" by (cases "RegisterTimeoutTimer env r alive ?u")
    have "keep s4 ?u" by (rule upd_call_keep) (simp_all add: notif_def)
    then have k5: "keep s s5" using step_trans [OF k4 step_trans [OF _ RegisterTimeout_keep [OF t]]] by blast
    show ?thesis
    proof (cases e)
      case e: (Some x)
      then have "s' = s5" using assms c Some t by (simp add: register_tail_def)
      with k5 RegisterTimeout_raised [OF t [unfolded e]] show ?thesis by simp
    next
      case e: None
      then have s': "s' = WriteRegisteredCall env r data s5" using assms c Some t by (simp add: register_tail_def)
      have k: "keep s5 s'" unfolding s' by (rule Write_keep)
      have "keys s' \<subseteq> keys s - {r}" if a: "sane s'" "chan_wf s" "connection s = None" "raised s' = None"
      proof -
        have 1: "sane s5" "raised s5 = None" using stepD(1,2) [OF k] a by blast+
        have 2: "chan_wf s5" "connection s5 = None" "keys s5 \<subseteq> keys s" using stepD(3,4,6) [OF k5] 1 a by blast+
        have "keys s' \<subseteq> keys s5 - {r}" by (rule Write_removes [OF 2(1) s' a(1,4) 2(2)])
        with 2(3) show ?thesis by blast
      qed
      with step_trans [OF k5 k] show ?thesis by blast
    qed
  qed
qed

lemma RegisterAndSend_step:
  "chan_mono s (RegisterAndSend env r data pc s)
    \<and> (pc_call pc = Pending \<and> fresh r s \<longrightarrow> step (mset (notif pc)) s {#} (RegisterAndSend env r data pc s))"
proof -
  obtain b1 s1 where u: "RejectIfUnavailable env r pc s = (b1, s1)" by (cases "RejectIfUnavailable env r pc s")
  obtain b2 s2 where ov: "RejectIfOverloaded env r pc s1 = (b2, s2)" by (cases "RejectIfOverloaded env r pc s1")
  obtain b3 s3 where ex: "RejectIfExpired env r pc s2 = (b3, s3)" by (cases "RejectIfExpired env r pc s2")
  note u' = Reject_keep(1) [OF u] and ov' = RejectIfOverloaded_keep [OF ov] and ex' = Reject_keep(2) [OF ex]
  show ?thesis
  proof (cases "b1 \<or> b2 \<or> b3")
    case True
    with u u' ov ov' ex ex' have "step (mset (notif pc)) s {#} (RegisterAndSend env r data pc s)"
      by (cases b1; cases b2) (auto simp: RegisterAndSend_def)
    then show ?thesis by (simp add: step_def)
  next
    case False
    with u' ov' have eq: "s2 = s" and mx: "max_pending_calls s = 0 \<or> length (pending_calls s) < max_pending_calls s" by auto
    from False ex' eq have core: "same_core s s3" by simp
    define e where "e = emplace r pc s3"
    define s' where "s' = register_tail env r data pc e"
    have final: "RegisterAndSend env r data pc s = s'"
      using u ov ex False by (simp add: RegisterAndSend_def s'_def e_def register_tail_def)
    have tk: "keep e s'" "sane s' \<and> chan_wf e \<and> connection e = None \<and> raised s' = None \<Longrightarrow> keys s' \<subseteq> keys e - {r}"
      using tail_keep [OF s'_def] by blast+
    have ke: "estep (mset (notif pc)) s {#} e" if "chan_wf s" and fr: "fresh r s" and pc: "pc_call pc = Pending"
    proof -
      have "estep (mset (notif pc)) s3 {#} e" unfolding e_def
      proof (rule emplace_estep [OF _ pc])
        show "fresh r s3" using fresh_core [OF core fr that(1)] .
        show "max_pending_calls s3 = 0 \<or> length (pending_calls s3) < max_pending_calls s3"
          using mx core by (simp add: same_core_def chan_mono_def)
      qed
      with estep_trans [OF step_estep [OF keep_frame [OF same_core_keep [OF core]]]] show ?thesis by blast
    qed
    have "chan_mono s s3" "chan_mono e s'" using core tk(1) unfolding same_core_def step_def by blast+
    moreover have "chan_mono s3 e" by (simp add: e_def emplace_def chan_mono_def)
    ultimately have m: "chan_mono s s'" using chan_mono_trans by blast
    have "keys s' \<subseteq> keys s" if a: "sane s'" "chan_wf s" "connection s = None" "raised s' = None" and fr: "fresh r s" "pc_call pc = Pending"
    proof -
      have "sane e" using stepD(1) [OF tk(1) a(1)] .
      then have w: "chan_wf e" using estepD(2) [OF ke [OF a(2) fr]] a(2) by blast
      have "connection e = None" using estepD(1) [OF ke [OF a(2) fr]] a(3) unfolding chan_mono_def by blast
      have "keys e \<subseteq> insert r (keys s)"
        using keys_emplace [of r pc s3] core unfolding e_def by (simp add: keys_def same_core_def)
      moreover have "keys s' \<subseteq> keys e - {r}" using tk(2) a w \<open>connection e = None\<close> by blast
      ultimately show ?thesis by blast
    qed
    moreover have "estep (mset (notif pc)) s {#} s'" if "chan_wf s" "fresh r s" "pc_call pc = Pending" using estep_trans [OF ke [OF that] step_estep [OF tk(1)]] .
    ultimately show ?thesis unfolding final step_iff estep_def using m by blast
  qed
qed

end

lemma Queue_Register:
  "chan_mono s (QueueInLoop (TaskRegister r data pc) s)
   \<and> (fresh r s \<and> pc_call pc = Pending \<longrightarrow> step (mset (notif pc)) s {#} (QueueInLoop (TaskRegister r data pc) s))"
proof -
  let ?s = "QueueInLoop (TaskRegister r data pc) s"
  have m: "chan_mono s ?s" by (simp add: QueueInLoop_def chan_mono_def)
  have "chan_wf ?s \<and> (\<forall>X. owed s (X + mset (notif pc)) \<longrightarrow> owed ?s X)" if "sane s" "chan_wf s" "fresh r s" "pc_call pc = Pending"
  proof -
    have f: "r \<notin> keys s" "r \<notin> set (queued_ids s)" "unat r < next_request_id s" using that by (simp_all add: fresh_def)
    show ?thesis using that f
      by (auto simp: QueueInLoop_def chan_wf_def keys_def queued_ids_def owed_def waiting_def begun_def notified_def
        task_ids_def task_notifs_def task_ok_def)
  qed
  moreover have "bounded s \<longrightarrow> bounded ?s" "keys ?s = keys s" by (simp_all add: QueueInLoop_def bounded_def keys_def)
  ultimately show ?thesis using m chan_mono_sane [OF m] unfolding step_def by auto
qed

lemma Queue_Invalid:
  assumes "one_way d k"
  shows "step (mset (notification_of d k)) s {#} (QueueInLoop (TaskInvalid c d k reason) s)"
  using assms by (auto simp: step_def chan_mono_def QueueInLoop_def chan_wf_def keys_def queued_ids_def owed_def waiting_def
    begun_def notified_def task_ids_def task_notifs_def task_ok_def bounded_def)

lemma Begin_events: "step {#} s (mset (notification_of d k)) (fold emit_event (map EvBegin (notification_of d k)) s)"
  by (auto simp: notification_of_def step_emit split: option.splits)

text \<open>The identifier drawn from the counter is fresh.\<close>

lemma fresh_next:
  assumes "chan_wf s" "same_core (s\<lparr>next_request_id := next_request_id s + 1\<rparr>) s'"
  shows "fresh (of_nat (next_request_id s)) s'"
  unfolding fresh_def
proof
  assume "chan_wf s' \<and> sane s'"
  have eqs: "pending_calls s' = pending_calls s" "loop_tasks s' = loop_tasks s" and n: "next_request_id s < next_request_id s'"
    using assms(2) by (auto simp: same_core_def chan_mono_def)
  then have "next_request_id s < 2 ^ 64" using \<open>chan_wf s' \<and> sane s'\<close> by (simp add: sane_def)
  then have u: "unat (of_nat (next_request_id s) :: u64) = next_request_id s"
    by (simp add: unat_of_nat take_bit_nat_eq_self)
  have old: "unat r < next_request_id s" if "r \<in> keys s \<union> set (queued_ids s)" for r
    using assms(1) that by (auto simp: chan_wf_def keys_def)
  show "of_nat (next_request_id s) \<notin> keys s' \<and> of_nat (next_request_id s) \<notin> set (queued_ids s')
      \<and> unat (of_nat (next_request_id s) :: u64) < next_request_id s'"
    using old [of "of_nat (next_request_id s)"] n unfolding u keys_def queued_ids_def eqs by auto
qed

context user_code
begin

lemma CompleteInvalid_step:
  assumes "one_way d k"
  shows "step (mset (notification_of d k)) s {#} (CompleteInvalid env c d k reason s)"
proof -
  have a: "keep s (ApplyFailure c reason Invalid s)" by (rule same_core_keep [OF core_ApplyFailure])
  have u: "step {#ByClosure x#} s {#} (run_user env x (emit_event (EvNotify (ByClosure x)) (ApplyFailure c reason Invalid s)))" for x
    using keep_step [OF a step_keep [OF step_emit(2) user]] .
  have q: "step {#ByCoroutine x#} s {#} (QueueCoroutineResume (Some x) (emit_event (EvNotify (ByCoroutine x)) (ApplyFailure c reason Invalid s)))" for x
    using keep_step [OF a step_keep [OF step_emit(2) step_Resume]] .
  show ?thesis
    using assms u q by (auto simp: CompleteInvalid_def one_way_def notification_of_def split: option.splits)
qed

lemma complete_invalid_step:
  "one_way d k \<Longrightarrow> step (mset (notification_of d k)) s {#} (complete_invalid env in_loop c d k reason s)"
  by (simp add: complete_invalid_def CompleteInvalid_step Queue_Invalid)

lemma Begin_step:
  assumes ow: "one_way d k"
  shows "keep s0 (BeginCall env in_loop m c req resp d k s0)"
proof -
  define s where "s = fold emit_event (map EvBegin (notification_of d k)) s0"
  let ?N = "mset (notification_of d k)"
  have b: "step {#} s0 ?N s" unfolding s_def by (rule Begin_events)
  have "step ?N s {#} (BeginCall env in_loop m c req resp d k s0)"
  proof (cases "m = None \<or> req = None \<or> resp = None")
    case True
    then have "BeginCall env in_loop m c req resp d k s0 = complete_invalid env in_loop c d k ''invalid RPC call arguments'' s"
      by (auto simp: BeginCall_def Let_def s_def split: option.splits)
    with complete_invalid_step [OF ow] show ?thesis by simp
  next
    case False
    then obtain mm rq rs where some: "m = Some mm" "req = Some rq" "resp = Some rs" by auto
    obtain dl s1 where rd: "ResolveDeadline env c s = (dl, s1)" by (cases "ResolveDeadline env c s")
    let ?n = "s1\<lparr>next_request_id := next_request_id s1 + 1\<rparr>"
    obtain tr s2 where gt: "GenerateTraceId env ?n = (tr, s2)" by (cases "GenerateTraceId env ?n")
    define r :: u64 where "r = of_nat (next_request_id s1)"
    define s3 where "s3 = upd_completion k (\<lambda>x. x\<lparr>coro_request_id := r, coro_trace_id := tr\<rparr>) s2"
    define data where "data = EncodeMessage (pb env) (RpcMeta_default\<lparr>meta_type := REQUEST, meta_request_id := r,
        meta_service_name := service_full_name env mm, meta_method_index := method_index env mm, meta_trace_id := tr\<rparr>) rq"
    obtain nw s4 where now: "Now env s3 = (nw, s4)" by (cases "Now env s3")
    define pc where "pc = \<lparr>pc_response = rs, pc_controller = c, pc_done = d, pc_completion = k, pc_method = mm, pc_deadline = dl,
        pc_sent_at = nw, pc_trace_id = tr, pc_timeout_timer = 0, pc_cancel_token = -1, pc_call = Pending\<rparr>"
    have body: "BeginCall env in_loop m c req resp d k s0 =
        (if data = [] then complete_invalid env in_loop c d k ''request frame encoding failed'' s3
         else if in_loop then RegisterAndSend env r data pc s4 else QueueInLoop (TaskRegister r data pc) s4)"
      using rd gt now unfolding BeginCall_def some Let_def s_def [symmetric]
      by (simp add: r_def [symmetric] s3_def [symmetric] data_def [symmetric] pc_def [symmetric])
    have 1: "same_core s s1" using core_pair(5) [OF rd] .
    have 3: "same_core ?n s3" unfolding s3_def using same_core_trans [OF core_pair(4) [OF gt] core_upd_completion(3)] .
    have 4: "same_core ?n s4" using same_core_trans [OF 3 core_pair(1) [OF now]] .
    have n: "same_core s1 ?n" by (simp add: core_simps)
    have core: "same_core s s3" "same_core s s4"
      using same_core_trans [OF same_core_trans [OF 1 n] 3] same_core_trans [OF same_core_trans [OF 1 n] 4] .
    have pcall: "pc_call pc = Pending" "notif pc = notification_of d k" by (simp_all add: pc_def notif_def)
    let ?t = "if in_loop then RegisterAndSend env r data pc s4 else QueueInLoop (TaskRegister r data pc) s4"
    have t: "chan_mono s4 ?t \<and> (fresh r s4 \<longrightarrow> step ?N s4 {#} ?t)"
      using RegisterAndSend_step [of s4 r data pc] Queue_Register [of s4 r data pc] pcall by simp
    have m: "chan_mono s ?t" using core(2) t chan_mono_trans unfolding same_core_def by blast
    have f: "fresh r s4" if "chan_wf s"
      unfolding r_def by (rule fresh_next [OF _ 4]) (use wf_mono [OF that] 1 in \<open>simp add: same_core_def chan_mono_def\<close>)
    then have "step ?N s {#} ?t" if "chan_wf s"
      using keep_step [OF same_core_keep [OF core(2)]] t that by blast
    then have "step ?N s {#} ?t" using m unfolding step_def by blast
    with keep_step [OF same_core_keep [OF core(1)] complete_invalid_step [OF ow]] show ?thesis unfolding body by simp
  qed
  with b step_trans show ?thesis by blast
qed

lemma CallMethod_keep: "keep s (CallMethod env in_loop m c req resp d s)"
  by (cases d) (simp_all add: CallMethod_def same_core_keep core_ApplyFailure Begin_step one_way_def)

lemma StartCoroutine_keep: "keep s (StartCoroutineCall env m c req resp k s)"
  by (cases k) (simp_all add: StartCoroutineCall_def same_core_keep core_ApplyFailure Begin_step one_way_def)

end

end
