(* ===== verification/Rpc_Contract.thy ===== *)
theory Rpc_Contract
  imports Rpc_Calls
begin

text \<open>
  The channel as a whole: every operation that can happen to it, user code included, keeps what
  \<open>Rpc_Calls\<close> states of its parts. User programs, whose callbacks nest to any finite depth, satisfy the contract of user
  code, and the properties of whole runs follow.
\<close>

section \<open>The remaining operations\<close>

lemma core_StopMetrics: "same_core s (StopMetricsInLoop env s)"
proof -
  let ?s = "s\<lparr>metrics_interval := 0\<rparr>"
  have "same_core s ?s" by simp
  moreover have "same_core ?s ((CancelTimer env t ?s)\<lparr>metrics_timer := 0\<rparr>)" for t
    by (rule same_core_trans [OF core_CancelTimer core_fields(2)])
  ultimately show ?thesis unfolding StopMetricsInLoop_def Let_def using same_core_trans by (simp split: if_split) blast
qed

lemma core_RunAfter_metrics:
  "RunAfter env i act s = (r, s') \<Longrightarrow> same_core s (set_timer (\<lambda>t s. s\<lparr>metrics_timer := t\<rparr>) r s')"
  by (rule same_core_trans [OF core_pair(3) core_set_timer]) simp_all

lemma core_StartMetrics: "same_core s (StartMetricsInLoop env i s)"
proof -
  obtain n s1 where n: "Now env s = (n, s1)" by (cases "Now env s")
  let ?s = "s1\<lparr>metrics_interval := i, metrics_window_start := n\<rparr>"
  obtain r s3 where r: "RunAfter env i (Functor (Some kMetricsFunctor)) ?s = (r, s3)"
    by (cases "RunAfter env i (Functor (Some kMetricsFunctor)) ?s")
  have "same_core s1 ?s" by (simp add: core_simps)
  then have "same_core s ?s" using same_core_trans [OF core_pair(1) [OF n]] by blast
  then show ?thesis
    using same_core_trans [OF _ core_RunAfter_metrics [OF r]] by (simp add: StartMetricsInLoop_def n r Let_def)
qed

lemma core_Report: "same_core s (ReportMetricsInLoop env s)"
proof -
  define s1 where "s1 = (if TimerId_Valid (metrics_timer s) then (CancelTimer env (metrics_timer s) s)\<lparr>metrics_timer := 0\<rparr> else s)"
  have 1: "same_core s s1" unfolding s1_def using same_core_trans [OF core_CancelTimer core_fields(2)] by simp
  obtain n s2 where n: "Now env s1 = (n, s2)" by (cases "Now env s1")
  obtain cnt m where tk: "TakeCycleCount (metrics s2) = (cnt, m)" by (cases "TakeCycleCount (metrics s2)")
  define s3 where "s3 = emit_event (EvReport (duration_cast_ms (n - metrics_window_start s2)) cnt (length (pending_calls s2))) (s2\<lparr>metrics := m\<rparr>)"
  obtain n' s4 where n': "Now env s3 = (n', s4)" by (cases "Now env s3")
  obtain r s5 where r: "RunAfter env (metrics_interval s4) (Functor (Some kMetricsFunctor)) (s4\<lparr>metrics_window_start := n'\<rparr>) = (r, s5)"
    by (cases "RunAfter env (metrics_interval s4) (Functor (Some kMetricsFunctor)) (s4\<lparr>metrics_window_start := n'\<rparr>)")
  have 3: "same_core s2 s3" unfolding s3_def by (rule same_core_trans [OF core_fields(7) core_emit(4)])
  have 5: "same_core s4 (set_timer (\<lambda>t s. s\<lparr>metrics_timer := t\<rparr>) r s5)"
    by (rule same_core_trans [OF core_fields(8) core_RunAfter_metrics [OF r]])
  have "same_core s1 (set_timer (\<lambda>t s. s\<lparr>metrics_timer := t\<rparr>) r s5)"
    using same_core_trans [OF same_core_trans [OF core_pair(1) [OF n] 3] same_core_trans [OF core_pair(1) [OF n'] 5]] .
  then show ?thesis
    using 1 same_core_trans by (simp add: ReportMetricsInLoop_def Let_def s1_def [symmetric] n tk s3_def [symmetric] n' r)
qed

lemma metrics_keep:
  "keep s (StartMetricsReport env in_loop i s)" "keep s (StopMetricsReport env in_loop s)" "keep s (ReportMetricsInLoop env s)"
proof -
  have q: "keep s (QueueInLoop (TaskStartMetrics i) s)" "keep s (QueueInLoop TaskStopMetrics s)"
    by (rule keep_Queue; simp add: task_notifs_def task_ids_def task_ok_def)+
  show "keep s (StartMetricsReport env in_loop i s)" "keep s (StopMetricsReport env in_loop s)" "keep s (ReportMetricsInLoop env s)"
    using q same_core_keep core_StartMetrics core_StopMetrics core_Report
    by (simp_all add: StartMetricsReport_def StopMetricsReport_def)
qed

context user_code
begin

lemma Flush_keep: "keep s (Flush env in_loop s)"
proof -
  have q: "keep s (QueueInLoop TaskFlushChannel s)"
    by (rule keep_Queue) (simp_all add: task_notifs_def task_ids_def task_ok_def)
  then show ?thesis by (auto simp: Flush_def conn_calls split: option.splits)
qed

lemma user_apply_keep: "keep s (user_apply env u s)"
  by (cases u) (simp_all add: user_apply_def CallMethod_keep StartCoroutine_keep CancelCoroutine_keep Flush_keep
    controller_op_keep metrics_keep SetDegradeHandler_def same_core_keep)

end

section \<open>User programs satisfy the contract\<close>

lemma user_code_nested: "user_code (user_env os p n)"
proof (induction n)
  case (Suc n)
  have k: "keep s (fold (user_apply (user_env os p n)) us s)" for us s
    by (rule keep_fold) (rule user_code.user_apply_keep [OF Suc])
  show ?case by unfold_locales (simp_all add: k split: prod.splits)
qed (unfold_locales, simp_all)

interpretation uc: user_code "user_env os p n" for os p n
  by (rule user_code_nested)

section \<open>Runs\<close>

text \<open>A protocol error is final: the channel is disconnected and its client no longer accepts connections.\<close>

definition gone :: "RpcChannel \<Rightarrow> bool" where
  "gone s \<longleftrightarrow> connection_state s = ChDisconnected \<and> \<not> client_connect (client s)"

definition evolves :: "RpcChannel \<Rightarrow> RpcChannel \<Rightarrow> bool" where
  "evolves s s' \<longleftrightarrow> next_request_id s \<le> next_request_id s' \<and> (dangling s \<longrightarrow> dangling s') \<and> (gone s \<longrightarrow> gone s')
     \<and> max_pending_calls s' = max_pending_calls s \<and> (\<forall>k. resumable k s' \<le> resumable k s)
     \<and> (sane s' \<and> chan_wf s \<longrightarrow> chan_wf s' \<and> (\<forall>X. owed s X \<longrightarrow> owed s' X) \<and> (bounded s \<longrightarrow> bounded s'))"

lemma evolves_refl [simp]: "evolves s s"
  by (simp add: evolves_def)

lemma evolves_sane: "evolves s s' \<Longrightarrow> sane s' \<Longrightarrow> sane s"
  by (auto simp: evolves_def sane_def)

lemma evolves_trans: "evolves s s' \<Longrightarrow> evolves s' s'' \<Longrightarrow> evolves s s''"
  using evolves_sane [of s' s''] unfolding evolves_def by (metis order_trans)

lemma keep_evolves: "keep s s' \<Longrightarrow> evolves s s'"
  by (auto simp: step_def evolves_def chan_mono_def gone_def)

lemma mono_evolves:
  assumes "chan_mono s s'" "sane s' \<Longrightarrow> chan_wf s \<Longrightarrow> keep s s'"
  shows "evolves s s'"
proof -
  have "next_request_id s \<le> next_request_id s'" "dangling s \<longrightarrow> dangling s'" "gone s \<longrightarrow> gone s'"
    "max_pending_calls s' = max_pending_calls s" "\<forall>k. resumable k s' \<le> resumable k s"
    using assms(1) by (auto simp: chan_mono_def gone_def)
  then show ?thesis using keep_evolves assms(2) unfolding evolves_def by blast
qed

text \<open>Changes to connections, to the guard and to the client do not touch the ledger.\<close>

lemma evolves_frame:
  assumes "pending_calls s' = pending_calls s" "loop_tasks s' = loop_tasks s" "history s' = history s"
    "next_request_id s' = next_request_id s" "dangling s \<longrightarrow> dangling s'" "max_pending_calls s' = max_pending_calls s"
    "gone s \<longrightarrow> gone s'" "completions s' = completions s"
  shows "evolves s s'"
  using assms by (simp add: resumable_def evolves_def chan_wf_def queued_ids_def owed_def waiting_def begun_def notified_def bounded_def)

lemma set_input_evolves: "evolves s (set_input conn b s)"
  by (rule evolves_frame) (simp_all add: set_input_def gone_def)

lemma map_absent: "map_of xs r = None \<Longrightarrow> map (\<lambda>(k, pc). (k, if k = r then f pc else pc)) xs = xs"
  by (induction xs) (auto split: if_splits)

lemma upd_call_absent: "map_of (pending_calls s) r = None \<Longrightarrow> upd_call r f s = s"
  by (simp add: upd_call_def map_absent)

lemma OnMessage_evolves: "OnMessage env conn s = Some s' \<Longrightarrow> user_code env \<Longrightarrow> evolves s s'"
proof (induction rule: OnMessage.raw_induct [rotated, consumes 1, case_names loop])
  case (loop continue env conn s s')
  note keeps = user_code.ProtocolError_keep [OF loop.prems] user_code.HandleFrame_keep [OF loop.prems]
  have q: "keep s (QueueInLoop (TaskFlushConnection conn) s)"
    by (rule keep_Queue) (simp_all add: task_notifs_def task_ids_def task_ok_def)
  show ?case
  proof (cases "Decode (pb env) (input_buffer (conns s conn))")
    case (Some r)
    show ?thesis
    proof (cases r)
      case kNeedMore
      with loop.hyps Some keep_evolves [OF q] show ?thesis by auto
    next
      case (kError e)
      with loop.hyps Some keep_evolves [OF keeps(1)] show ?thesis by auto
    next
      case (kOk f)
      let ?s = "HandleFrame env f s"
      obtain b where b: "continue env conn (set_input conn b ?s) = Some s'"
        using loop.hyps Some kOk by (auto simp: Let_def split: option.splits)
      have "evolves (set_input conn b ?s) s'" by (rule loop.IH [OF b loop.prems])
      with keep_evolves [OF keeps(2), of s f] set_input_evolves evolves_trans show ?thesis by blast
    qed
  qed (use loop.hyps in simp)
qed

lemma evolves_conns: "evolves s (s\<lparr>conns := cs\<rparr>)"
  by (rule evolves_frame) (simp_all add: gone_def)

context user_code
begin

lemma FailFirst_step: "chan_mono s (FailFirstNow env reason r s) \<and> (chan_wf s \<longrightarrow> keep s (FailFirstNow env reason r s))"
proof (cases "map_of (pending_calls s) r")
  case None
  then show ?thesis by (simp add: FailFirstNow_def Let_def upd_call_absent TakePendingCall_def)
next
  case (Some p)
  define f :: "PendingCall \<Rightarrow> PendingCall" where "f = (\<lambda>p. p\<lparr>pc_call := snd (TryComplete Failed (pc_call p))\<rparr>)"
  have n: "notif (f p) = notif p" by (simp add: notif_def f_def)
  obtain p' s2 where t: "TakePendingCall env r (upd_call r f s) = (p', s2)" by (cases "TakePendingCall env r (upd_call r f s)")
  from Take_upd [OF Some n t] have tk: "p' = Some (f p)" "step {#} s (mset (notif p)) s2" by blast+
  define s5 where "s5 = ApplyFailure (pc_controller (f p)) reason Failed (upd_completion (pc_completion (f p))
      (\<lambda>c. c\<lparr>coro_latency := fst (RecordMetrics env (f p) Failed s2)\<rparr>) (snd (RecordMetrics env (f p) Failed s2)))"
  have "same_core s2 s5" unfolding s5_def
    by (rule same_core_trans [OF core_RecordMetrics same_core_trans [OF core_upd_completion(1) core_ApplyFailure]])
  from core_Notify [OF this, of "f p"] n have nt: "step (mset (notif p)) s2 {#} (NotifyCompletion env (f p) s5)" by simp
  have eq: "FailFirstNow env reason r s = (if fst (TryComplete Failed (pc_call p)) then NotifyCompletion env (f p) s5 else s2)"
    unfolding FailFirstNow_def f_def [symmetric] by (simp add: Let_def Some t tk(1) case_prod_unfold s5_def)
  have "fst (TryComplete Failed (pc_call p))" if "chan_wf s"
    using that map_of_SomeD [OF Some] by (force simp: chan_wf_def TryComplete_def)
  then show ?thesis
    unfolding eq using step_trans [OF tk(2) nt] tk(2) unfolding step_def by simp
qed

lemma FailFirst_evolves: "evolves s (FailFirstNow env reason r s)"
  by (rule mono_evolves) (use FailFirst_step in blast)+

lemma with_conn_input:
  assumes "operation (conns s conn) = Some c" "closing ((conns s conn)\<lparr>input_buffer := b\<rparr>) c"
  shows "evolves s (with_conn env conn operation s)"
proof -
  have "with_conn env conn operation s = with_conn env conn (\<lambda>_. Some c) (set_input conn b s)"
    using assms(1) by (simp add: with_conn_def set_input_def)
  moreover have "keep (set_input conn b s) (with_conn env conn (\<lambda>_. Some c) (set_input conn b s))"
    by (rule with_conn_keep) (use assms(2) in \<open>simp add: set_input_def\<close>)
  ultimately show ?thesis using evolves_trans [OF set_input_evolves keep_evolves] by simp
qed

lemma OnConnection_open:
  assumes "Connected (conns s conn)" "\<not> gone s"
  shows "evolves s (OnConnection env conn s)"
proof -
  let ?s = "s\<lparr>connection := Some conn, connection_state := ChConnected, connection_error := [], heartbeat_missed := 0\<rparr>"
  have "evolves s ?s" by (rule evolves_frame) (use assms(2) in simp_all)
  moreover have "evolves ?s (ScheduleHeartbeatInLoop env ?s)" by (rule keep_evolves [OF same_core_keep [OF core_ScheduleHeartbeat]])
  ultimately show ?thesis using assms(1) evolves_trans by (simp add: OnConnection_def)
qed

lemma NewConnection_evolves: "evolves s (NewConnection env fd s)"
proof (cases "client_connect (client s)")
  case False
  then show ?thesis by (simp add: NewConnection_def keep_evolves [OF same_core_keep [OF core_emit(3)]])
next
  case True
  let ?n = "next_connection_id (client s)"
  define c where "c = (TcpConnection_new fd)\<lparr>connection_callback := client_callbacks (client s), close_callback := True\<rparr>"
  define s1 where "s1 = s\<lparr>client := (client s)\<lparr>next_connection_id := ?n + 1, client_connection := Some ?n\<rparr>, conns := (conns s)(?n := c)\<rparr>"
  define s2 where "s2 = s1\<lparr>conns := (conns s1)(?n := ConnectEstablished c)\<rparr>"
  have e1: "evolves s s1" unfolding s1_def by (rule evolves_frame) (simp_all add: gone_def True)
  have e2: "evolves s1 s2" unfolding s2_def by (rule evolves_conns)
  have ng: "\<not> gone s2" by (simp add: s2_def s1_def gone_def True)
  have st: "Connected (conns s2 ?n)" by (simp add: s2_def ConnectEstablished_def Let_def Connected_def emit_def)
  have o: "outs (ConnectEstablished c) = (if client_callbacks (client s) then [OutConnectionCallback kConnected] else [])"
    by (simp add: ConnectEstablished_def Let_def emit_def c_def TcpConnection_new_def)
  have "NewConnection env fd s = (if client_callbacks (client s) then OnConnection env ?n s2 else s2)"
    using True o by (simp add: NewConnection_def Let_def with_conn_def s1_def s2_def c_def dispatch_out_def TcpConnection_new_def)
  then show ?thesis using evolves_trans [OF evolves_trans [OF e1 e2]] OnConnection_open [OF st ng] evolves_trans [OF e1 e2] by auto
qed

lemma TcpClient_destroy_evolves: "evolves s (TcpClient_destroy env s)"
proof -
  let ?s1 = "emit_event EvConnectorStop s"
  have e1: "evolves s ?s1" by (rule keep_evolves [OF same_core_keep [OF core_emit(2)]])
  show ?thesis
  proof (cases "client_connection (client ?s1)")
    case (Some conn)
    let ?s2 = "?s1\<lparr>client := (client ?s1)\<lparr>client_connection := None\<rparr>, conns := (conns ?s1)(conn := (conns ?s1 conn)\<lparr>connection_callback := False,
                     write_complete_callback := False, close_callback := False\<rparr>)\<rparr>"
    have "evolves ?s1 ?s2" by (rule evolves_frame) (simp_all add: gone_def)
    then have "evolves s (with_conn env conn (\<lambda>c. Some (ConnectDestroyed c)) ?s2)"
      using evolves_trans [OF e1 evolves_trans [OF _ keep_evolves [OF conn_calls(5)]]] by blast
    with Some show ?thesis by (simp add: TcpClient_destroy_def Let_def)
  qed (use e1 in \<open>simp add: TcpClient_destroy_def Let_def\<close>)
qed

end

lemma FailAllPendingNow_evolves: "FailAllPendingNow env reason s = Some s' \<Longrightarrow> user_code env \<Longrightarrow> evolves s s'"
proof (induction rule: FailAllPendingNow.raw_induct [rotated, consumes 1, case_names loop])
  case (loop continue env reason s s')
  let ?s = "FailNextNow env reason s"
  have "evolves s ?s" unfolding FailNextNow_def by (rule user_code.FailFirst_evolves [OF loop.prems])
  with loop.hyps loop.IH [OF _ loop.prems, of reason ?s] evolves_trans show ?case by (auto split: if_splits)
qed

text \<open>Taking a task from the queue puts its notification into the hands of the task.\<close>

definition without_task :: "nat \<Rightarrow> RpcChannel \<Rightarrow> RpcChannel" where
  "without_task i s = s\<lparr>loop_tasks := take i (loop_tasks s) @ drop (Suc i) (loop_tasks s)\<rparr>"

lemma take_task:
  assumes "i < length (loop_tasks s)" "t = loop_tasks s ! i"
  shows "step {#} s (mset (task_notifs t)) (without_task i s)"
    and "chan_wf s \<Longrightarrow> task_ok t" and "chan_wf s \<Longrightarrow> t = TaskRegister r data pc \<Longrightarrow> fresh r (without_task i s)"
proof -
  let ?xs = "take i (loop_tasks s)" and ?ys = "drop (Suc i) (loop_tasks s)"
  have sp: "loop_tasks s = ?xs @ t # ?ys" using assms by (simp add: id_take_nth_drop)
  have tasks: "loop_tasks (without_task i s) = ?xs @ ?ys" by (simp add: without_task_def)
  have w: "waiting s = waiting (without_task i s) + mset (task_notifs t)"
    using arg_cong [OF sp, of "\<lambda>ts. mset (concat (map task_notifs ts))"] unfolding waiting_def tasks
    by (simp add: without_task_def)
  have ids: "queued_ids s = concat (map task_ids ?xs) @ task_ids t @ concat (map task_ids ?ys)"
    "queued_ids (without_task i s) = concat (map task_ids ?xs) @ concat (map task_ids ?ys)"
    using arg_cong [OF sp, of "\<lambda>ts. concat (map task_ids ts)"] unfolding queued_ids_def tasks by simp_all
  have fields: "pending_calls (without_task i s) = pending_calls s" "next_request_id (without_task i s) = next_request_id s"
    by (simp_all add: without_task_def)
  have ok: "\<forall>x \<in> set (loop_tasks s). task_ok x" if "chan_wf s" using that by (simp add: chan_wf_def)
  then show "chan_wf s \<Longrightarrow> task_ok t" using assms nth_mem by blast
  have sub: "set (loop_tasks (without_task i s)) \<subseteq> set (loop_tasks s)"
    unfolding tasks by (auto dest: in_set_takeD in_set_dropD)
  have wf: "chan_wf (without_task i s)" if "chan_wf s"
    using that ok [OF that] sub unfolding chan_wf_def ids fields by (auto simp: fields)
  have "owed s X \<longrightarrow> owed (without_task i s) (X + mset (task_notifs t))" for X
    using w by (simp add: owed_def begun_def notified_def without_task_def ac_simps)
  with wf show "step {#} s (mset (task_notifs t)) (without_task i s)"
    by (simp add: step_def chan_mono_def bounded_def keys_def without_task_def)
  show "chan_wf s \<Longrightarrow> t = TaskRegister r data pc \<Longrightarrow> fresh r (without_task i s)"
    unfolding fresh_def chan_wf_def ids keys_def fields by (auto simp: task_ids_def)
qed

lemma dangling_evolves: "\<not> sane s' \<Longrightarrow> chan_mono s s' \<Longrightarrow> evolves s s'"
  using mono_evolves by blast

lemma mark_dangling: "\<not> sane (s\<lparr>dangling := True\<rparr>)" "chan_mono s (s\<lparr>dangling := True\<rparr>)"
  by (simp_all add: sane_def chan_mono_def)

context user_code
begin

text \<open>What a task does with its notification in hand.\<close>

lemma run_task_step:
  assumes "task_ok t" "\<And>r data pc. t = TaskRegister r data pc \<Longrightarrow> fresh r s"
  shows "sane (run_task env t s) \<longrightarrow> step (mset (task_notifs t)) s {#} (run_task env t s)"
proof -
  have resume: "keep s (resume_coroutine env k (emit_event (EvResumed k) (upd_completion (Some k) (\<lambda>c. c\<lparr>coro_handle := False\<rparr>) s)))" if "coro_handle (completions s k)" for k
    using step_trans [OF same_core_keep [OF core_resumed [OF that]] resume] .
  show ?thesis
  proof (cases t)
    case (TaskInvalid c d k reason)
    with assms(1) CompleteInvalid_step [of d k s c reason] mark_dangling(1) show ?thesis
      by (simp add: run_task_def task_ok_def task_notifs_def)
  next
    case (TaskRegister r data pc)
    with assms RegisterAndSend_step [of s r data pc] mark_dangling(1) show ?thesis
      by (simp add: run_task_def task_ok_def task_notifs_def)
  next
    case (TaskStartMetrics i)
    with mark_dangling(1) same_core_keep [OF core_StartMetrics] show ?thesis by (simp add: run_task_def task_notifs_def)
  next
    case TaskStopMetrics
    with mark_dangling(1) same_core_keep [OF core_StopMetrics] show ?thesis by (simp add: run_task_def task_notifs_def)
  qed (use resume conn_calls Flush_keep Cancelling in \<open>auto simp: run_task_def task_notifs_def\<close>)
qed

lemma run_task_mono: "chan_mono s (run_task env t s)"
proof -
  have k: "keep s s' \<Longrightarrow> chan_mono s s'" for s' by (simp add: step_def)
  have "chan_mono s (CompleteInvalid env c d k reason s)" for c d k reason
  proof -
    let ?a = "ApplyFailure c reason Invalid s"
    have a: "chan_mono s ?a" using core_ApplyFailure by (simp add: same_core_def)
    have m: "chan_mono s (emit_event (EvNotify e) ?a)" for e using a by (simp add: chan_mono_def emit_event_def)
    have "chan_mono t (run_user env x t)" "chan_mono t (QueueCoroutineResume (Some y) t)" for t x y
      using user [of t x] step_Resume [of t "Some y"] by (simp_all add: step_def)
    then have "chan_mono s (run_user env x (emit_event (EvNotify e) ?a))" "chan_mono s (QueueCoroutineResume (Some y) (emit_event (EvNotify e) ?a))" for e x y
      using chan_mono_trans [OF m] by blast+
    with a show ?thesis by (auto simp: CompleteInvalid_def Let_def split: option.splits)
  qed
  moreover have "keep s (resume_coroutine env k (emit_event (EvResumed k) (upd_completion (Some k) (\<lambda>c. c\<lparr>coro_handle := False\<rparr>) s)))" if "coro_handle (completions s k)" for k
    using step_trans [OF same_core_keep [OF core_resumed [OF that]] resume] .
  ultimately show ?thesis
    using RegisterAndSend_step [of s] mark_dangling(2) k [OF same_core_keep [OF core_StartMetrics]]
      k [OF same_core_keep [OF core_StopMetrics]] k [OF Cancelling] k [OF Flush_keep] k [OF conn_calls(2)] k [OF conn_calls(5)] k
    by (cases t) (auto simp: run_task_def)
qed

lemma run_queued_evolves: "evolves s (run_queued env i s)"
proof (cases "i < length (loop_tasks s)")
  case True
  define t where "t = loop_tasks s ! i"
  let ?s = "without_task i s"
  have eq: "run_queued env i s = run_task env t ?s" using True by (simp add: run_queued_def without_task_def t_def)
  note tk = take_task [OF True t_def]
  have m: "chan_mono s (run_task env t ?s)" using tk(1) run_task_mono chan_mono_trans unfolding step_def by blast
  have "keep s (run_task env t ?s)" if "chan_wf s" "sane (run_task env t ?s)"
    using run_task_step [of t ?s] tk(2,3) that step_trans [OF tk(1)] by blast
  then show ?thesis unfolding eq using mono_evolves [OF m] by blast
qed (simp add: run_queued_def)

end

section \<open>Whole runs\<close>

definition conserves :: "RpcChannel \<Rightarrow> RpcChannel \<Rightarrow> bool" where
  "conserves s s' \<longleftrightarrow> (sane s' \<longrightarrow> sane s) \<and> (gone s \<longrightarrow> gone s') \<and> (\<forall>k. resumable k s' \<le> resumable k s)
     \<and> (sane s' \<and> chan_wf s \<longrightarrow> chan_wf s' \<and> (\<forall>X. owed s X \<longrightarrow> owed s' X))"

lemma evolves_conserves: "evolves s s' \<Longrightarrow> conserves s s'"
  using evolves_sane unfolding conserves_def evolves_def by blast

lemma conserves_trans: "conserves s s' \<Longrightarrow> conserves s' s'' \<Longrightarrow> conserves s s''"
  unfolding conserves_def using le_trans by blast

lemma SetMax_conserves: "conserves s (SetMaxPendingCalls n s)"
  by (simp add: conserves_def SetMaxPendingCalls_def sane_def gone_def chan_wf_def queued_ids_def owed_def waiting_def begun_def notified_def)

lemma on_channel_evolves: "(\<And>s. evolves s (f s)) \<Longrightarrow> evolves s (on_channel f s)"
  using dangling_evolves [OF mark_dangling] by (simp add: on_channel_def)

lemma on_channel_conserves: "(\<And>s. conserves s (f s)) \<Longrightarrow> conserves s (on_channel f s)"
  using evolves_conserves [OF dangling_evolves [OF mark_dangling]] by (simp add: on_channel_def)

fun sets_limit :: "chan_op \<Rightarrow> bool" where
  "sets_limit (OpSetMaxPendingCalls n) = True"
| "sets_limit _ = False"

context user_code
begin

lemma conn_event_evolves:
  assumes "handle_conn_event env conn e s = Some s'"
  shows "evolves s s'"
proof (cases e)
  case (ConnReadable result)
  obtain r b where rb: "ReadFd (\<lambda>_. result) (input_buffer (conns s conn)) = Some (r, b)"
    using assms ConnReadable by (auto simp: handle_conn_event_def split: option.splits)
  show ?thesis
  proof (cases "(case r of Inr n \<Rightarrow> n > 0 | Inl _ \<Rightarrow> False) \<and> connection_callback (conns s conn)")
    case True
    then have "OnMessage env conn (set_input conn b s) = Some s'" using assms ConnReadable rb by (simp add: handle_conn_event_def)
    from OnMessage_evolves [OF this user_code_axioms] show ?thesis using evolves_trans set_input_evolves by blast
  next
    case False
    then have s': "s' = with_conn env conn (HandleRead (\<lambda>_. result) None) s"
      using assms ConnReadable rb by (auto simp: handle_conn_event_def)
    show ?thesis
    proof (cases "HandleRead (\<lambda>_. result) None (conns s conn)")
      case None
      then show ?thesis by (simp add: s' with_conn_def)
    next
      case (Some c)
      with HandleRead_closing [OF Some] with_conn_input show ?thesis unfolding s' by blast
    qed
  qed
next
  case ConnWritable
  have "keep s (with_conn env conn (HandleWrite (send_result env s)) s)" by (rule with_conn_keep) (rule closing_HandleWrite)
  with assms ConnWritable show ?thesis using keep_evolves by (auto simp: handle_conn_event_def)
next
  case ConnHangup
  have "keep s (with_conn env conn (\<lambda>c. Some (HandleClose c)) s)" by (rule with_conn_keep) (use closing_HandleClose in auto)
  with assms ConnHangup show ?thesis using keep_evolves by (auto simp: handle_conn_event_def)
next
  case ConnError
  have "keep s (with_conn env conn (\<lambda>c. Some (HandleError c)) s)" by (rule with_conn_keep) (use closing_HandleError in auto)
  with assms ConnError show ?thesis using keep_evolves by (auto simp: handle_conn_event_def)
qed

lemma prepare_destroy_evolves: "evolves s (prepare_destroy env s)"
proof -
  define s1 where "s1 = StopMetricsReport env True (CancelHeartbeatInLoop env s)"
  let ?s2 = "s1\<lparr>alive_guard := False, client := (client s1)\<lparr>client_callbacks := False\<rparr>\<rparr>"
  let ?s3 = "TcpClient_destroy env ?s2"
  have "keep s s1" unfolding s1_def by (rule step_trans [OF same_core_keep [OF core_CancelHeartbeat] metrics_keep(2)])
  moreover have "evolves s1 ?s2" by (rule evolves_frame) (simp_all add: gone_def)
  moreover have "evolves ?s3 (?s3\<lparr>connection := None\<rparr>)" by (rule evolves_frame) (simp_all add: gone_def)
  ultimately have "evolves s (?s3\<lparr>connection := None\<rparr>)"
    using keep_evolves TcpClient_destroy_evolves [of ?s2] evolves_trans by meson
  then show ?thesis by (simp add: prepare_destroy_def Let_def s1_def)
qed

lemma apply_evolves:
  assumes "chan_apply env operation s = Some s'" "\<not> sets_limit operation"
  shows "evolves s s'"
proof -
  have user_ev: "evolves s (on_channel (user_apply env u) s)" for s u
    by (rule on_channel_evolves) (rule keep_evolves [OF user_apply_keep])
  show ?thesis
  proof (cases operation)
    case (OpUser u)
    with assms user_ev [of s u] keep_evolves [OF controller_op_keep] show ?thesis by (cases u) (auto simp: chan_apply_def)
  next
    case OpDestroy
    show ?thesis
    proof (cases "alive_guard s")
      case True
      with assms OpDestroy have "FailAllPendingNow env ''RPC channel closed'' (prepare_destroy env s) = Some s'"
        by (simp add: chan_apply_def RpcChannel_destroy_def)
      from FailAllPendingNow_evolves [OF this user_code_axioms] show ?thesis
        using evolves_trans prepare_destroy_evolves by blast
    next
      case False
      with assms OpDestroy dangling_evolves [OF mark_dangling] show ?thesis by (auto simp: chan_apply_def)
    qed
  qed (use assms in \<open>auto simp: chan_apply_def HandleTimeoutNotify_def OnTimeout_def run_queued_evolves NewConnection_evolves
      conn_event_evolves keep_evolves controller_op_keep Failure Heartbeat_keep metrics_keep CallMethod_keep Flush_keep
      CancelCoroutine_keep on_channel_evolves\<close>)
qed

lemma apply_conserves: "chan_apply env operation s = Some s' \<Longrightarrow> conserves s s'"
proof (cases "sets_limit operation")
  case True
  moreover assume "chan_apply env operation s = Some s'"
  ultimately show ?thesis
    using on_channel_conserves [OF SetMax_conserves] by (cases operation) (auto simp: chan_apply_def)
qed (use apply_evolves evolves_conserves in blast)

lemma run_conserves: "chan_run env ops s = Some s' \<Longrightarrow> conserves s s'"
proof (induction ops arbitrary: s)
  case (Cons op ops)
  then obtain s1 where "chan_apply env op s = Some s1" "chan_run env ops s1 = Some s'" by (auto split: option.splits)
  with Cons.IH apply_conserves conserves_trans show ?case by blast
qed (simp add: conserves_def)

lemma run_evolves: "chan_run env ops s = Some s' \<Longrightarrow> \<forall>op \<in> set ops. \<not> sets_limit op \<Longrightarrow> evolves s s'"
proof (induction ops arbitrary: s)
  case (Cons op ops)
  then obtain s1 where s1: "chan_apply env op s = Some s1" "chan_run env ops s1 = Some s'" by (auto split: option.splits)
  have "evolves s s1" by (rule apply_evolves [OF s1(1)]) (use Cons.prems(2) in simp)
  moreover have "evolves s1 s'" by (rule Cons.IH [OF s1(2)]) (use Cons.prems(2) in simp)
  ultimately show ?case by (rule evolves_trans)
qed simp

end

lemma new_channel_ok: "chan_wf (RpcChannel_new epoch)" "owed (RpcChannel_new epoch) {#}" "sane (RpcChannel_new epoch)"
  by (simp_all add: RpcChannel_new_def chan_wf_def queued_ids_def owed_def waiting_def begun_def notified_def sane_def)

end
