(* ===== verification/Timer_Links.thy ===== *)
theory Timer_Links
  imports Timer_Queue
begin

text \<open>
  The bucket lists of the timing wheel as mathematical lists. \<open>chain\<close> relates head, tail and the link
  fields of a doubly linked segment to the list of its slots; \<open>wheel_rep q L\<close> says that every bucket
  \<open>(l, b)\<close> of \<open>q\<close> holds exactly the list \<open>L l b\<close> and that the level and bucket recorded in a slot are
  where it is linked. Linking is appending at the tail, unlinking is removing, and neither changes
  anything but links and the recorded position.
\<close>

section \<open>Doubly linked segments\<close>

primrec chain :: "(nat \<Rightarrow> nat) \<Rightarrow> (nat \<Rightarrow> nat) \<Rightarrow> nat \<Rightarrow> nat \<Rightarrow> nat list \<Rightarrow> nat \<Rightarrow> nat \<Rightarrow> bool" where
  "chain nx pv h p [] t n \<longleftrightarrow> h = n \<and> t = p"
| "chain nx pv h p (x # xs) t n \<longleftrightarrow> h = x \<and> pv x = p \<and> chain nx pv (nx x) x xs t n"

lemma chain_append:
  "chain nx pv h p (xs @ ys) t n \<longleftrightarrow> (\<exists>m k. chain nx pv h p xs k m \<and> chain nx pv m k ys t n)"
  by (induction xs arbitrary: h p) auto

lemma chain_tail: "chain nx pv h p xs t n \<Longrightarrow> t = (if xs = [] then p else last xs)"
  by (induction xs arbitrary: h p) auto

lemma chain_head: "chain nx pv h p xs t n \<Longrightarrow> h = (if xs = [] then n else hd xs)"
  by (cases xs) auto

lemma chain_cong:
  "(\<And>x. x \<in> set xs \<Longrightarrow> nx x = nx' x \<and> pv x = pv' x) \<Longrightarrow> chain nx pv h p xs t n = chain nx' pv' h p xs t n"
  by (induction xs arbitrary: h p) auto

text \<open>Redirecting the last forward link, and the first backward link.\<close>

lemma chain_set_last:
  assumes "chain nx pv h p xs t n" "distinct xs" "xs \<noteq> []"
  shows "chain (nx(t := m)) pv h p xs t m"
  using assms
proof (induction xs arbitrary: h p)
  case Nil
  then show ?case by simp
next
  case (Cons x xs)
  show ?case
  proof (cases "xs = []")
    case True
    with Cons.prems show ?thesis by simp
  next
    case False
    with Cons.prems chain_tail [of nx pv "nx x" x xs t n] have "t \<noteq> x" by auto
    with Cons False show ?thesis by simp
  qed
qed

lemma chain_set_first:
  assumes "chain nx pv h p xs t n" "distinct xs" "xs \<noteq> []"
  shows "chain nx (pv(h := p')) h p' xs t n"
proof -
  from assms(3) obtain x ys where "xs = x # ys" by (cases xs) auto
  moreover have "chain nx pv k r ys t n = chain nx (pv(x := p')) k r ys t n" for k r
    using assms(2) calculation by (intro chain_cong) auto
  ultimately show ?thesis using assms(1) by simp
qed

section \<open>Link-free view of slots and queues\<close>

definition vis :: "TimerSlot \<Rightarrow> TimerSlot" where
  "vis s = s\<lparr>wheel_prev := 0, wheel_next := 0\<rparr>"

lemma vis_fields [simp]:
  "deadline (vis s) = deadline s" "action (vis s) = action s"
  "external_timer_id (vis s) = external_timer_id s" "wheel_rounds (vis s) = wheel_rounds s"
  "next_free (vis s) = next_free s" "generation (vis s) = generation s"
  "wheel_level (vis s) = wheel_level s" "bucket_index (vis s) = bucket_index s"
  "active (vis s) = active s"
  by (simp_all add: vis_def)

lemma visD:
  assumes "vis a = vis b"
  shows "deadline a = deadline b" "action a = action b" "external_timer_id a = external_timer_id b"
    "wheel_rounds a = wheel_rounds b" "next_free a = next_free b" "generation a = generation b"
    "wheel_level a = wheel_level b" "bucket_index a = bucket_index b" "active a = active b"
  using assms by (metis vis_fields)+

text \<open>Everything of a queue but its slots and buckets.\<close>

definition rest :: "TimerQueue \<Rightarrow> TimerQueue" where
  "rest q = q\<lparr>slots := [], wheel := []\<rparr>"

lemma rest_fields [simp]:
  "free_slot_head (rest q) = free_slot_head q" "active_timer_count (rest q) = active_timer_count q"
  "wheel_epoch (rest q) = wheel_epoch q" "current_tick (rest q) = current_tick q"
  "timer_fd_armed (rest q) = timer_fd_armed q" "timer_fd_spec (rest q) = timer_fd_spec q"
  "next_external_timer_id (rest q) = next_external_timer_id q"
  "external_timer_slots (rest q) = external_timer_slots q"
  by (simp_all add: rest_def)

lemma restD:
  assumes "rest a = rest b"
  shows "free_slot_head a = free_slot_head b" "active_timer_count a = active_timer_count b"
    "wheel_epoch a = wheel_epoch b" "current_tick a = current_tick b"
    "timer_fd_armed a = timer_fd_armed b" "timer_fd_spec a = timer_fd_spec b"
    "next_external_timer_id a = next_external_timer_id b"
    "external_timer_slots a = external_timer_slots b"
  using assms by (metis rest_fields)+

lemma rest_upd [simp]: "rest (upd_slot i f q) = rest q" "rest (upd_bucket l b g q) = rest q"
  by (simp_all add: rest_def upd_slot_def upd_bucket_def)

lemma length_slots_upd [simp]:
  "length (slots (upd_slot i f q)) = length (slots q)" "slots (upd_bucket l b g q) = slots q"
  by (simp_all add: upd_slot_def upd_bucket_def)

lemma slots_upd_slot:
  "j < length (slots q) \<Longrightarrow>
   slots (upd_slot i f q) ! j = (if j = i then f (slots q ! j) else slots q ! j)"
  by (auto simp: upd_slot_def nth_list_update)

lemma slots_upd_slot_ne: "j \<noteq> i \<Longrightarrow> slots (upd_slot i f q) ! j = slots q ! j"
  by (simp add: upd_slot_def)

lemma DeadlineTick_rest: "rest q = rest q' \<Longrightarrow> DeadlineTick q = DeadlineTick q'"
  using restD(3) [of q q'] by (auto simp: DeadlineTick_def fun_eq_iff)

definition wheel_shape :: "TimerQueue \<Rightarrow> bool" where
  "wheel_shape q \<longleftrightarrow> length (wheel q) = 4 \<and> (\<forall>l<4. length (wheel q ! l) = 10)"

lemma wheel_shape_upd [simp]:
  "wheel_shape (upd_slot i f q) = wheel_shape q"
  "wheel_shape q \<Longrightarrow> wheel_shape (upd_bucket l b g q)"
proof -
  show "wheel_shape (upd_slot i f q) = wheel_shape q"
    by (simp add: wheel_shape_def upd_slot_def)
  assume "wheel_shape q"
  then show "wheel_shape (upd_bucket l b g q)"
    by (cases "l < 4") (auto simp: wheel_shape_def upd_bucket_def nth_list_update list_update_beyond)
qed

lemma bucket_at_upd:
  "bucket_at (upd_slot i f q) l b = bucket_at q l b"
  "wheel_shape q \<Longrightarrow> l < 4 \<Longrightarrow> b < 10 \<Longrightarrow> l' < 4 \<Longrightarrow> b' < 10 \<Longrightarrow>
   bucket_at (upd_bucket l b g q) l' b' =
     (if l' = l \<and> b' = b then g (bucket_at q l b) else bucket_at q l' b')"
  by (auto simp: wheel_shape_def bucket_at_def upd_slot_def upd_bucket_def nth_list_update)

section \<open>The wheel as lists\<close>

definition nxt :: "TimerQueue \<Rightarrow> nat \<Rightarrow> nat" where
  "nxt q i = wheel_next (slots q ! i)"

definition prv :: "TimerQueue \<Rightarrow> nat \<Rightarrow> nat" where
  "prv q i = wheel_prev (slots q ! i)"

type_synonym wheel_lists = "nat \<Rightarrow> nat \<Rightarrow> nat list"

definition upd2 :: "wheel_lists \<Rightarrow> nat \<Rightarrow> nat \<Rightarrow> nat list \<Rightarrow> wheel_lists" where
  "upd2 L l b xs = (\<lambda>l' b'. if l' = l \<and> b' = b then xs else L l' b')"

lemma upd2_apply [simp]: "upd2 L l b xs l' b' = (if l' = l \<and> b' = b then xs else L l' b')"
  by (simp add: upd2_def)

definition bucket_rep :: "TimerQueue \<Rightarrow> nat \<Rightarrow> nat \<Rightarrow> nat list \<Rightarrow> bool" where
  "bucket_rep q l b xs \<longleftrightarrow>
     chain (nxt q) (prv q) (head (bucket_at q l b)) kInvalidSlot xs (tail (bucket_at q l b)) kInvalidSlot
     \<and> distinct xs"

definition wheel_rep :: "TimerQueue \<Rightarrow> wheel_lists \<Rightarrow> bool" where
  "wheel_rep q L \<longleftrightarrow> wheel_shape q \<and> length (slots q) < kInvalidSlot
     \<and> (\<forall>l<4. \<forall>b<10. bucket_rep q l b (L l b))
     \<and> (\<forall>l<4. \<forall>b<10. \<forall>s. s \<in> set (L l b) \<longleftrightarrow>
           s < length (slots q) \<and> wheel_level (slots q ! s) = l \<and> bucket_index (slots q ! s) = b)
     \<and> (\<forall>s<length (slots q). wheel_level (slots q ! s) \<noteq> kInvalidWheelLevel \<longrightarrow>
           wheel_level (slots q ! s) < 4 \<and> bucket_index (slots q ! s) < 10)"

lemma wheel_repD:
  assumes "wheel_rep q L"
  shows "wheel_shape q" "length (slots q) < kInvalidSlot"
    "l < 4 \<Longrightarrow> b < 10 \<Longrightarrow> bucket_rep q l b (L l b)"
    "l < 4 \<Longrightarrow> b < 10 \<Longrightarrow> s \<in> set (L l b) \<longleftrightarrow>
       s < length (slots q) \<and> wheel_level (slots q ! s) = l \<and> bucket_index (slots q ! s) = b"
    "s < length (slots q) \<Longrightarrow> wheel_level (slots q ! s) \<noteq> kInvalidWheelLevel \<Longrightarrow>
       wheel_level (slots q ! s) < 4 \<and> bucket_index (slots q ! s) < 10"
  using assms by (auto simp: wheel_rep_def)

lemma bucket_head:
  assumes "wheel_rep q L" "l < 4" "b < 10"
  shows "head (bucket_at q l b) = (if L l b = [] then kInvalidSlot else hd (L l b))"
  using wheel_repD(3) [OF assms] by (auto simp: bucket_rep_def dest: chain_head)

lemma bucket_tail:
  assumes "wheel_rep q L" "l < 4" "b < 10"
  shows "tail (bucket_at q l b) = (if L l b = [] then kInvalidSlot else last (L l b))"
  using wheel_repD(3) [OF assms] by (auto simp: bucket_rep_def dest: chain_tail)

lemma bucket_member_valid:
  assumes "wheel_rep q L" "l < 4" "b < 10" "s \<in> set (L l b)"
  shows "s < length (slots q)" "s \<noteq> kInvalidSlot" "wheel_level (slots q ! s) = l" "bucket_index (slots q ! s) = b"
  using wheel_repD(2,4) [OF assms(1)] assms(2-) by auto

lemma bucket_next:
  assumes "wheel_rep q L" "l < 4" "b < 10" "L l b = xs @ s # ys"
  shows "wheel_next (slots q ! s) = (if ys = [] then kInvalidSlot else hd ys)"
    and "wheel_prev (slots q ! s) = (if xs = [] then kInvalidSlot else last xs)"
proof -
  have "chain (nxt q) (prv q) (head (bucket_at q l b)) kInvalidSlot (xs @ s # ys)
      (tail (bucket_at q l b)) kInvalidSlot"
    using wheel_repD(3) [OF assms(1-3)] assms(4) by (simp add: bucket_rep_def)
  then obtain k where k: "chain (nxt q) (prv q) (head (bucket_at q l b)) kInvalidSlot xs k s"
    and s: "prv q s = k" "chain (nxt q) (prv q) (nxt q s) s ys (tail (bucket_at q l b)) kInvalidSlot"
    by (auto simp: chain_append)
  from chain_head [OF s(2)] show "wheel_next (slots q ! s) = (if ys = [] then kInvalidSlot else hd ys)"
    by (simp add: nxt_def)
  from chain_tail [OF k] s(1) show "wheel_prev (slots q ! s) = (if xs = [] then kInvalidSlot else last xs)"
    by (simp add: prv_def)
qed

text \<open>Two buckets share no slot.\<close>

lemma bucket_disjoint:
  assumes "wheel_rep q L" "l < 4" "b < 10" "l' < 4" "b' < 10" "s \<in> set (L l b)" "s \<in> set (L l' b')"
  shows "l' = l \<and> b' = b"
  using assms wheel_repD(4) [OF assms(1)] by metis

text \<open>Only links and positions of slots matter to \<^const>\<open>wheel_rep\<close>.\<close>

lemma wheel_rep_cong:
  assumes "wheel_rep q L" "wheel q' = wheel q" "length (slots q') = length (slots q)"
    and "\<And>i. i < length (slots q) \<Longrightarrow> wheel_prev (slots q' ! i) = wheel_prev (slots q ! i)
      \<and> wheel_next (slots q' ! i) = wheel_next (slots q ! i)
      \<and> wheel_level (slots q' ! i) = wheel_level (slots q ! i)
      \<and> bucket_index (slots q' ! i) = bucket_index (slots q ! i)"
  shows "wheel_rep q' L"
proof -
  have "bucket_rep q' l b (L l b)" if "l < 4" "b < 10" for l b
  proof -
    have "chain (nxt q') (prv q') h p (L l b) t n = chain (nxt q) (prv q) h p (L l b) t n" for h p t n
      using bucket_member_valid [OF assms(1) that] assms(4)
      by (intro chain_cong) (auto simp: nxt_def prv_def)
    then show ?thesis
      using wheel_repD(3) [OF assms(1) that] assms(2) by (simp add: bucket_rep_def bucket_at_def)
  qed
  then show ?thesis
    using assms wheel_repD [OF assms(1)] by (simp add: wheel_rep_def wheel_shape_def) metis
qed

section \<open>Linking appends\<close>

lemma Link_rest [simp]: "rest (LinkTimerSlot s l b q) = rest q"
  "length (slots (LinkTimerSlot s l b q)) = length (slots q)"
  by (simp_all add: LinkTimerSlot_def Let_def)

lemma Link_slots:
  assumes "i < length (slots q)" "tail (bucket_at q l b) \<noteq> s" "tail (bucket_at q l b) = kInvalidSlot \<or> tail (bucket_at q l b) < length (slots q)"
  shows "slots (LinkTimerSlot s l b q) ! i =
    (if i = s then (slots q ! s)\<lparr>wheel_level := l, bucket_index := b,
         wheel_prev := tail (bucket_at q l b), wheel_next := kInvalidSlot\<rparr>
     else if i = tail (bucket_at q l b) \<and> tail (bucket_at q l b) \<noteq> kInvalidSlot
          then (slots q ! i)\<lparr>wheel_next := s\<rparr>
     else slots q ! i)"
  using assms by (auto simp: LinkTimerSlot_def Let_def slots_upd_slot bucket_at_upd)

lemma Link_bucket:
  assumes "wheel_shape q" "l < 4" "b < 10" "l' < 4" "b' < 10"
  shows "bucket_at (LinkTimerSlot s l b q) l' b' =
    (if l' = l \<and> b' = b
     then \<lparr>head = (if tail (bucket_at q l b) = kInvalidSlot then s else head (bucket_at q l b)), tail = s\<rparr>
     else bucket_at q l' b')"
  using assms by (simp add: LinkTimerSlot_def Let_def bucket_at_upd)

lemma Link_shape: "wheel_shape q \<Longrightarrow> wheel_shape (LinkTimerSlot s l b q)"
  by (simp add: LinkTimerSlot_def Let_def)

lemma Link_vis:
  assumes "wheel_rep q L" "s < length (slots q)" "wheel_level (slots q ! s) = kInvalidWheelLevel"
    "l < 4" "b < 10" "i < length (slots q)"
  shows "vis (slots (LinkTimerSlot s l b q) ! i) =
    (if i = s then vis ((slots q ! s)\<lparr>wheel_level := l, bucket_index := b\<rparr>) else vis (slots q ! i))"
proof -
  have "tail (bucket_at q l b) \<noteq> s"
    "tail (bucket_at q l b) = kInvalidSlot \<or> tail (bucket_at q l b) < length (slots q)"
    using bucket_tail [OF assms(1,4,5)] bucket_member_valid [OF assms(1,4,5), of "last (L l b)"]
      wheel_repD(2) [OF assms(1)] assms(2,3,4)
    by (auto split: if_splits simp: kInvalidWheelLevel_def)
  from Link_slots [OF assms(6) this] show ?thesis by (auto simp: vis_def)
qed

lemma Link_rep:
  assumes rep: "wheel_rep q L" and s: "s < length (slots q)" "wheel_level (slots q ! s) = kInvalidWheelLevel"
    and l: "l < 4" and b: "b < 10"
  shows "wheel_rep (LinkTimerSlot s l b q) (upd2 L l b (L l b @ [s]))"
proof -
  let ?q = "LinkTimerSlot s l b q" and ?t = "tail (bucket_at q l b)"
  have notin: "s \<notin> set (L l' b')" if "l' < 4" "b' < 10" for l' b'
    using wheel_repD(4) [OF rep that] s that by (auto simp: kInvalidWheelLevel_def)
  have tail: "?t = (if L l b = [] then kInvalidSlot else last (L l b))" by (rule bucket_tail [OF rep l b])
  have t_mem: "L l b \<noteq> [] \<Longrightarrow> ?t \<in> set (L l b)" using tail by simp
  have t_ne: "?t \<noteq> s" and t_ok: "?t = kInvalidSlot \<or> ?t < length (slots q)"
    using tail t_mem notin [OF l b] bucket_member_valid [OF rep l b] wheel_repD(2) [OF rep] s(1)
    by (auto split: if_splits)
  note slot = Link_slots [OF _ t_ne t_ok]
  have here: "bucket_rep ?q l b (L l b @ [s])"
  proof (cases "L l b = []")
    case True
    with slot [OF s(1)] show ?thesis
      by (simp add: bucket_rep_def Link_bucket [OF wheel_repD(1) [OF rep] l b l b] tail nxt_def prv_def)
  next
    case False
    have t: "?t \<noteq> kInvalidSlot" "?t \<in> set (L l b)"
      using t_mem [OF False] bucket_member_valid [OF rep l b] by auto
    have "chain ((nxt q)(?t := s)) (prv q) (head (bucket_at q l b)) kInvalidSlot (L l b) ?t s"
      using wheel_repD(3) [OF rep l b] False by (intro chain_set_last) (auto simp: bucket_rep_def)
    moreover have "chain ((nxt q)(?t := s)) (prv q) (head (bucket_at q l b)) kInvalidSlot (L l b) ?t s =
        chain (nxt ?q) (prv ?q) (head (bucket_at q l b)) kInvalidSlot (L l b) ?t s"
      using bucket_member_valid [OF rep l b] slot notin [OF l b] t
      by (intro chain_cong) (auto simp: nxt_def prv_def)
    ultimately show ?thesis
      using t slot [OF s(1)] notin [OF l b] wheel_repD(3) [OF rep l b]
      by (auto simp: bucket_rep_def Link_bucket [OF wheel_repD(1) [OF rep] l b l b] chain_append nxt_def prv_def)
  qed
  have others: "bucket_rep ?q l' b' (L l' b')" if lb: "l' < 4" "b' < 10" and ne: "\<not> (l' = l \<and> b' = b)" for l' b'
  proof -
    have "x \<noteq> s \<and> (?t = kInvalidSlot \<or> x \<noteq> ?t) \<and> x < length (slots q)" if "x \<in> set (L l' b')" for x
      using that notin [OF lb] bucket_member_valid [OF rep lb that] bucket_disjoint [OF rep l b lb _ that]
        t_mem tail ne by (auto split: if_splits)
    then have "chain (nxt ?q) (prv ?q) h p (L l' b') t n = chain (nxt q) (prv q) h p (L l' b') t n" for h p t n
      using slot by (intro chain_cong) (auto simp: nxt_def prv_def)
    moreover have "bucket_at ?q l' b' = bucket_at q l' b'"
      using ne by (simp only: Link_bucket [OF wheel_repD(1) [OF rep] l b lb] if_False)
    ultimately show ?thesis
      using wheel_repD(3) [OF rep lb] by (simp add: bucket_rep_def)
  qed
  have pos: "wheel_level (slots ?q ! i) = (if i = s then l else wheel_level (slots q ! i))"
    "bucket_index (slots ?q ! i) = (if i = s then b else bucket_index (slots q ! i))"
    if "i < length (slots q)" for i
    using slot [OF that] by auto
  show ?thesis
    unfolding wheel_rep_def
  proof (intro conjI allI impI)
    fix l' b' i
    assume lb: "l' < (4 :: nat)" "b' < (10 :: nat)"
    show "(i \<in> set (upd2 L l b (L l b @ [s]) l' b')) =
      (i < length (slots ?q) \<and> wheel_level (slots ?q ! i) = l' \<and> bucket_index (slots ?q ! i) = b')"
      using wheel_repD(4) [OF rep lb, of i] s(1) notin [OF lb] pos [of i]
      by (cases "i = s"; cases "i < length (slots q)") auto
  next
    show "wheel_shape ?q" by (rule Link_shape [OF wheel_repD(1) [OF rep]])
    show "length (slots ?q) < kInvalidSlot" using wheel_repD(2) [OF rep] by simp
  next
    fix l' b'
    assume "l' < (4 :: nat)" "b' < (10 :: nat)"
    then show "bucket_rep ?q l' b' (upd2 L l b (L l b @ [s]) l' b')"
      using here others by (cases "l' = l \<and> b' = b") simp_all
  next
    fix i
    assume i: "i < length (slots ?q)" "wheel_level (slots ?q ! i) \<noteq> kInvalidWheelLevel"
    then have "i < length (slots q)" by simp
    with i pos [of i] l b wheel_repD(5) [OF rep, of i]
    show "wheel_level (slots ?q ! i) < 4" "bucket_index (slots ?q ! i) < 10"
      by (cases "i = s"; simp)+
  qed
qed

section \<open>Unlinking removes\<close>

lemma Unlink_rest [simp]: "rest (UnlinkTimerSlot s q) = rest q"
  "length (slots (UnlinkTimerSlot s q)) = length (slots q)"
  by (simp_all add: UnlinkTimerSlot_def Let_def)

lemma Unlink_shape: "wheel_shape q \<Longrightarrow> wheel_shape (UnlinkTimerSlot s q)"
  by (simp add: UnlinkTimerSlot_def Let_def)

lemma Unlink_slots:
  assumes "i < length (slots q)" "p = wheel_prev (slots q ! s)" "n = wheel_next (slots q ! s)"
    and "p \<noteq> s" "n \<noteq> s"
  shows "slots (UnlinkTimerSlot s q) ! i =
    (if i = s then (slots q ! s)\<lparr>wheel_prev := kInvalidSlot, wheel_next := kInvalidSlot,
         wheel_level := kInvalidWheelLevel, bucket_index := kInvalidBucket\<rparr>
     else (slots q ! i)\<lparr>wheel_next := (if i = p \<and> p \<noteq> kInvalidSlot then n else wheel_next (slots q ! i)),
         wheel_prev := (if i = n \<and> n \<noteq> kInvalidSlot then p else wheel_prev (slots q ! i))\<rparr>)"
  using assms by (auto simp: UnlinkTimerSlot_def Let_def slots_upd_slot)

lemma Unlink_bucket:
  assumes "wheel_shape q" "wheel_level (slots q ! s) = l" "bucket_index (slots q ! s) = b"
    "l < 4" "b < 10" "l' < 4" "b' < 10"
  shows "bucket_at (UnlinkTimerSlot s q) l' b' =
    (if l' = l \<and> b' = b
     then \<lparr>head = (if wheel_prev (slots q ! s) = kInvalidSlot then wheel_next (slots q ! s)
                    else head (bucket_at q l b)),
           tail = (if wheel_next (slots q ! s) = kInvalidSlot then wheel_prev (slots q ! s)
                    else tail (bucket_at q l b))\<rparr>
     else bucket_at q l' b')"
  using assms by (auto simp: UnlinkTimerSlot_def Let_def bucket_at_upd)

text \<open>The neighbours of a linked slot.\<close>

lemma linked_neighbours:
  assumes rep: "wheel_rep q L" and l: "l < 4" and b: "b < 10" and xs: "L l b = xs @ s # ys"
  defines "p \<equiv> wheel_prev (slots q ! s)" and "n \<equiv> wheel_next (slots q ! s)"
  shows "p = (if xs = [] then kInvalidSlot else last xs)" "n = (if ys = [] then kInvalidSlot else hd ys)"
    "p \<noteq> s" "n \<noteq> s" "p = kInvalidSlot \<longleftrightarrow> xs = []" "n = kInvalidSlot \<longleftrightarrow> ys = []"
proof -
  have d: "distinct (xs @ s # ys)" using wheel_repD(3) [OF rep l b] xs by (simp add: bucket_rep_def)
  have valid: "x \<noteq> kInvalidSlot" if "x \<in> set (xs @ s # ys)" for x
    using bucket_member_valid(2) [OF rep l b] that xs by simp
  show p: "p = (if xs = [] then kInvalidSlot else last xs)" and n: "n = (if ys = [] then kInvalidSlot else hd ys)"
    using bucket_next [OF rep l b xs] by (simp_all add: p_def n_def)
  show "p \<noteq> s" using p d valid [of s] by auto
  show "n \<noteq> s" using n d valid [of s] by (cases ys) auto
  show "p = kInvalidSlot \<longleftrightarrow> xs = []" using p valid [of "last xs"] by auto
  show "n = kInvalidSlot \<longleftrightarrow> ys = []" using n valid [of "hd ys"] by (cases ys) auto
qed

lemma Unlink_vis:
  assumes "wheel_rep q L" "l < 4" "b < 10" "s \<in> set (L l b)" "i < length (slots q)"
  shows "vis (slots (UnlinkTimerSlot s q) ! i) =
    (if i = s then vis ((slots q ! s)\<lparr>wheel_level := kInvalidWheelLevel, bucket_index := kInvalidBucket\<rparr>)
     else vis (slots q ! i))"
proof -
  from assms(4) obtain xs ys where "L l b = xs @ s # ys" by (auto dest: split_list)
  from linked_neighbours(3,4) [OF assms(1-3) this] Unlink_slots [OF assms(5) refl refl, of s]
  show ?thesis by (simp add: vis_def)
qed

lemma Unlink_rep_split:
  assumes rep: "wheel_rep q L" and l: "l < 4" and b: "b < 10" and xs: "L l b = xs @ s # ys"
  shows "wheel_rep (UnlinkTimerSlot s q) (upd2 L l b (xs @ ys))"
proof -
  let ?q = "UnlinkTimerSlot s q"
  define p n where "p = wheel_prev (slots q ! s)" and "n = wheel_next (slots q ! s)"
  note nb = linked_neighbours [OF rep l b xs, folded p_def n_def]
  have s: "s < length (slots q)" "wheel_level (slots q ! s) = l" "bucket_index (slots q ! s) = b"
    using bucket_member_valid [OF rep l b, of s] xs by auto
  have d: "distinct (xs @ s # ys)" using wheel_repD(3) [OF rep l b] xs by (simp add: bucket_rep_def)
  note slot = Unlink_slots [OF _ p_def n_def nb(3,4)]
  note bucket = Unlink_bucket [OF wheel_repD(1) [OF rep] s(2,3) l b, folded p_def n_def]
  have valid: "x < length (slots q)" "x \<noteq> kInvalidSlot" if "x \<in> set (xs @ s # ys)" for x
    using bucket_member_valid [OF rep l b] that xs by auto
  have apart: "n \<notin> set xs" "p \<notin> set ys"
  proof -
    have "n = kInvalidSlot \<or> n \<in> set ys" "p = kInvalidSlot \<or> p \<in> set xs"
      unfolding nb(1,2) by simp_all
    with d valid(2) [of n] valid(2) [of p] show "n \<notin> set xs" "p \<notin> set ys" by auto
  qed
  have c1: "chain (nxt q) (prv q) (head (bucket_at q l b)) kInvalidSlot xs p s"
    and c2: "chain (nxt q) (prv q) n s ys (tail (bucket_at q l b)) kInvalidSlot"
    using wheel_repD(3) [OF rep l b] xs by (auto simp: bucket_rep_def chain_append nxt_def prv_def p_def n_def)
  have left: "chain (nxt ?q) (prv ?q) (head (bucket_at ?q l b)) kInvalidSlot xs p n"
  proof (cases "xs = []")
    case True
    then show ?thesis using nb bucket [OF l b] by simp
  next
    case False
    have "chain ((nxt q)(p := n)) (prv q) (head (bucket_at q l b)) kInvalidSlot xs p n"
      using c1 d False by (intro chain_set_last) auto
    moreover have "chain ((nxt q)(p := n)) (prv q) (head (bucket_at q l b)) kInvalidSlot xs p n =
        chain (nxt ?q) (prv ?q) (head (bucket_at q l b)) kInvalidSlot xs p n"
      using valid slot d apart nb(5) False by (intro chain_cong) (auto simp: nxt_def prv_def)
    ultimately show ?thesis using nb(5) False bucket [OF l b] by simp
  qed
  have right: "chain (nxt ?q) (prv ?q) n p ys (tail (bucket_at ?q l b)) kInvalidSlot"
  proof (cases "ys = []")
    case True
    then show ?thesis using nb bucket [OF l b] by simp
  next
    case False
    have "chain (nxt q) ((prv q)(n := p)) n p ys (tail (bucket_at q l b)) kInvalidSlot"
      using c2 d False by (intro chain_set_first) auto
    moreover have "chain (nxt q) ((prv q)(n := p)) n p ys (tail (bucket_at q l b)) kInvalidSlot =
        chain (nxt ?q) (prv ?q) n p ys (tail (bucket_at q l b)) kInvalidSlot"
      using valid slot d apart nb(6) False by (intro chain_cong) (auto simp: nxt_def prv_def)
    ultimately show ?thesis using nb(6) False bucket [OF l b] by simp
  qed
  have here: "bucket_rep ?q l b (xs @ ys)"
    using left right d by (auto simp: bucket_rep_def chain_append)
  have others: "bucket_rep ?q l' b' (L l' b')" if lb: "l' < 4" "b' < 10" and ne: "\<not> (l' = l \<and> b' = b)" for l' b'
  proof -
    have "x \<notin> set (L l b) \<and> x < length (slots q)" if "x \<in> set (L l' b')" for x
      using that bucket_member_valid [OF rep lb that] bucket_disjoint [OF rep l b lb _ that] ne by auto
    moreover have "p = kInvalidSlot \<or> p \<in> set (L l b)" "n = kInvalidSlot \<or> n \<in> set (L l b)" "s \<in> set (L l b)"
      using nb(1,2) xs by auto
    ultimately have "chain (nxt ?q) (prv ?q) h p' (L l' b') t n' = chain (nxt q) (prv q) h p' (L l' b') t n'" for h p' t n'
      using slot by (intro chain_cong) (auto simp: nxt_def prv_def)
    then show ?thesis
      using wheel_repD(3) [OF rep lb] ne bucket [OF lb] by (auto simp: bucket_rep_def)
  qed
  have pos: "wheel_level (slots ?q ! i) = (if i = s then kInvalidWheelLevel else wheel_level (slots q ! i))"
    "bucket_index (slots ?q ! i) = (if i = s then kInvalidBucket else bucket_index (slots q ! i))"
    if "i < length (slots q)" for i
    using slot [OF that] by auto
  show ?thesis
    unfolding wheel_rep_def
  proof (intro conjI allI impI)
    fix l' b' i
    assume lb: "l' < (4 :: nat)" "b' < (10 :: nat)"
    have "i \<in> set (L l' b') \<longleftrightarrow>
       i < length (slots q) \<and> wheel_level (slots q ! i) = l' \<and> bucket_index (slots q ! i) = b'"
      by (rule wheel_repD(4) [OF rep lb])
    then show "(i \<in> set (upd2 L l b (xs @ ys) l' b')) =
      (i < length (slots ?q) \<and> wheel_level (slots ?q ! i) = l' \<and> bucket_index (slots ?q ! i) = b')"
      using xs d pos [of i] s lb
      by (cases "i = s"; cases "i < length (slots q)"; cases "l' = l \<and> b' = b")
        (auto simp: kInvalidWheelLevel_def)
  next
    show "wheel_shape ?q" by (rule Unlink_shape [OF wheel_repD(1) [OF rep]])
    show "length (slots ?q) < kInvalidSlot" using wheel_repD(2) [OF rep] by simp
  next
    fix l' b'
    assume "l' < (4 :: nat)" "b' < (10 :: nat)"
    then show "bucket_rep ?q l' b' (upd2 L l b (xs @ ys) l' b')"
      using here others by (cases "l' = l \<and> b' = b") simp_all
  next
    fix i
    assume i: "i < length (slots ?q)" "wheel_level (slots ?q ! i) \<noteq> kInvalidWheelLevel"
    then have "i < length (slots q)" by simp
    with i pos [of i] wheel_repD(5) [OF rep, of i]
    show "wheel_level (slots ?q ! i) < 4" "bucket_index (slots ?q ! i) < 10"
      by (cases "i = s"; simp)+
  qed
qed

end
