(* ===== verification/Timer_Wheel.thy ===== *)
theory Timer_Wheel
  imports Timer_Links "HOL-Library.Multiset"
begin

text \<open>
  The invariant of the timing wheel and what turning it does. \<open>tq_core\<close> says that buckets, free list,
  count and index of external identifiers agree with the slots; \<open>places pos\<close> says where a slot may be
  for its deadline. \<open>stable_pos c\<close> is the position between ticks when the last tick was \<open>c\<close>;
  \<open>mid_pos T k\<close> the one inside tick \<open>T\<close> when the levels above \<open>k\<close> have been cascaded, and
  \<open>exp_pos T\<close> the one while the timers of tick \<open>T\<close> are fired.
\<close>

section \<open>Positions\<close>

text \<open>Level 0: due within ten ticks, or overdue and put into the next bucket.\<close>

definition lo_ok :: "nat \<Rightarrow> nat \<Rightarrow> nat \<Rightarrow> bool" where
  "lo_ok c D b \<longleftrightarrow> (D \<le> c \<and> b = (c + 1) mod 10) \<or> (c < D \<and> D < c + 10 \<and> b = D mod 10)"

text \<open>Levels 1 to 3, with the rounds of level 3.\<close>

definition hi_ok :: "nat \<Rightarrow> nat \<Rightarrow> nat \<Rightarrow> nat \<Rightarrow> nat \<Rightarrow> bool" where
  "hi_ok c l D b r \<longleftrightarrow> b = (D div 10 ^ l) mod 10 \<and> c div 10 ^ l < D div 10 ^ l
     \<and> (l < 3 \<longrightarrow> D div 10 ^ l \<le> c div 10 ^ l + 10)
     \<and> (l = 3 \<longrightarrow> r = (D div 10 ^ l - c div 10 ^ l - 1) div 10)"

definition stable_pos :: "nat \<Rightarrow> nat \<Rightarrow> nat \<Rightarrow> nat \<Rightarrow> nat \<Rightarrow> bool" where
  "stable_pos c l D b r \<longleftrightarrow> (if l = 0 then lo_ok c D b else hi_ok c l D b r)"

definition mid_pos :: "nat \<Rightarrow> nat \<Rightarrow> nat \<Rightarrow> nat \<Rightarrow> nat \<Rightarrow> nat \<Rightarrow> bool" where
  "mid_pos T k l D b r \<longleftrightarrow>
     (if l = 0 then b = (if D \<le> T then T else D) mod 10 \<and> D < T + 10
      else if l \<le> k then hi_ok (T - 1) l D b r else hi_ok T l D b r)"

text \<open>While the bucket of tick \<open>T\<close> is expired: as after the tick, or still in that bucket.\<close>

definition exp_pos :: "nat \<Rightarrow> nat \<Rightarrow> nat \<Rightarrow> nat \<Rightarrow> nat \<Rightarrow> bool" where
  "exp_pos T l D b r \<longleftrightarrow> stable_pos T l D b r \<or> (l = 0 \<and> D \<le> T \<and> b = T mod 10)"

lemma mod10_near: "a \<le> b \<Longrightarrow> b < a + 10 \<Longrightarrow> b mod 10 = a mod 10 \<Longrightarrow> b = (a :: nat)"
proof -
  assume a: "a \<le> b" "b < a + 10" "b mod 10 = a mod 10"
  then have "10 dvd b - a" by (simp add: mod_eq_dvd_iff_nat)
  moreover have "b - a < 10" using a(2) by linarith
  ultimately have "\<not> 0 < b - a" using nat_dvd_not_less by blast
  with a(1) show "b = a" by simp
qed

lemma div_pred: "\<not> q dvd T \<Longrightarrow> (T - 1) div q = (T :: nat) div q"
proof -
  assume n: "\<not> q dvd T"
  then obtain t where "T = Suc t" by (cases T) auto
  with n show ?thesis by (auto simp: div_Suc dvd_eq_mod_eq_0)
qed

lemma div_pred_dvd: "q dvd T \<Longrightarrow> 0 < T \<Longrightarrow> 0 < (q :: nat) \<Longrightarrow> (T - 1) div q = T div q - 1 \<and> 0 < T div q"
proof -
  assume a: "q dvd T" "0 < T" "0 < q"
  then obtain t where "T = Suc t" by (cases T) auto
  with a show ?thesis by (auto simp: div_Suc dvd_eq_mod_eq_0)
qed

lemma stable_mid:
  assumes "stable_pos c l D b r" "l < 4"
  shows "mid_pos (c + 1) 3 l D b r"
proof (cases "l = 0 \<and> D \<noteq> c + 1")
  case True
  with assms show ?thesis by (auto simp: stable_pos_def mid_pos_def lo_ok_def)
next
  case False
  with assms show ?thesis by (auto simp: stable_pos_def mid_pos_def lo_ok_def)
qed

lemma mid_exp: "mid_pos T 0 l D b r \<Longrightarrow> exp_pos T l D b r"
  by (auto simp: exp_pos_def stable_pos_def mid_pos_def lo_ok_def split: if_splits)

lemma exp_stable: "exp_pos T l D b r \<Longrightarrow> \<not> (l = 0 \<and> b = T mod 10) \<Longrightarrow> stable_pos T l D b r"
  by (auto simp: exp_pos_def)

lemma stable_not_now: "stable_pos T 0 D b r \<Longrightarrow> b \<noteq> T mod 10"
proof
  assume a: "stable_pos T 0 D b r" "b = T mod 10"
  define E where "E = (if D \<le> T then T + 1 else D)"
  have "T \<le> E" "E < T + 10" "E mod 10 = T mod 10" "E \<noteq> T"
    using a by (auto simp: stable_pos_def lo_ok_def E_def)
  with mod10_near show False by blast
qed

text \<open>The bucket of the current tick holds the timers that are due, and no others.\<close>

lemma exp_due: "exp_pos T 0 D (T mod 10) r \<Longrightarrow> D \<le> T"
  using stable_not_now by (auto simp: exp_pos_def)

lemma mid_due_iff: "mid_pos T 0 l D b r \<Longrightarrow> l = 0 \<and> b = T mod 10 \<longleftrightarrow> D \<le> T"
proof -
  assume m: "mid_pos T 0 l D b r"
  show ?thesis
  proof (cases "l = 0")
    case True
    with m mod10_near [of T D] show ?thesis by (auto simp: mid_pos_def split: if_splits)
  next
    case False
    with m have "T div 10 ^ l < D div 10 ^ l" by (simp add: mid_pos_def hi_ok_def)
    with False show ?thesis by (meson div_le_mono not_le)
  qed
qed

lemma mid_not_due_level:
  assumes "\<not> 10 ^ Suc k dvd T"
  shows "mid_pos T (Suc k) l D b r = mid_pos T k l D b r"
proof (cases "l = Suc k")
  case True
  have "hi_ok (T - 1) l = hi_ok T l" unfolding hi_ok_def True div_pred [OF assms] by (rule refl)
  with True show ?thesis by (simp add: mid_pos_def)
qed (auto simp: mid_pos_def)

text \<open>What cascading level \<open>l\<close> at a tick that its quantum divides may rely on.\<close>

lemma hi_ok_before:
  assumes "10 ^ l dvd T" "0 < T"
  shows "hi_ok (T - 1) l D b r \<longleftrightarrow> b = (D div 10 ^ l) mod 10 \<and> T div 10 ^ l \<le> D div 10 ^ l
     \<and> (l < 3 \<longrightarrow> D div 10 ^ l < T div 10 ^ l + 10)
     \<and> (l = 3 \<longrightarrow> r = (D div 10 ^ l - T div 10 ^ l) div 10)"
proof -
  have "(T - 1) div 10 ^ l = T div 10 ^ l - 1" "0 < T div 10 ^ l"
    using div_pred_dvd [OF assms] by simp_all
  then show ?thesis unfolding hi_ok_def by auto
qed

lemma hi_other_bucket:
  assumes "hi_ok (T - 1) l D b r" "10 ^ l dvd T" "0 < T" "b \<noteq> (T div 10 ^ l) mod 10"
  shows "hi_ok T l D b r"
proof -
  define M N where "M = T div 10 ^ l" and "N = D div 10 ^ l"
  have h: "b = N mod 10" "M \<le> N" "l < 3 \<Longrightarrow> N < M + 10" "l = 3 \<Longrightarrow> r = (N - M) div 10" "N mod 10 \<noteq> M mod 10"
    using assms(1,4) unfolding hi_ok_before [OF assms(2,3)] M_def N_def by auto
  then have "M < N" by (cases "M = N") auto
  moreover have "\<not> 10 dvd N - M" using h(2,5) by (auto simp: mod_eq_dvd_iff_nat)
  then have "(N - M - 1) div 10 = (N - M) div 10" by (rule div_pred)
  ultimately show ?thesis
    unfolding hi_ok_def M_def [symmetric] N_def [symmetric] using h by auto
qed

lemma mid_other_bucket:
  assumes "mid_pos T l lv D b r" "10 ^ l dvd T" "0 < T" "1 \<le> l" "\<not> (lv = l \<and> b = (T div 10 ^ l) mod 10)"
  shows "mid_pos T (l - 1) lv D b r"
proof (cases "lv = l")
  case True
  moreover have "\<not> l \<le> l - 1" using assms(4) by linarith
  ultimately show ?thesis using assms hi_other_bucket [of T l D b r] by (simp add: mid_pos_def)
next
  case False
  then have "lv \<le> l \<longleftrightarrow> lv \<le> l - 1" using assms(4) by linarith
  with assms(1) show ?thesis unfolding mid_pos_def by presburger
qed

lemma hi_round:
  assumes "hi_ok (T - 1) 3 D b r" "10 ^ 3 dvd T" "0 < T" "b = (T div 10 ^ 3) mod 10" "0 < r"
  shows "hi_ok T 3 D b (r - 1)"
proof -
  define M N where "M = T div 10 ^ 3" and "N = D div 10 ^ 3"
  have h: "b = N mod 10" "M \<le> N" "r = (N - M) div 10" "N mod 10 = M mod 10"
    using assms(1,4) unfolding hi_ok_before [OF assms(2,3)] M_def N_def by auto
  have "10 dvd N - M" using h(2,4) by (simp add: mod_eq_dvd_iff_nat)
  moreover have "0 < N - M" using h(3) assms(5) by (auto intro: ccontr)
  ultimately have "(N - M - 1) div 10 = r - 1" using div_pred_dvd [of 10 "N - M"] h(3) by simp
  with \<open>0 < N - M\<close> h(1) show ?thesis
    unfolding hi_ok_def M_def [symmetric] N_def [symmetric] by auto
qed

lemma hi_now:
  assumes "hi_ok (T - 1) l D b r" "10 ^ l dvd T" "0 < T" "b = (T div 10 ^ l) mod 10" "l = 3 \<Longrightarrow> r = 0" "l \<le> 3"
  shows "T \<le> D" "D < T + 10 ^ l"
proof -
  define M N where "M = T div 10 ^ l" and "N = D div 10 ^ l"
  have h: "M \<le> N" "l < 3 \<Longrightarrow> N < M + 10" "l = 3 \<Longrightarrow> r = (N - M) div 10" "N mod 10 = M mod 10"
    using assms(1,4) unfolding hi_ok_before [OF assms(2,3)] M_def N_def by auto
  have "N < M + 10" using h(2,3) assms(5,6) by (cases "l = 3") auto
  with h(1,4) have "N = M" by (simp add: mod10_near)
  moreover have "T = M * 10 ^ l" using assms(2) by (simp add: M_def)
  moreover have "D = N * 10 ^ l + D mod 10 ^ l" unfolding N_def by (rule div_mult_mod_eq [symmetric])
  ultimately have "D = T + D mod 10 ^ l" by simp
  moreover have "D mod 10 ^ l < 10 ^ l" by simp
  ultimately show "T \<le> D" "D < T + 10 ^ l" by linarith+
qed

text \<open>Where \<open>PlaceTimerSlot\<close> puts a timer that is due after the current tick.\<close>

definition place_rounds :: "nat \<Rightarrow> nat \<Rightarrow> nat" where
  "place_rounds c E = (if wheel_level_for (E - c) = 3 then (E div 1000 - c div 1000 - 1) div 10 else 0)"

definition place_bucket :: "nat \<Rightarrow> nat \<Rightarrow> nat" where
  "place_bucket c E = (E div 10 ^ wheel_level_for (E - c)) mod 10"

lemma wheel_level_for_less: "wheel_level_for d < 4" "place_bucket c E < 10"
  by (simp_all add: wheel_level_for_def place_bucket_def)

lemma quantum [simp]: "l < 4 \<Longrightarrow> kWheelQuantumTicks ! l = 10 ^ l"
  by (auto simp: kWheelQuantumTicks_def less_Suc_eq numeral_eq_Suc)

lemma Place_eq:
  "PlaceTimerSlot s E q =
     LinkTimerSlot s (wheel_level_for (E - current_tick q)) (place_bucket (current_tick q) E)
       (upd_slot s (\<lambda>slot. slot\<lparr>wheel_rounds := place_rounds (current_tick q) E\<rparr>) q)"
proof -
  have "kWheelQuantumTicks ! wheel_level_for (E - current_tick q) = 10 ^ wheel_level_for (E - current_tick q)"
    by (simp add: wheel_level_for_less)
  then show ?thesis
    by (auto simp: PlaceTimerSlot_def Let_def place_bucket_def place_rounds_def kWheelSize_def)
qed

lemma wheel_level_for_bounds:
  assumes "wheel_level_for d = l" "l \<noteq> 0"
  shows "10 ^ l \<le> d" "l < 3 \<Longrightarrow> d < 10 ^ (l + 1)"
  using assms by (auto simp: wheel_level_for_def split: if_splits)

lemma place_hi:
  assumes "c < E" "wheel_level_for (E - c) = l" "l \<noteq> 0"
  shows "hi_ok c l E (place_bucket c E) (place_rounds c E)"
proof -
  note w = wheel_level_for_bounds [OF assms(2,3)]
  have "(c + 10 ^ l) div 10 ^ l \<le> E div 10 ^ l" using w(1) assms(1) by (intro div_le_mono) simp
  then have lower: "c div 10 ^ l < E div 10 ^ l" by (simp add: div_add_self2)
  have upper: "E div 10 ^ l \<le> c div 10 ^ l + 10" if "l < 3"
  proof -
    have "E div 10 ^ l \<le> (c + 10 * 10 ^ l) div 10 ^ l" using w(2) [OF that] by (intro div_le_mono) simp
    then show ?thesis by simp
  qed
  show ?thesis
    using lower upper assms(2) by (auto simp: hi_ok_def place_bucket_def place_rounds_def)
qed

lemma place_lo:
  assumes "c < E" "wheel_level_for (E - c) = 0"
  shows "lo_ok c E (place_bucket c E)"
  using assms by (auto simp: lo_ok_def place_bucket_def wheel_level_for_def split: if_splits)

text \<open>A timer taken out of level \<open>l\<close> by a cascade goes to a lower level.\<close>

lemma place_cascade:
  assumes "T < D" "D < T + 10 ^ l" "10 ^ l dvd T" "0 < T" "l \<le> 3"
  shows "mid_pos T (l - 1) (wheel_level_for (D - T)) D (place_bucket T D) (place_rounds T D)"
    and "wheel_level_for (D - T) < l"
proof -
  let ?k = "wheel_level_for (D - T)"
  have k: "?k < l"
  proof (rule ccontr)
    assume "\<not> ?k < l"
    moreover from assms(1,2) have "l \<noteq> 0" by (cases l) auto
    ultimately have "10 ^ l \<le> (10 :: nat) ^ ?k" "10 ^ ?k \<le> D - T"
      using wheel_level_for_bounds(1) [of "D - T" ?k] by (auto intro: power_increasing)
    with assms(1,2) show False by linarith
  qed
  show "wheel_level_for (D - T) < l" by (rule k)
  show "mid_pos T (l - 1) ?k D (place_bucket T D) (place_rounds T D)"
  proof (cases "?k = 0")
    case True
    with place_lo [OF assms(1)] assms(1) show ?thesis by (auto simp: mid_pos_def lo_ok_def)
  next
    case False
    have dv: "10 ^ ?k dvd T" using k assms(3) by (meson dvd_trans less_imp_le_nat le_imp_power_dvd)
    note p = place_hi [OF assms(1) refl False]
    have "D < T + 10 * 10 ^ ?k" using wheel_level_for_bounds(2) [OF refl False] k assms(5) by simp
    then have "D div 10 ^ ?k < T div 10 ^ ?k + 10"
      using dv by (auto elim!: dvdE simp: less_mult_imp_div_less algebra_simps)
    with p have "hi_ok (T - 1) ?k D (place_bucket T D) (place_rounds T D)"
      using k assms(5) unfolding hi_ok_before [OF dv assms(4)] by (auto simp: hi_ok_def)
    moreover have "?k \<le> l - 1" using k by simp
    ultimately show ?thesis using False unfolding mid_pos_def by simp
  qed
qed

section \<open>The invariant of the data structure\<close>

text \<open>What of a slot does not depend on where in the wheel it is.\<close>

definition payload :: "TimerSlot \<Rightarrow> TimerSlot" where
  "payload s = s\<lparr>wheel_rounds := 0, wheel_prev := 0, wheel_next := 0, wheel_level := 0, bucket_index := 0\<rparr>"

lemma payload_fields [simp]:
  "deadline (payload s) = deadline s" "action (payload s) = action s"
  "external_timer_id (payload s) = external_timer_id s" "next_free (payload s) = next_free s"
  "generation (payload s) = generation s" "active (payload s) = active s"
  by (simp_all add: payload_def)

lemma payload_upd [simp]: "payload (s\<lparr>wheel_level := l\<rparr>) = payload s" "payload (s\<lparr>bucket_index := b\<rparr>) = payload s"
  "payload (s\<lparr>wheel_rounds := r\<rparr>) = payload s"
  by (simp_all add: payload_def)

lemma payload_vis: "vis a = vis b \<Longrightarrow> payload a = payload b"
proof -
  assume "vis a = vis b"
  moreover have "payload (vis s) = payload s" for s by (simp add: payload_def vis_def)
  ultimately show ?thesis by metis
qed

definition same_timers :: "TimerQueue \<Rightarrow> TimerQueue \<Rightarrow> bool" where
  "same_timers q q' \<longleftrightarrow> rest q' = rest q \<and> map payload (slots q') = map payload (slots q)"

lemma same_timers_refl [simp]: "same_timers q q"
  by (simp add: same_timers_def)

lemma same_timers_trans [trans]: "same_timers q q' \<Longrightarrow> same_timers q' q'' \<Longrightarrow> same_timers q q''"
  by (simp add: same_timers_def)

lemma same_timersI:
  assumes "rest q' = rest q" "length (slots q') = length (slots q)"
    and "\<And>i. i < length (slots q) \<Longrightarrow> payload (slots q' ! i) = payload (slots q ! i)"
  shows "same_timers q q'"
  using assms by (auto simp: same_timers_def intro!: nth_equalityI)

lemma same_timersD:
  assumes "same_timers q q'"
  shows "rest q' = rest q" "length (slots q') = length (slots q)"
    and "i < length (slots q) \<Longrightarrow> payload (slots q' ! i) = payload (slots q ! i)"
proof -
  show "rest q' = rest q" using assms by (simp add: same_timers_def)
  show len: "length (slots q') = length (slots q)" using assms unfolding same_timers_def by (metis length_map)
  assume "i < length (slots q)"
  with assms len show "payload (slots q' ! i) = payload (slots q ! i)"
    unfolding same_timers_def by (metis nth_map)
qed

lemma same_timers_slot:
  assumes "same_timers q q'" "i < length (slots q)"
  shows "deadline (slots q' ! i) = deadline (slots q ! i)" "action (slots q' ! i) = action (slots q ! i)"
    "external_timer_id (slots q' ! i) = external_timer_id (slots q ! i)"
    "next_free (slots q' ! i) = next_free (slots q ! i)" "generation (slots q' ! i) = generation (slots q ! i)"
    "active (slots q' ! i) = active (slots q ! i)"
  using same_timersD(3) [OF assms] by (metis payload_fields)+

lemma same_timers_tick:
  assumes "same_timers q q'"
  shows "current_tick q' = current_tick q" "DeadlineTick q' = DeadlineTick q" "timer_fd_armed q' = timer_fd_armed q"
    "active_timer_count q' = active_timer_count q"
  using DeadlineTick_rest [OF same_timersD(1) [OF assms]] restD(2,4,5) [OF same_timersD(1) [OF assms]]
  by simp_all

primrec fchain :: "(nat \<Rightarrow> nat) \<Rightarrow> nat \<Rightarrow> nat list \<Rightarrow> bool" where
  "fchain nf h [] \<longleftrightarrow> h = kInvalidSlot"
| "fchain nf h (x # xs) \<longleftrightarrow> h = x \<and> fchain nf (nf x) xs"

lemma fchain_cong: "(\<And>x. x \<in> set xs \<Longrightarrow> nf x = nf' x) \<Longrightarrow> fchain nf h xs = fchain nf' h xs"
  by (induction xs arbitrary: h) auto

definition active_slots :: "TimerQueue \<Rightarrow> nat set" where
  "active_slots q = {i. i < length (slots q) \<and> active (slots q ! i)}"

lemma finite_active_slots [simp]: "finite (active_slots q)"
  by (simp add: active_slots_def)

definition free_ok :: "TimerQueue \<Rightarrow> nat list \<Rightarrow> bool" where
  "free_ok q fs \<longleftrightarrow> fchain (\<lambda>i. next_free (slots q ! i)) (free_slot_head q) fs \<and> distinct fs
     \<and> set fs = {i. i < length (slots q) \<and> \<not> active (slots q ! i)}"

definition ext_ok :: "TimerQueue \<Rightarrow> bool" where
  "ext_ok q \<longleftrightarrow> (\<forall>e i. external_timer_slots q e = Some i \<longrightarrow>
     e \<noteq> 0 \<and> i \<in> active_slots q \<and> external_timer_id (slots q ! i) = e)"

definition tq_core :: "TimerQueue \<Rightarrow> wheel_lists \<Rightarrow> nat list \<Rightarrow> bool" where
  "tq_core q L fs \<longleftrightarrow> wheel_rep q L
     \<and> (\<forall>i<length (slots q). active (slots q ! i) \<longleftrightarrow> wheel_level (slots q ! i) \<noteq> kInvalidWheelLevel)
     \<and> free_ok q fs \<and> active_timer_count q = card (active_slots q) \<and> ext_ok q"

lemma tq_coreD:
  assumes "tq_core q L fs"
  shows "wheel_rep q L" "free_ok q fs" "active_timer_count q = card (active_slots q)" "ext_ok q"
    "i < length (slots q) \<Longrightarrow> active (slots q ! i) \<longleftrightarrow> wheel_level (slots q ! i) \<noteq> kInvalidWheelLevel"
  using assms by (auto simp: tq_core_def)

lemma tq_core_member:
  assumes "tq_core q L fs" "l < 4" "b < 10" "s \<in> set (L l b)"
  shows "s < length (slots q)" "s \<noteq> kInvalidSlot" "active (slots q ! s)"
    "wheel_level (slots q ! s) = l" "bucket_index (slots q ! s) = b"
  using bucket_member_valid [OF tq_coreD(1) [OF assms(1)] assms(2-)] tq_coreD(5) [OF assms(1), of s] assms(2)
  by (auto simp: kInvalidWheelLevel_def)

lemma tq_core_linked:
  assumes "tq_core q L fs" "s < length (slots q)" "active (slots q ! s)"
  shows "wheel_level (slots q ! s) < 4" "bucket_index (slots q ! s) < 10"
    "s \<in> set (L (wheel_level (slots q ! s)) (bucket_index (slots q ! s)))"
  using wheel_repD(4,5) [OF tq_coreD(1) [OF assms(1)]] tq_coreD(5) [OF assms(1,2)] assms by auto

lemma active_slots_same: "same_timers q q' \<Longrightarrow> active_slots q' = active_slots q"
  using same_timersD(2) [of q q'] same_timers_slot(6) [of q q'] by (auto simp: active_slots_def)

lemma tq_core_same:
  assumes core: "tq_core q L fs" and same: "same_timers q q'" and rep: "wheel_rep q' L'"
    and lev: "\<And>i. i < length (slots q) \<Longrightarrow>
      wheel_level (slots q' ! i) = kInvalidWheelLevel \<longleftrightarrow> wheel_level (slots q ! i) = kInvalidWheelLevel"
  shows "tq_core q' L' fs"
proof -
  note sl = same_timers_slot [OF same] and len = same_timersD(2) [OF same]
    and rd = restD [OF same_timersD(1) [OF same]]
  have "fchain (\<lambda>i. next_free (slots q' ! i)) h fs = fchain (\<lambda>i. next_free (slots q ! i)) h fs" for h
    using tq_coreD(2) [OF core] sl(4) by (intro fchain_cong) (auto simp: free_ok_def)
  then have "free_ok q' fs"
    using tq_coreD(2) [OF core] rd(1) len sl(6) by (auto simp: free_ok_def)
  moreover have "ext_ok q'"
    using tq_coreD(4) [OF core] rd(8) active_slots_same [OF same] sl(3) by (auto simp: ext_ok_def active_slots_def)
  ultimately show ?thesis
    using rep tq_coreD(3,5) [OF core] rd(2) active_slots_same [OF same] len lev sl(6) by (auto simp: tq_core_def)
qed

definition places :: "(nat \<Rightarrow> nat \<Rightarrow> nat \<Rightarrow> nat \<Rightarrow> bool) \<Rightarrow> TimerQueue \<Rightarrow> bool" where
  "places pos q \<longleftrightarrow> (\<forall>i \<in> active_slots q.
     pos (wheel_level (slots q ! i)) (DeadlineTick q (deadline (slots q ! i)))
         (bucket_index (slots q ! i)) (wheel_rounds (slots q ! i)))"

section \<open>Moving a slot to another bucket\<close>

lemma vis_upd_cong:
  "vis a = vis b \<Longrightarrow> vis (a\<lparr>wheel_rounds := r\<rparr>) = vis (b\<lparr>wheel_rounds := r\<rparr>)"
  "vis a = vis b \<Longrightarrow> vis (a\<lparr>wheel_level := l, bucket_index := k\<rparr>) = vis (b\<lparr>wheel_level := l, bucket_index := k\<rparr>)"
  by (cases a; cases b; simp add: vis_def)+

lemma upd_rounds_rep:
  assumes "wheel_rep q L"
  shows "wheel_rep (upd_slot s (\<lambda>slot. slot\<lparr>wheel_rounds := r\<rparr>) q) L"
proof -
  have "wheel (upd_slot s (\<lambda>slot. slot\<lparr>wheel_rounds := r\<rparr>) q) = wheel q" by (simp add: upd_slot_def)
  with assms show ?thesis by (rule wheel_rep_cong) (auto simp: slots_upd_slot)
qed

lemma upd_rounds_same: "upd_slot s (\<lambda>slot. slot\<lparr>wheel_rounds := wheel_rounds (slots q ! s)\<rparr>) q = q"
  by (simp add: upd_slot_def)

lemma move_slot:
  fixes r :: nat
  assumes core: "tq_core q L fs" and l: "l < 4" "b < 10" "l' < 4" "b' < 10" and xs: "L l b = xs @ s # ys"
  defines "L1 \<equiv> upd2 L l b (xs @ ys)"
    and "q' \<equiv> LinkTimerSlot s l' b' (upd_slot s (\<lambda>slot. slot\<lparr>wheel_rounds := r\<rparr>) (UnlinkTimerSlot s q))"
  shows "tq_core q' (upd2 L1 l' b' (L1 l' b' @ [s])) fs" "same_timers q q'"
    and "i < length (slots q) \<Longrightarrow> wheel_level (slots q' ! i) = (if i = s then l' else wheel_level (slots q ! i))
      \<and> bucket_index (slots q' ! i) = (if i = s then b' else bucket_index (slots q ! i))
      \<and> wheel_rounds (slots q' ! i) = (if i = s then r else wheel_rounds (slots q ! i))"
proof -
  let ?q1 = "UnlinkTimerSlot s q"
  let ?q2 = "upd_slot s (\<lambda>slot. slot\<lparr>wheel_rounds := r\<rparr>) ?q1"
  have s: "s \<in> set (L l b)" "s < length (slots q)" "wheel_level (slots q ! s) = l"
    using xs tq_core_member [OF core l(1,2), of s] by auto
  note rep = tq_coreD(1) [OF core]
  have rep1: "wheel_rep ?q1 L1" unfolding L1_def by (rule Unlink_rep_split [OF rep l(1,2) xs])
  have rep2: "wheel_rep ?q2 L1" by (rule upd_rounds_rep [OF rep1])
  have vis1: "vis (slots ?q1 ! i) = (if i = s then vis ((slots q ! s)\<lparr>wheel_level := kInvalidWheelLevel,
      bucket_index := kInvalidBucket\<rparr>) else vis (slots q ! i))" if "i < length (slots q)" for i
    by (rule Unlink_vis [OF rep l(1,2) s(1) that])
  have v1: "vis (slots ?q1 ! s) = vis ((slots q ! s)\<lparr>wheel_level := kInvalidWheelLevel, bucket_index := kInvalidBucket\<rparr>)"
    using vis1 [OF s(2)] by simp
  have vis2: "vis (slots ?q2 ! i) = (if i = s then vis ((slots q ! s)\<lparr>wheel_level := kInvalidWheelLevel,
      bucket_index := kInvalidBucket, wheel_rounds := r\<rparr>) else vis (slots q ! i))" if "i < length (slots q)" for i
    using vis1 [OF that] vis_upd_cong(1) [OF v1, of r] that by (auto simp: slots_upd_slot)
  have v2: "vis (slots ?q2 ! s) = vis ((slots q ! s)\<lparr>wheel_level := kInvalidWheelLevel,
      bucket_index := kInvalidBucket, wheel_rounds := r\<rparr>)"
    using vis2 [OF s(2)] by simp
  have inv: "wheel_level (slots ?q2 ! s) = kInvalidWheelLevel"
    using visD(7) [OF v2] by simp
  have vis3: "vis (slots q' ! i) = (if i = s then vis ((slots q ! s)\<lparr>wheel_rounds := r, wheel_level := l',
      bucket_index := b'\<rparr>) else vis (slots q ! i))" if "i < length (slots q)" for i
    using Link_vis [OF rep2 _ inv l(3,4), of i] vis2 [OF that] vis_upd_cong(2) [OF v2, of b' l'] s(2) that
    by (auto simp: q'_def)
  have pos: "wheel_level (slots q' ! i) = (if i = s then l' else wheel_level (slots q ! i))
      \<and> bucket_index (slots q' ! i) = (if i = s then b' else bucket_index (slots q ! i))
      \<and> wheel_rounds (slots q' ! i) = (if i = s then r else wheel_rounds (slots q ! i))"
    if "i < length (slots q)" for i
  proof (cases "i = s")
    case True
    with vis3 [OF that] have "vis (slots q' ! i) = vis ((slots q ! s)\<lparr>wheel_rounds := r, wheel_level := l',
      bucket_index := b'\<rparr>)" by simp
    from visD(4,7,8) [OF this] True show ?thesis by simp
  next
    case False
    with vis3 [OF that] have "vis (slots q' ! i) = vis (slots q ! i)" by simp
    from visD(4,7,8) [OF this] False show ?thesis by simp
  qed
  then show "i < length (slots q) \<Longrightarrow> wheel_level (slots q' ! i) = (if i = s then l' else wheel_level (slots q ! i))
      \<and> bucket_index (slots q' ! i) = (if i = s then b' else bucket_index (slots q ! i))
      \<and> wheel_rounds (slots q' ! i) = (if i = s then r else wheel_rounds (slots q ! i))" .
  show same: "same_timers q q'"
  proof (rule same_timersI)
    fix i
    assume "i < length (slots q)"
    from vis3 [OF this] show "payload (slots q' ! i) = payload (slots q ! i)"
      by (cases "i = s") (auto dest!: payload_vis)
  qed (simp_all add: q'_def)
  have "wheel_rep q' (upd2 L1 l' b' (L1 l' b' @ [s]))"
    unfolding q'_def using s(2) by (intro Link_rep [OF rep2 _ inv l(3,4)]) simp
  with pos l(1,3) s(3) show "tq_core q' (upd2 L1 l' b' (L1 l' b' @ [s])) fs"
    by (intro tq_core_same [OF core same]) (auto simp: kInvalidWheelLevel_def)
qed

section \<open>Cascading\<close>

text \<open>
  While bucket \<open>B\<close> of level \<open>l\<close> is redistributed, its unprocessed slots \<open>ys\<close> are where the previous
  tick left them and every other slot is where a cascaded level wants it.
\<close>

definition cascading :: "nat \<Rightarrow> nat \<Rightarrow> nat list \<Rightarrow> TimerQueue \<Rightarrow> bool" where
  "cascading T l ys q \<longleftrightarrow> (\<forall>i \<in> active_slots q.
     let lv = wheel_level (slots q ! i); D = DeadlineTick q (deadline (slots q ! i));
         b = bucket_index (slots q ! i); r = wheel_rounds (slots q ! i)
     in if i \<in> set ys then hi_ok (T - 1) l D b r else mid_pos T (l - 1) lv D b r)"

lemma cascade_loop_nil [simp]: "cascade_loop l kInvalidSlot q = Some q"
  by (subst cascade_loop.simps) simp

lemma cascade_loop_step:
  "s \<noteq> kInvalidSlot \<Longrightarrow>
   cascade_loop l s q = cascade_loop l (wheel_next (slots q ! s)) (cascade_step l s q)"
  by (subst cascade_loop.simps) (simp add: Let_def)

text \<open>Settling slot \<open>s\<close> is enough when the slots other than \<open>s\<close> keep their positions.\<close>

lemma cascading_frame:
  assumes pos: "cascading T l (s # ys) q" and dist: "distinct (kept @ s # ys)" and same: "same_timers q q'"
    and others: "\<And>i. i < length (slots q) \<Longrightarrow> i \<noteq> s \<Longrightarrow> wheel_level (slots q' ! i) = wheel_level (slots q ! i)
       \<and> bucket_index (slots q' ! i) = bucket_index (slots q ! i) \<and> wheel_rounds (slots q' ! i) = wheel_rounds (slots q ! i)"
    and this_slot: "mid_pos T (l - 1) (wheel_level (slots q' ! s)) (DeadlineTick q (deadline (slots q ! s)))
       (bucket_index (slots q' ! s)) (wheel_rounds (slots q' ! s))"
  shows "cascading T l ys q'"
  unfolding cascading_def
proof (intro ballI)
  fix i
  assume "i \<in> active_slots q'"
  then have i: "i \<in> active_slots q" "i < length (slots q)"
    using active_slots_same [OF same] by (auto simp: active_slots_def)
  show "let lv = wheel_level (slots q' ! i); D = DeadlineTick q' (deadline (slots q' ! i));
       b = bucket_index (slots q' ! i); r = wheel_rounds (slots q' ! i)
     in if i \<in> set ys then hi_ok (T - 1) l D b r else mid_pos T (l - 1) lv D b r"
    using pos i others [OF i(2)] this_slot dist same_timers_slot(1) [OF same i(2)] same_timers_tick(2) [OF same]
    by (cases "i = s") (auto simp: cascading_def Let_def)
qed

text \<open>One iteration: the slot stays for another round, becomes due, or moves to a lower level.\<close>

lemma cascade_step_ok:
  assumes core: "tq_core q L fs" and l: "1 \<le> l" "l \<le> 3" and B: "B = (T div 10 ^ l) mod 10"
    and T: "current_tick q = T" "10 ^ l dvd T" "0 < T" and xs: "L l B = kept @ s # ys"
    and pos: "cascading T l (s # ys) q"
  shows "\<exists>L' kept'. tq_core (cascade_step l s q) L' fs \<and> L' l B = kept' @ ys
    \<and> cascading T l ys (cascade_step l s q) \<and> same_timers q (cascade_step l s q)"
proof -
  have lB: "l < 4" "B < 10" using l B by auto
  note s = tq_core_member [OF core lB, of s, unfolded xs, simplified]
  have dist: "distinct (kept @ s # ys)"
    using wheel_repD(3) [OF tq_coreD(1) [OF core] lB] xs by (simp add: bucket_rep_def)
  define D r where "D = DeadlineTick q (deadline (slots q ! s))" and "r = wheel_rounds (slots q ! s)"
  have act: "s \<in> active_slots q" using s by (simp add: active_slots_def)
  with pos s(5) have hi: "hi_ok (T - 1) l D B r"
    by (auto simp: cascading_def D_def r_def Let_def)
  note frame = cascading_frame [OF pos dist, folded D_def]
  show ?thesis
  proof (cases "l = 3 \<and> r > 0")
    case True
    define q' where "q' = upd_slot s (\<lambda>slot. slot\<lparr>wheel_rounds := wheel_rounds slot - 1\<rparr>) q"
    have step: "cascade_step l s q = q'" using True by (simp add: cascade_step_def q'_def r_def)
    have slot: "slots q' ! i = (if i = s then (slots q ! s)\<lparr>wheel_rounds := r - 1\<rparr> else slots q ! i)"
      if "i < length (slots q)" for i
      using that by (simp add: q'_def slots_upd_slot r_def)
    have same: "same_timers q q'"
      by (rule same_timersI) (use slot in \<open>auto simp: q'_def\<close>)
    have "wheel_rep q' L"
      by (rule wheel_rep_cong [OF tq_coreD(1) [OF core]]) (use slot in \<open>auto simp: q'_def upd_slot_def\<close>)
    then have "tq_core q' L fs" by (rule tq_core_same [OF core same]) (use slot in auto)
    moreover have "hi_ok T 3 D B (r - 1)" using hi_round [of T D B r] hi T B True by simp
    then have "cascading T l ys q'"
      using True s(1,4,5) by (intro frame [OF same]) (auto simp: slot mid_pos_def)
    ultimately show ?thesis using same xs step by auto
  next
    case False
    then have due: "T \<le> D" "D < T + 10 ^ l" using hi_now [OF hi T(2,3) B] l by auto
    define q1 where "q1 = UnlinkTimerSlot s q"
    have same1: "rest q1 = rest q" by (simp add: q1_def)
    have s1: "deadline (slots q1 ! s) = deadline (slots q ! s)" "wheel_rounds (slots q1 ! s) = r"
      using Unlink_vis [OF tq_coreD(1) [OF core] lB _ s(1), of s, unfolded xs] visD(1,4) [of "slots q1 ! s"]
      by (auto simp: q1_def r_def dest!: visD(1,4))
    have tick1: "current_tick q1 = T" "DeadlineTick q1 = DeadlineTick q"
      using restD(4) [OF same1] DeadlineTick_rest [OF same1] T(1) by auto
    define lv b r' where "lv = (if D \<le> T then 0 else wheel_level_for (D - T))"
      and "b = (if D \<le> T then T mod 10 else place_bucket T D)"
      and "r' = (if D \<le> T then r else place_rounds T D)"
    have lvb: "lv < 4" "b < 10" by (auto simp: lv_def b_def wheel_level_for_less)
    define q' where "q' = LinkTimerSlot s lv b (upd_slot s (\<lambda>slot. slot\<lparr>wheel_rounds := r'\<rparr>) q1)"
    have step: "cascade_step l s q = q'"
      using False by (auto simp: cascade_step_def Let_def q1_def [symmetric] tick1 s1(1) D_def [symmetric]
          r_def [symmetric] kWheelSize_def Place_eq q'_def lv_def b_def r'_def upd_rounds_same [of s q1, unfolded s1(2)])
    note mv = move_slot [OF core lB lvb xs, where r = r', folded q1_def, folded q'_def]
    have "lv < l \<and> mid_pos T (l - 1) lv D b r'"
    proof (cases "D \<le> T")
      case True
      with l show ?thesis by (simp add: mid_pos_def lv_def b_def)
    next
      case False
      with place_cascade [OF _ due(2) T(2,3) l(2)] show ?thesis by (simp add: lv_def b_def r'_def)
    qed
    then have lv: "lv \<noteq> l" and mp: "mid_pos T (l - 1) lv D b r'" by auto
    have "cascading T l ys q'" using mp mv(3) s(1) by (intro frame [OF mv(2)]) auto
    moreover have "upd2 (upd2 L l B (kept @ ys)) lv b (upd2 L l B (kept @ ys) lv b @ [s]) l B = kept @ ys"
      using lv by simp
    ultimately show ?thesis using mv(1,2) unfolding step by blast
  qed
qed

lemma cascade_loop_ok:
  assumes "tq_core q L fs" "1 \<le> l" "l \<le> 3" "B = (T div 10 ^ l) mod 10" "current_tick q = T" "10 ^ l dvd T" "0 < T"
    and "L l B = kept @ ys" "cascading T l ys q"
  shows "\<exists>q' L'. cascade_loop l (if ys = [] then kInvalidSlot else hd ys) q = Some q' \<and> tq_core q' L' fs
    \<and> places (mid_pos T (l - 1)) q' \<and> same_timers q q'"
  using assms
proof (induction ys arbitrary: q L kept)
  case Nil
  then show ?case by (auto simp: cascading_def places_def Let_def)
next
  case (Cons s ys)
  have lB: "l < 4" "B < 10" using Cons.prems by auto
  have s: "s \<noteq> kInvalidSlot" using tq_core_member(2) [OF Cons.prems(1) lB, of s] Cons.prems(8) by simp
  have nx: "wheel_next (slots q ! s) = (if ys = [] then kInvalidSlot else hd ys)"
    by (rule bucket_next(1) [OF tq_coreD(1) [OF Cons.prems(1)] lB Cons.prems(8)])
  obtain L' kept' where step: "tq_core (cascade_step l s q) L' fs" "L' l B = kept' @ ys"
      "cascading T l ys (cascade_step l s q)" "same_timers q (cascade_step l s q)"
    using cascade_step_ok [OF Cons.prems] by blast
  have "current_tick (cascade_step l s q) = T" using same_timers_tick(1) [OF step(4)] Cons.prems(5) by simp
  from Cons.IH [OF step(1) Cons.prems(2-4) this Cons.prems(6,7) step(2,3)]
  show ?case
    using s nx same_timers_trans [OF step(4)] by (auto simp: cascade_loop_step)
qed

lemma CascadeDue_ok:
  assumes core: "tq_core q L fs" and l: "1 \<le> l" "l \<le> 3" and T: "current_tick q = T" "0 < T"
    and pos: "places (mid_pos T l) q"
  shows "\<exists>q' L'. CascadeDue q l = Some q' \<and> tq_core q' L' fs \<and> places (mid_pos T (l - 1)) q' \<and> same_timers q q'"
proof (cases "10 ^ l dvd T")
  case True
  define B where "B = (T div 10 ^ l) mod 10"
  have lB: "l < 4" "B < 10" using l by (simp_all add: B_def)
  have "cascading T l (L l B) q"
    unfolding cascading_def
  proof (intro ballI)
    fix i
    assume i: "i \<in> active_slots q"
    let ?lv = "wheel_level (slots q ! i)" and ?D = "DeadlineTick q (deadline (slots q ! i))"
      and ?b = "bucket_index (slots q ! i)" and ?r = "wheel_rounds (slots q ! i)"
    have m: "mid_pos T l ?lv ?D ?b ?r" using pos i by (simp add: places_def)
    have mem: "i \<in> set (L l B) \<longleftrightarrow> ?lv = l \<and> ?b = B"
      using wheel_repD(4) [OF tq_coreD(1) [OF core] lB] i by (auto simp: active_slots_def)
    have "mid_pos T (l - 1) ?lv ?D ?b ?r" if "\<not> (?lv = l \<and> ?b = B)"
      by (rule mid_other_bucket [OF m True T(2) l(1) that [unfolded B_def]])
    moreover have "hi_ok (T - 1) l ?D ?b ?r" if "?lv = l" using m that l by (auto simp: mid_pos_def)
    ultimately show "let lv = ?lv; D = ?D; b = ?b; r = ?r
        in if i \<in> set (L l B) then hi_ok (T - 1) l D b r else mid_pos T (l - 1) lv D b r"
      using mem by (auto simp: Let_def)
  qed
  from cascade_loop_ok [OF core l B_def T(1) True T(2) _ this, of "[]"]
  show ?thesis
    using True T(1) bucket_head [OF tq_coreD(1) [OF core] lB] lB(1)
    by (simp add: CascadeDue_def CascadeLevel_def Let_def kWheelSize_def B_def dvd_eq_mod_eq_0 Nat.diff_cancel)
next
  case False
  obtain k where "l = Suc k" using l by (cases l) auto
  with False pos mid_not_due_level [of k T] have "places (mid_pos T (l - 1)) q" by (simp add: places_def)
  with False core T(1) l show ?thesis by (auto simp: CascadeDue_def dvd_eq_mod_eq_0)
qed

end
