(* ===== verification/Timer_Service.thy ===== *)
theory Timer_Service
  imports Timer_Wheel
begin

text \<open>
  Adding, cancelling and expiring timers keep the invariant \<open>tq_inv\<close> of the queue, and implement a
  multiset of pending \<open>(tick, action)\<close> pairs: adding inserts one pair, cancelling removes one, and
  turning the wheel by \<open>n\<close> ticks fires exactly the pairs that are due, in the order of their ticks.
\<close>

section \<open>Releasing a slot\<close>

lemma Release_fields [simp]:
  "current_tick (ReleaseSlot s q) = current_tick q" "wheel_epoch (ReleaseSlot s q) = wheel_epoch q"
  "timer_fd_armed (ReleaseSlot s q) = timer_fd_armed q" "active_timer_count (ReleaseSlot s q) = active_timer_count q"
  "external_timer_slots (ReleaseSlot s q) = external_timer_slots q" "free_slot_head (ReleaseSlot s q) = s"
  "wheel (ReleaseSlot s q) = wheel q" "length (slots (ReleaseSlot s q)) = length (slots q)"
  by (simp_all add: ReleaseSlot_def upd_slot_def)

lemma Release_slots:
  "i < length (slots q) \<Longrightarrow> slots (ReleaseSlot s q) ! i =
    (if i = s then (slots q ! s)\<lparr>action := Functor None, external_timer_id := 0, wheel_rounds := 0,
         wheel_prev := kInvalidSlot, wheel_next := kInvalidSlot, wheel_level := kInvalidWheelLevel,
         bucket_index := kInvalidBucket, active := False, next_free := free_slot_head q\<rparr>
     else slots q ! i)"
  by (simp add: ReleaseSlot_def slots_upd_slot)

lemma Release_rep:
  assumes rep: "wheel_rep q L" and s: "s < length (slots q)" "wheel_level (slots q ! s) = kInvalidWheelLevel"
    "bucket_index (slots q ! s) = kInvalidBucket" "wheel_prev (slots q ! s) = kInvalidSlot"
    "wheel_next (slots q ! s) = kInvalidSlot"
  shows "wheel_rep (ReleaseSlot s q) L"
  by (rule wheel_rep_cong [OF rep]) (use s in \<open>auto simp: Release_slots\<close>)

section \<open>Removing a timer\<close>

lemma Unlink_this:
  assumes "s < length (slots q)" "wheel_prev (slots q ! s) \<noteq> s" "wheel_next (slots q ! s) \<noteq> s"
  shows "slots (UnlinkTimerSlot s q) ! s = (slots q ! s)\<lparr>wheel_prev := kInvalidSlot, wheel_next := kInvalidSlot,
         wheel_level := kInvalidWheelLevel, bucket_index := kInvalidBucket\<rparr>"
  using Unlink_slots [OF assms(1) refl refl assms(2,3)] by simp

definition forget_external :: "nat \<Rightarrow> TimerQueue \<Rightarrow> TimerQueue" where
  "forget_external s q =
     (if external_timer_id (slots q ! s) \<noteq> 0
      then q\<lparr>external_timer_slots := (external_timer_slots q)(external_timer_id (slots q ! s) := None)\<rparr> else q)"

lemma forget_external_fields [simp]:
  "slots (forget_external s q) = slots q" "wheel (forget_external s q) = wheel q"
  "current_tick (forget_external s q) = current_tick q" "wheel_epoch (forget_external s q) = wheel_epoch q"
  "timer_fd_armed (forget_external s q) = timer_fd_armed q"
  "active_timer_count (forget_external s q) = active_timer_count q"
  "free_slot_head (forget_external s q) = free_slot_head q"
  by (simp_all add: forget_external_def)

lemma Remove_eq:
  assumes "active (slots q ! s)" "wheel_level (slots q ! s) \<noteq> kInvalidWheelLevel"
  shows "RemoveTimerSlot s q = ReleaseSlot s ((UnlinkTimerSlot s (forget_external s q))
     \<lparr>active_timer_count := active_timer_count q - 1\<rparr>)"
proof -
  have "active_timer_count (UnlinkTimerSlot s (forget_external s q)) = active_timer_count q"
    using restD(2) [OF Unlink_rest(1) [of s "forget_external s q"]] by simp
  with assms show ?thesis by (simp add: RemoveTimerSlot_def Let_def forget_external_def)
qed

text \<open>
  What removing an active timer does: its slot leaves its bucket and goes to the head of the free list;
  every other slot is untouched but for its links.
\<close>

lemma Remove_ok:
  assumes core: "tq_core q L fs" and s: "s \<in> active_slots q"
  defines "q' \<equiv> RemoveTimerSlot s q"
    and "l \<equiv> wheel_level (slots q ! s)" and "b \<equiv> bucket_index (slots q ! s)"
  shows "tq_core q' (upd2 L l b (remove1 s (L l b))) (s # fs)" "active_slots q' = active_slots q - {s}"
    and "\<And>i. i < length (slots q) \<Longrightarrow> i \<noteq> s \<Longrightarrow> vis (slots q' ! i) = vis (slots q ! i)"
    and "generation (slots q' ! s) = generation (slots q ! s)" "length (slots q') = length (slots q)"
    and "current_tick q' = current_tick q" "wheel_epoch q' = wheel_epoch q" "timer_fd_armed q' = timer_fd_armed q"
proof -
  have sl: "s < length (slots q)" "active (slots q ! s)" using s by (auto simp: active_slots_def)
  note lb = tq_core_linked [OF core sl, folded l_def b_def]
  define f where "f = forget_external s q"
  have repf: "wheel_rep f L"
    by (rule wheel_rep_cong [OF tq_coreD(1) [OF core]]) (simp_all add: f_def)
  obtain xs ys where xs: "L l b = xs @ s # ys" using lb(3) by (auto dest: split_list)
  have "distinct (L l b)" using wheel_repD(3) [OF repf lb(1,2)] by (simp add: bucket_rep_def)
  then have rem: "remove1 s (L l b) = xs @ ys" using xs by (simp add: remove1_append)
  define u where "u = (UnlinkTimerSlot s f)\<lparr>active_timer_count := active_timer_count q - 1\<rparr>"
  have q': "q' = ReleaseSlot s u"
    unfolding q'_def u_def f_def using sl tq_coreD(5) [OF core sl(1)] by (intro Remove_eq) auto
  have us: "slots u = slots (UnlinkTimerSlot s f)" "wheel u = wheel (UnlinkTimerSlot s f)" by (simp_all add: u_def)
  have ru: "current_tick u = current_tick q" "wheel_epoch u = wheel_epoch q" "timer_fd_armed u = timer_fd_armed q"
    "free_slot_head u = free_slot_head q" "external_timer_slots u = external_timer_slots f"
    using restD [OF Unlink_rest(1) [of s f]] by (simp_all add: u_def f_def)
  have len: "length (slots u) = length (slots q)" by (simp add: us f_def)
  have this_u: "slots u ! s = (slots q ! s)\<lparr>wheel_prev := kInvalidSlot, wheel_next := kInvalidSlot,
         wheel_level := kInvalidWheelLevel, bucket_index := kInvalidBucket\<rparr>"
    using Unlink_this [of s f] linked_neighbours(3,4) [OF repf lb(1,2) xs] sl(1) by (simp add: us f_def)
  have vis_u: "vis (slots u ! i) = vis (slots q ! i)" if "i < length (slots q)" "i \<noteq> s" for i
    using Unlink_vis [OF repf lb(1,2,3), of i] that by (simp add: us f_def)
  show vis: "vis (slots q' ! i) = vis (slots q ! i)" if "i < length (slots q)" "i \<noteq> s" for i
    using vis_u [OF that] that len by (simp add: q' Release_slots)
  have this_q: "slots q' ! s = (slots u ! s)\<lparr>action := Functor None, external_timer_id := 0, wheel_rounds := 0,
         wheel_prev := kInvalidSlot, wheel_next := kInvalidSlot, wheel_level := kInvalidWheelLevel,
         bucket_index := kInvalidBucket, active := False, next_free := free_slot_head q\<rparr>"
    using sl(1) len by (simp add: q' Release_slots ru)
  show "generation (slots q' ! s) = generation (slots q ! s)" by (simp add: this_q this_u)
  show len': "length (slots q') = length (slots q)" by (simp add: q' len)
  show "current_tick q' = current_tick q" "wheel_epoch q' = wheel_epoch q" "timer_fd_armed q' = timer_fd_armed q"
    by (simp_all add: q' ru)
  have act: "active (slots q' ! i) = (i \<noteq> s \<and> active (slots q ! i))" if "i < length (slots q)" for i
    using visD(9) [OF vis [OF that]] this_q by (cases "i = s") auto
  show aset: "active_slots q' = active_slots q - {s}" using act len' by (auto simp: active_slots_def)
  have "wheel_rep (UnlinkTimerSlot s f) (upd2 L l b (xs @ ys))" by (rule Unlink_rep_split [OF repf lb(1,2) xs])
  then have "wheel_rep u (upd2 L l b (xs @ ys))" by (rule wheel_rep_cong) (simp_all add: us)
  then have rep: "wheel_rep q' (upd2 L l b (remove1 s (L l b)))"
    unfolding q' rem by (rule Release_rep) (use sl(1) len in \<open>auto simp: this_u\<close>)
  have free: "free_ok q' (s # fs)"
  proof -
    have fs: "fchain (\<lambda>i. next_free (slots q ! i)) (free_slot_head q) fs" "distinct fs"
      "set fs = {i. i < length (slots q) \<and> \<not> active (slots q ! i)}"
      using tq_coreD(2) [OF core] by (auto simp: free_ok_def)
    have "fchain (\<lambda>i. next_free (slots q' ! i)) (free_slot_head q) fs =
        fchain (\<lambda>i. next_free (slots q ! i)) (free_slot_head q) fs"
      using fs(3) sl(2) visD(5) [OF vis] by (intro fchain_cong) auto
    moreover have "free_slot_head q' = s" by (simp add: q')
    ultimately show ?thesis
      using fs sl act len' this_q by (auto simp: free_ok_def)
  qed
  have ext: "ext_ok q'"
    unfolding ext_ok_def
  proof (intro allI impI)
    fix e i
    assume "external_timer_slots q' e = Some i"
    then have *: "external_timer_slots f e = Some i" by (simp add: q' ru)
    then have **: "external_timer_slots q e = Some i" by (auto simp: f_def forget_external_def split: if_splits)
    then have i: "e \<noteq> 0" "i \<in> active_slots q" "external_timer_id (slots q ! i) = e"
      using tq_coreD(4) [OF core] by (auto simp: ext_ok_def)
    have "i \<noteq> s" using * i(1,3) by (auto simp: f_def forget_external_def split: if_splits)
    with i visD(3) [OF vis, of i] aset show "e \<noteq> 0 \<and> i \<in> active_slots q' \<and> external_timer_id (slots q' ! i) = e"
      by (auto simp: active_slots_def)
  qed
  have lev: "active (slots q' ! i) \<longleftrightarrow> wheel_level (slots q' ! i) \<noteq> kInvalidWheelLevel"
    if "i < length (slots q')" for i
    using that act [of i] tq_coreD(5) [OF core, of i] visD(7) [OF vis, of i] this_q len' by (cases "i = s") auto
  have "active_timer_count q' = active_timer_count q - 1" by (simp add: q' u_def)
  then have "active_timer_count q' = card (active_slots q')"
    using tq_coreD(3) [OF core] s by (simp add: aset card_Diff_singleton)
  with rep lev free ext show "tq_core q' (upd2 L l b (remove1 s (L l b))) (s # fs)"
    by (simp add: tq_core_def)
qed

section \<open>Inserting a timer\<close>

definition next_generation :: "u32 \<Rightarrow> u32" where
  "next_generation g = (if g = - 1 then 1 else g + 1)"

lemma next_generation_nz: "next_generation g \<noteq> 0"
proof (cases "g = - 1")
  case False
  then have "g + 1 \<noteq> 0" by (metis add_eq_0_iff2 eq_neg_iff_add_eq_0)
  with False show ?thesis by (simp add: next_generation_def)
qed (simp add: next_generation_def)

definition fresh_slot :: "int \<Rightarrow> TimerAction \<Rightarrow> u64 \<Rightarrow> TimerSlot \<Rightarrow> TimerSlot" where
  "fresh_slot d act ext slot = slot\<lparr>generation := next_generation (generation slot),
     deadline := d, action := act, external_timer_id := ext, wheel_rounds := 0,
     wheel_prev := kInvalidSlot, wheel_next := kInvalidSlot, next_free := kInvalidSlot,
     wheel_level := kInvalidWheelLevel, bucket_index := kInvalidBucket, active := True\<rparr>"

lemma fresh_slot_eq: "fresh_slot d act e = (\<lambda>slot. slot\<lparr>
     generation := (if generation slot = - 1 then 1 else generation slot + 1),
     deadline := d, action := act, external_timer_id := e, wheel_rounds := 0,
     wheel_prev := kInvalidSlot, wheel_next := kInvalidSlot, next_free := kInvalidSlot,
     wheel_level := kInvalidWheelLevel, bucket_index := kInvalidBucket, active := True\<rparr>)"
  by (rule ext) (simp add: fresh_slot_def next_generation_def)

lemma fresh_slot_fields [simp]:
  "deadline (fresh_slot d act ext s) = d" "action (fresh_slot d act ext s) = act"
  "external_timer_id (fresh_slot d act ext s) = ext" "active (fresh_slot d act ext s)"
  "wheel_level (fresh_slot d act ext s) = kInvalidWheelLevel"
  "generation (fresh_slot d act ext s) = next_generation (generation s)"
  by (simp_all add: fresh_slot_def)

lemma wheel_rep_grow:
  assumes rep: "wheel_rep q L" and w: "wheel q' = wheel q"
    and len: "length (slots q) \<le> length (slots q')" "length (slots q') < kInvalidSlot"
    and linked: "\<And>i. i < length (slots q) \<Longrightarrow> wheel_level (slots q ! i) \<noteq> kInvalidWheelLevel \<Longrightarrow>
       slots q' ! i = slots q ! i"
    and unlinked: "\<And>i. i < length (slots q') \<Longrightarrow>
       \<not> (i < length (slots q) \<and> wheel_level (slots q ! i) \<noteq> kInvalidWheelLevel) \<Longrightarrow>
       wheel_level (slots q' ! i) = kInvalidWheelLevel"
  shows "wheel_rep q' L"
proof -
  have mem: "i \<in> set (L l b) \<longleftrightarrow> i < length (slots q') \<and> wheel_level (slots q' ! i) = l \<and> bucket_index (slots q' ! i) = b"
    if lb: "l < 4" "b < 10" for l b i
    using wheel_repD(4) [OF rep lb, of i] linked [of i] unlinked [of i] len lb
    by (cases "i < length (slots q) \<and> wheel_level (slots q ! i) \<noteq> kInvalidWheelLevel")
      (auto simp: kInvalidWheelLevel_def)
  have buckets: "bucket_rep q' l b (L l b)" if lb: "l < 4" "b < 10" for l b
  proof -
    have "chain (nxt q') (prv q') h p (L l b) t n = chain (nxt q) (prv q) h p (L l b) t n" for h p t n
    proof (rule chain_cong)
      fix x
      assume "x \<in> set (L l b)"
      from bucket_member_valid [OF rep lb this] lb linked [of x]
      show "nxt q' x = nxt q x \<and> prv q' x = prv q x" by (auto simp: nxt_def prv_def kInvalidWheelLevel_def)
    qed
    then show ?thesis
      using wheel_repD(3) [OF rep lb] w by (simp add: bucket_rep_def bucket_at_def)
  qed
  have range: "wheel_level (slots q' ! i) < 4 \<and> bucket_index (slots q' ! i) < 10"
    if "i < length (slots q')" "wheel_level (slots q' ! i) \<noteq> kInvalidWheelLevel" for i
    using that linked [of i] unlinked [of i] wheel_repD(5) [OF rep, of i] by metis
  show ?thesis
    using mem buckets range len(2) wheel_repD(1) [OF rep] w by (simp add: wheel_rep_def wheel_shape_def)
qed

text \<open>
  \<open>AllocateSlot\<close> takes the head of the free list, or a new slot at the end when there is none: the slot
  was not active, the others are untouched, and the rest of the free list is what remains free.
\<close>

lemma Allocate_ok:
  assumes core: "tq_core q L fs" and alloc: "AllocateSlot d act ext q = Inr (s, q2)"
    and len: "length (slots q) \<le> 2 ^ 31 - 1"
  shows "s < length (slots q2)" "length (slots q2) \<le> 2 ^ 31 - 1" "length (slots q) \<le> length (slots q2)"
    "s \<notin> active_slots q" "\<exists>old. slots q2 ! s = fresh_slot d act ext old"
    "\<And>i. i < length (slots q2) \<Longrightarrow> i \<noteq> s \<Longrightarrow> i < length (slots q) \<and> slots q2 ! i = slots q ! i"
    "rest q2 = rest (q\<lparr>free_slot_head := free_slot_head q2\<rparr>)" "wheel q2 = wheel q" "free_ok q2 (tl fs)"
proof -
  define q1 where "q1 = (if free_slot_head q \<noteq> kInvalidSlot
    then q\<lparr>free_slot_head := next_free (slots q ! free_slot_head q)\<rparr> else q\<lparr>slots := slots q @ [TimerSlot_new]\<rparr>)"
  have fs: "fchain (\<lambda>i. next_free (slots q ! i)) (free_slot_head q) fs" "distinct fs"
      "set fs = {i. i < length (slots q) \<and> \<not> active (slots q ! i)}"
    using tq_coreD(2) [OF core] by (auto simp: free_ok_def)
  have mask: "unat kSlotIndexMask = 2 ^ 31 - 1" by (simp add: kSlotIndexMask_def)
  have short: "x < length (slots q) \<Longrightarrow> x \<noteq> kInvalidSlot" for x
    using wheel_repD(2) [OF tq_coreD(1) [OF core]] by auto
  have q2: "q2 = upd_slot s (fresh_slot d act ext) q1"
    using alloc by (auto simp: AllocateSlot_def Let_def q1_def fresh_slot_eq split: if_splits)
  have head: "fs = [] \<longleftrightarrow> free_slot_head q = kInvalidSlot" "fs \<noteq> [] \<Longrightarrow> hd fs = free_slot_head q"
    using fs short by (cases fs; auto)+
  have s: "s = (if fs = [] then length (slots q) else hd fs)" "fs = [] \<Longrightarrow> length (slots q) < 2 ^ 31 - 1"
    using alloc mask head by (auto simp: AllocateSlot_def Let_def split: if_splits)
  have in_fs: "fs \<noteq> [] \<Longrightarrow> s < length (slots q) \<and> \<not> active (slots q ! s)"
    using s(1) fs(3) hd_in_set [of fs] by auto
  have len1: "length (slots q1) = (if fs = [] then Suc (length (slots q)) else length (slots q))"
    using head by (simp add: q1_def)
  show a: "s < length (slots q2)" "length (slots q2) \<le> 2 ^ 31 - 1" "length (slots q) \<le> length (slots q2)"
    using s in_fs len len1 by (auto simp: q2)
  show "s \<notin> active_slots q" using s in_fs by (auto simp: active_slots_def)
  show "\<exists>old. slots q2 ! s = fresh_slot d act ext old" using a(1) by (auto simp: q2 slots_upd_slot)
  show others: "i < length (slots q) \<and> slots q2 ! i = slots q ! i" if "i < length (slots q2)" "i \<noteq> s" for i
    using that s(1) len1 head by (auto simp: q2 slots_upd_slot q1_def nth_append split: if_splits)
  show "rest q2 = rest (q\<lparr>free_slot_head := free_slot_head q2\<rparr>)" "wheel q2 = wheel q"
    by (auto simp: q2 q1_def rest_def upd_slot_def)
  show "free_ok q2 (tl fs)"
  proof (cases fs)
    case Nil
    with fs head a s(1) others have "{i. i < length (slots q2) \<and> \<not> active (slots q2 ! i)} = {}"
      by (auto simp: q2 slots_upd_slot)
    with Nil head show ?thesis by (auto simp: free_ok_def q2 q1_def upd_slot_def)
  next
    case (Cons x xs)
    with s(1) have x: "x = s" by simp
    have keep: "x' < length (slots q) \<Longrightarrow> x' \<noteq> s \<Longrightarrow> slots q2 ! x' = slots q ! x'" for x'
      using others [of x'] a(3) by simp
    have rest_fs: "set xs = set fs - {s}" using fs(2) Cons x by auto
    have "fchain (\<lambda>i. next_free (slots q2 ! i)) h xs = fchain (\<lambda>i. next_free (slots q ! i)) h xs" for h
    proof (rule fchain_cong)
      fix y
      assume "y \<in> set xs"
      with rest_fs fs(3) keep [of y] show "next_free (slots q2 ! y) = next_free (slots q ! y)" by simp
    qed
    moreover have "free_slot_head q2 = next_free (slots q ! s)"
      using Cons head x fs(1) by (auto simp: q2 q1_def upd_slot_def)
    moreover have "set xs = {i. i < length (slots q2) \<and> \<not> active (slots q2 ! i)}"
    proof -
      have "active (slots q2 ! s)" using a(1) by (simp add: q2 slots_upd_slot)
      then have "i \<in> set xs \<longleftrightarrow> i < length (slots q2) \<and> \<not> active (slots q2 ! i)" for i
      proof (cases "i = s")
        case False
        then have "i \<in> set xs \<longleftrightarrow> i < length (slots q) \<and> \<not> active (slots q ! i)"
          unfolding rest_fs fs(3) by blast
        with others [of i] keep [of i] a(3) False show ?thesis by (metis less_le_trans)
      qed (use rest_fs in auto)
      then show ?thesis by blast
    qed
    ultimately show ?thesis using fs Cons x by (simp add: free_ok_def)
  qed
qed

text \<open>The part of \<open>AddTimerInLoop\<close> between allocating the slot and arming the timerfd.\<close>

definition enlist :: "nat \<Rightarrow> u64 \<Rightarrow> TimerQueue \<Rightarrow> TimerQueue" where
  "enlist s e q2 =
     (let q3 = (if e \<noteq> 0 \<and> external_timer_slots q2 e = None
                then q2\<lparr>external_timer_slots := (external_timer_slots q2)(e \<mapsto> s)\<rparr> else q2);
          q4 = ScheduleTimerSlot s q3
      in q4\<lparr>active_timer_count := active_timer_count q4 + 1\<rparr>)"

text \<open>Where \<open>ScheduleTimerSlot\<close> puts a timer with deadline tick \<open>D\<close>.\<close>

definition sched_tick :: "nat \<Rightarrow> nat \<Rightarrow> nat" where
  "sched_tick c D = (if D \<le> c then c + 1 else D)"

definition sched_pos :: "nat \<Rightarrow> nat \<Rightarrow> nat \<times> nat \<times> nat" where
  "sched_pos c D = (let E = sched_tick c D in (wheel_level_for (E - c), place_bucket c E, place_rounds c E))"

lemma Schedule_eq:
  "ScheduleTimerSlot s q = (case sched_pos (current_tick q) (DeadlineTick q (deadline (slots q ! s))) of (l, b, r) \<Rightarrow>
     LinkTimerSlot s l b (upd_slot s (\<lambda>slot. slot\<lparr>wheel_rounds := r\<rparr>) q))"
  by (simp add: ScheduleTimerSlot_def sched_pos_def sched_tick_def Let_def Place_eq)

lemma sched_pos_range: "sched_pos c D = (l, b, r) \<Longrightarrow> l < 4 \<and> b < 10"
  by (auto simp: sched_pos_def Let_def wheel_level_for_less)

lemma sched_pos_stable: "sched_pos c D = (l, b, r) \<Longrightarrow> stable_pos c l D b r"
proof -
  assume a: "sched_pos c D = (l, b, r)"
  show "stable_pos c l D b r"
  proof (cases "D \<le> c")
    case True
    with a show ?thesis
      by (auto simp: sched_pos_def sched_tick_def Let_def stable_pos_def lo_ok_def wheel_level_for_def place_bucket_def)
  next
    case False
    with a place_hi [of c D] place_lo [of c D] show ?thesis
      by (auto simp: sched_pos_def sched_tick_def Let_def stable_pos_def)
  qed
qed

text \<open>A scheduled timer is never put into the bucket of the current tick.\<close>

lemma sched_pos_not_now: "sched_pos c D = (0, b, r) \<Longrightarrow> b \<noteq> c mod 10"
proof
  assume a: "sched_pos c D = (0, b, r)" "b = c mod 10"
  then have E: "wheel_level_for (sched_tick c D - c) = 0" "sched_tick c D mod 10 = c mod 10"
    by (auto simp: sched_pos_def Let_def place_bucket_def)
  then have "c < sched_tick c D" "sched_tick c D < c + 10"
    by (auto simp: sched_tick_def wheel_level_for_def split: if_splits)
  with E(2) mod10_near [of c "sched_tick c D"] show False by simp
qed

lemma enlist_ok:
  assumes core: "tq_core q L fs" and alloc: "AllocateSlot d act e q = Inr (s, q2)"
    and len: "length (slots q) \<le> 2 ^ 31 - 1"
    and pos: "sched_pos (current_tick q) (DeadlineTick q d) = (l, b, r)"
  defines "q' \<equiv> enlist s e q2"
  shows "tq_core q' (upd2 L l b (L l b @ [s])) (tl fs)" "active_slots q' = insert s (active_slots q)"
    and "\<And>i. i \<in> active_slots q \<Longrightarrow> vis (slots q' ! i) = vis (slots q ! i)"
    and "deadline (slots q' ! s) = d" "action (slots q' ! s) = act" "external_timer_id (slots q' ! s) = e"
    and "wheel_level (slots q' ! s) = l" "bucket_index (slots q' ! s) = b" "wheel_rounds (slots q' ! s) = r"
    and "generation (slots q' ! s) \<noteq> 0" "length (slots q') \<le> 2 ^ 31 - 1"
    and "current_tick q' = current_tick q" "wheel_epoch q' = wheel_epoch q" "timer_fd_armed q' = timer_fd_armed q"
    and "external_timer_slots q' = (if e \<noteq> 0 \<and> external_timer_slots q e = None
       then (external_timer_slots q)(e \<mapsto> s) else external_timer_slots q)"
proof -
  note al = Allocate_ok [OF core alloc len]
  define q3 where "q3 = (if e \<noteq> 0 \<and> external_timer_slots q2 e = None
     then q2\<lparr>external_timer_slots := (external_timer_slots q2)(e \<mapsto> s)\<rparr> else q2)"
  define u where "u = upd_slot s (\<lambda>slot. slot\<lparr>wheel_rounds := r\<rparr>) q3"
  obtain old where old: "slots q2 ! s = fresh_slot d act e old" using al(5) by auto
  have r2: "current_tick q2 = current_tick q" "wheel_epoch q2 = wheel_epoch q" "timer_fd_armed q2 = timer_fd_armed q"
    "active_timer_count q2 = active_timer_count q" "external_timer_slots q2 = external_timer_slots q"
    using restD(2,3,4,5,8) [OF al(7)] by simp_all
  have s3: "slots q3 = slots q2" "wheel q3 = wheel q2" "current_tick q3 = current_tick q"
    "wheel_epoch q3 = wheel_epoch q" "timer_fd_armed q3 = timer_fd_armed q"
    "active_timer_count q3 = active_timer_count q" "free_slot_head q3 = free_slot_head q2"
    by (simp_all add: q3_def r2)
  have "DeadlineTick q3 d = DeadlineTick q d" by (simp add: DeadlineTick_def s3)
  then have sched: "ScheduleTimerSlot s q3 = LinkTimerSlot s l b u"
    using pos by (simp add: Schedule_eq s3 old u_def)
  have q': "q' = (LinkTimerSlot s l b u)\<lparr>active_timer_count := active_timer_count q + 1\<rparr>"
    using restD(2) [OF Link_rest(1) [of s l b u]]
    by (simp add: q'_def enlist_def Let_def q3_def [symmetric] sched u_def s3 restD(2) [OF rest_upd(1)])
  have lev: "i < length (slots q) \<Longrightarrow> i \<noteq> s \<Longrightarrow> slots q2 ! i = slots q ! i"
    "s < length (slots q) \<Longrightarrow> wheel_level (slots q ! s) = kInvalidWheelLevel" for i
    using al(3,4,6) tq_coreD(5) [OF core, of s] by (auto simp: active_slots_def)
  have "wheel_rep q2 L"
  proof (rule wheel_rep_grow [OF tq_coreD(1) [OF core] al(8,3)])
    show "length (slots q2) < kInvalidSlot" using al(2) by (simp add: kInvalidSlot_def)
    show "slots q2 ! i = slots q ! i" if "i < length (slots q)" "wheel_level (slots q ! i) \<noteq> kInvalidWheelLevel" for i
      using that lev by metis
    show "wheel_level (slots q2 ! i) = kInvalidWheelLevel" if "i < length (slots q2)"
      "\<not> (i < length (slots q) \<and> wheel_level (slots q ! i) \<noteq> kInvalidWheelLevel)" for i
      using that al(6) [of i] old by (cases "i = s") auto
  qed
  then have "wheel_rep q3 L" by (rule wheel_rep_cong) (simp_all add: s3)
  then have repu: "wheel_rep u L" unfolding u_def by (rule upd_rounds_rep)
  have lenu: "length (slots u) = length (slots q2)" by (simp add: u_def s3)
  have su: "slots u ! i = (if i = s then (fresh_slot d act e old)\<lparr>wheel_rounds := r\<rparr> else slots q2 ! i)"
    if "i < length (slots q2)" for i
    using that old by (simp add: u_def slots_upd_slot s3)
  have ps: "s < length (slots u)" "wheel_level (slots u ! s) = kInvalidWheelLevel"
    using al(1) su [of s] lenu by simp_all
  note lb = sched_pos_range [OF pos]
  have vis': "vis (slots q' ! i) = (if i = s then vis ((fresh_slot d act e old)\<lparr>wheel_rounds := r, wheel_level := l, bucket_index := b\<rparr>)
     else vis (slots q2 ! i))" if "i < length (slots q2)" for i
    using Link_vis [OF repu ps, of l b i] lb su [OF that] su [OF al(1)] that by (simp add: q' lenu)
  have vs: "vis (slots q' ! s) = vis ((fresh_slot d act e old)\<lparr>wheel_rounds := r, wheel_level := l, bucket_index := b\<rparr>)"
    using vis' [OF al(1)] by simp
  show fields: "deadline (slots q' ! s) = d" "action (slots q' ! s) = act" "external_timer_id (slots q' ! s) = e"
    "wheel_level (slots q' ! s) = l" "bucket_index (slots q' ! s) = b" "wheel_rounds (slots q' ! s) = r"
    "generation (slots q' ! s) \<noteq> 0"
    using visD [OF vs] by (simp_all add: next_generation_nz)
  have act_s: "active (slots q' ! s)" using visD(9) [OF vs] by simp
  have len': "length (slots q') = length (slots q2)" by (simp add: q' lenu)
  show "length (slots q') \<le> 2 ^ 31 - 1" using al(2) len' by simp
  show rq: "current_tick q' = current_tick q" "wheel_epoch q' = wheel_epoch q" "timer_fd_armed q' = timer_fd_armed q"
    using restD(3,4,5) [OF Link_rest(1) [of s l b u]] by (simp_all add: q' u_def restD(3,4,5) [OF rest_upd(1)] s3)
  have eq': "external_timer_slots q' = external_timer_slots q3" "free_slot_head q' = free_slot_head q2"
    using restD(1,8) [OF Link_rest(1) [of s l b u]] by (simp_all add: q' u_def restD(1,8) [OF rest_upd(1)] s3)
  then show eslots: "external_timer_slots q' = (if e \<noteq> 0 \<and> external_timer_slots q e = None
       then (external_timer_slots q)(e \<mapsto> s) else external_timer_slots q)"
    by (simp add: q3_def r2)
  show keep: "vis (slots q' ! i) = vis (slots q ! i)" if "i \<in> active_slots q" for i
    using that vis' [of i] lev(1) [of i] al(3,4) by (cases "i = s") (auto simp: active_slots_def)
  have vis_ne: "vis (slots q' ! i) = vis (slots q2 ! i)" if "i < length (slots q2)" "i \<noteq> s" for i
    using vis' [OF that(1)] that(2) by simp
  show aset: "active_slots q' = insert s (active_slots q)"
    using visD(9) [OF vis_ne] act_s al(1,3,6) len' by (auto simp: active_slots_def) (metis lev(1) less_le_trans)+
  have "wheel_rep (LinkTimerSlot s l b u) (upd2 L l b (L l b @ [s]))" using lb by (intro Link_rep [OF repu ps]) auto
  then have rep: "wheel_rep q' (upd2 L l b (L l b @ [s]))" by (rule wheel_rep_cong) (simp_all add: q')
  have free: "free_ok q' (tl fs)"
  proof -
    have nf: "next_free (slots q' ! i) = next_free (slots q2 ! i)" "active (slots q' ! i) = active (slots q2 ! i)"
      if "i < length (slots q2)" for i
      using visD(5,9) [OF vis_ne [OF that]] visD(5,9) [OF vs] old by (cases "i = s"; simp add: fresh_slot_def)+
    have "fchain (\<lambda>i. next_free (slots q' ! i)) h (tl fs) = fchain (\<lambda>i. next_free (slots q2 ! i)) h (tl fs)" for h
      using al(9) nf(1) by (intro fchain_cong) (auto simp: free_ok_def)
    with al(9) nf(2) len' eq'(2) show ?thesis by (auto simp: free_ok_def)
  qed
  have ext: "ext_ok q'"
    unfolding ext_ok_def
  proof (intro allI impI)
    fix e' i
    assume *: "external_timer_slots q' e' = Some i"
    show "e' \<noteq> 0 \<and> i \<in> active_slots q' \<and> external_timer_id (slots q' ! i) = e'"
    proof (cases "external_timer_slots q e' = Some i")
      case True
      then have i: "e' \<noteq> 0" "i \<in> active_slots q" "external_timer_id (slots q ! i) = e'"
        using tq_coreD(4) [OF core] by (auto simp: ext_ok_def)
      with visD(3) [OF keep [OF i(2)]] aset show ?thesis by simp
    next
      case False
      with * eslots have "e' = e" "i = s" "e \<noteq> 0" by (auto split: if_splits)
      with fields aset show ?thesis by simp
    qed
  qed
  have levels: "active (slots q' ! i) \<longleftrightarrow> wheel_level (slots q' ! i) \<noteq> kInvalidWheelLevel"
    if "i < length (slots q')" for i
  proof (cases "i = s")
    case True
    with act_s fields(4) lb show ?thesis by (simp add: kInvalidWheelLevel_def)
  next
    case False
    with that len' al(6) [of i] visD(7,9) [OF vis_ne [of i]] tq_coreD(5) [OF core, of i] show ?thesis by auto
  qed
  have "active_timer_count q' = card (active_slots q')"
    using tq_coreD(3) [OF core] al(4) by (simp add: aset) (simp add: q')
  with rep levels free ext show "tq_core q' (upd2 L l b (L l b @ [s])) (tl fs)" by (simp add: tq_core_def)
qed

section \<open>Pending timers\<close>

text \<open>The tick at which the timer in slot \<open>i\<close> is due, with its action; the pending timers as a multiset.\<close>

definition slot_tick :: "TimerQueue \<Rightarrow> nat \<Rightarrow> nat" where
  "slot_tick q i = DeadlineTick q (deadline (slots q ! i))"

definition timer_of :: "TimerQueue \<Rightarrow> nat \<Rightarrow> nat \<times> TimerAction" where
  "timer_of q i = (sched_tick (current_tick q) (slot_tick q i), action (slots q ! i))"

definition timers :: "TimerQueue \<Rightarrow> (nat \<times> TimerAction) multiset" where
  "timers q = image_mset (timer_of q) (mset_set (active_slots q))"

definition tq_ok :: "(nat \<Rightarrow> nat \<Rightarrow> nat \<Rightarrow> nat \<Rightarrow> bool) \<Rightarrow> TimerQueue \<Rightarrow> bool" where
  "tq_ok pos q \<longleftrightarrow> (\<exists>L fs. tq_core q L fs) \<and> places pos q \<and> length (slots q) \<le> 2 ^ 31 - 1
     \<and> (\<not> timer_fd_armed q \<longrightarrow> active_timer_count q = 0)"

definition tq_inv :: "TimerQueue \<Rightarrow> bool" where
  "tq_inv q \<longleftrightarrow> tq_ok (stable_pos (current_tick q)) q"

text \<open>The slots in the bucket that \<open>ExpireCurrentBucket\<close> empties.\<close>

definition due_slots :: "TimerQueue \<Rightarrow> nat set" where
  "due_slots q = {i \<in> active_slots q. wheel_level (slots q ! i) = 0 \<and> bucket_index (slots q ! i) = current_tick q mod 10}"

lemma placesD:
  "places pos q \<Longrightarrow> i \<in> active_slots q \<Longrightarrow>
   pos (wheel_level (slots q ! i)) (slot_tick q i) (bucket_index (slots q ! i)) (wheel_rounds (slots q ! i))"
  by (simp add: places_def slot_tick_def)

lemma tq_ok_mono:
  assumes "tq_ok pos q" "\<And>i. i \<in> active_slots q \<Longrightarrow>
    pos (wheel_level (slots q ! i)) (slot_tick q i) (bucket_index (slots q ! i)) (wheel_rounds (slots q ! i)) \<Longrightarrow>
    pos' (wheel_level (slots q ! i)) (slot_tick q i) (bucket_index (slots q ! i)) (wheel_rounds (slots q ! i))"
  shows "tq_ok pos' q"
  using assms by (auto simp: tq_ok_def places_def slot_tick_def)

lemma tq_ok_count: "tq_ok pos q \<Longrightarrow> active_timer_count q = 0 \<longleftrightarrow> active_slots q = {}"
  using tq_coreD(3) by (fastforce simp: tq_ok_def)

lemma tq_ok_armed: "tq_ok pos q \<Longrightarrow> active_slots q \<noteq> {} \<Longrightarrow> timer_fd_armed q"
  using tq_ok_count by (auto simp: tq_ok_def)

lemma timers_cong:
  assumes "active_slots q' = active_slots q" "current_tick q' = current_tick q" "wheel_epoch q' = wheel_epoch q"
    and "\<And>i. i \<in> active_slots q \<Longrightarrow> deadline (slots q' ! i) = deadline (slots q ! i) \<and> action (slots q' ! i) = action (slots q ! i)"
  shows "timers q' = timers q"
proof -
  have "timer_of q' i = timer_of q i" if "i \<in> active_slots q" for i
    using assms(4) [OF that] assms(2,3) by (simp add: timer_of_def slot_tick_def DeadlineTick_def)
  then show ?thesis unfolding timers_def assms(1) by (intro image_mset_cong) simp
qed

text \<open>What the timerfd was told, and the clock, do not matter to the slots.\<close>

definition fd_eq :: "TimerQueue \<Rightarrow> TimerQueue \<Rightarrow> bool" where
  "fd_eq q q' \<longleftrightarrow> slots q' = slots q \<and> wheel q' = wheel q \<and> free_slot_head q' = free_slot_head q
     \<and> active_timer_count q' = active_timer_count q \<and> wheel_epoch q' = wheel_epoch q
     \<and> external_timer_slots q' = external_timer_slots q"

lemma fd_eq_core: "fd_eq q q' \<Longrightarrow> tq_core q L fs \<Longrightarrow> tq_core q' L fs"
proof -
  assume eq: "fd_eq q q'" and core: "tq_core q L fs"
  have "wheel_rep q' L"
    by (rule wheel_rep_cong [OF tq_coreD(1) [OF core]]) (use eq in \<open>simp_all add: fd_eq_def\<close>)
  moreover have "active_slots q' = active_slots q" using eq by (simp add: fd_eq_def active_slots_def)
  ultimately show ?thesis
    using core eq unfolding tq_core_def free_ok_def ext_ok_def fd_eq_def by simp
qed

lemma fd_eq_ok:
  assumes "fd_eq q q'" "tq_ok pos q" "timer_fd_armed q' \<or> active_timer_count q' = 0"
  shows "tq_ok pos q'"
proof -
  have "active_slots q' = active_slots q" using assms(1) by (simp add: fd_eq_def active_slots_def)
  with assms fd_eq_core [OF assms(1)] show ?thesis
    by (auto simp: tq_ok_def places_def fd_eq_def DeadlineTick_def)
qed

lemma fd_eq_timers:
  "fd_eq q q' \<Longrightarrow> current_tick q' = current_tick q \<Longrightarrow> timers q' = timers q"
  by (rule timers_cong) (auto simp: fd_eq_def active_slots_def)

lemma fd_eq_due:
  "fd_eq q q' \<Longrightarrow> current_tick q' = current_tick q \<Longrightarrow> due_slots q' = due_slots q"
  by (auto simp: fd_eq_def active_slots_def due_slots_def)

subsection \<open>Removal\<close>

lemma Remove_tq:
  assumes ok: "tq_ok pos q" and s: "s \<in> active_slots q"
  shows "tq_ok pos (RemoveTimerSlot s q)" "timers (RemoveTimerSlot s q) = timers q - {#timer_of q s#}"
    "active_slots (RemoveTimerSlot s q) = active_slots q - {s}"
    "current_tick (RemoveTimerSlot s q) = current_tick q" "timer_fd_armed (RemoveTimerSlot s q) = timer_fd_armed q"
    "i \<in> active_slots q \<Longrightarrow> i \<noteq> s \<Longrightarrow> vis (slots (RemoveTimerSlot s q) ! i) = vis (slots q ! i)"
    "i \<in> active_slots q \<Longrightarrow> i \<noteq> s \<Longrightarrow> slot_tick (RemoveTimerSlot s q) i = slot_tick q i"
proof -
  from ok obtain L fs where core: "tq_core q L fs" by (auto simp: tq_ok_def)
  let ?q = "RemoveTimerSlot s q"
  note rm = Remove_ok [OF core s]
  show act: "active_slots ?q = active_slots q - {s}" "current_tick ?q = current_tick q" "timer_fd_armed ?q = timer_fd_armed q"
    by (rule rm)+
  have vis: "vis (slots ?q ! i) = vis (slots q ! i)" if "i \<in> active_slots q" "i \<noteq> s" for i
    using that by (intro rm(3)) (auto simp: active_slots_def)
  then show "i \<in> active_slots q \<Longrightarrow> i \<noteq> s \<Longrightarrow> vis (slots ?q ! i) = vis (slots q ! i)" .
  have tick: "slot_tick ?q i = slot_tick q i" if "i \<in> active_slots q - {s}" for i
    using visD(1) [OF vis, of i] that rm(7) by (auto simp: slot_tick_def DeadlineTick_def)
  then show "i \<in> active_slots q \<Longrightarrow> i \<noteq> s \<Longrightarrow> slot_tick ?q i = slot_tick q i" by simp
  have armed: "timer_fd_armed q" using tq_ok_armed [OF ok] s by auto
  have "places pos ?q"
    using ok tick visD(4,7,8) [OF vis] act(1)
    by (auto simp: tq_ok_def places_def slot_tick_def)
  with ok rm(1,5) armed act(3) show "tq_ok pos ?q" by (auto simp: tq_ok_def)
  have "timer_of ?q i = timer_of q i" if "i \<in> active_slots q - {s}" for i
    using tick [OF that] visD(2) [OF vis, of i] that act(2) by (simp add: timer_of_def)
  then have "timers ?q = image_mset (timer_of q) (mset_set (active_slots q - {s}))"
    unfolding timers_def act(1) by (intro image_mset_cong) simp
  also have "\<dots> = timers q - {#timer_of q s#}"
    using s by (simp add: timers_def mset_set.remove [OF finite_active_slots s])
  finally show "timers ?q = timers q - {#timer_of q s#}" .
qed

lemma timer_of_in: "s \<in> active_slots q \<Longrightarrow> timer_of q s \<in># timers q"
  by (simp add: timers_def)

subsection \<open>Insertion\<close>

definition accepts :: "(nat \<Rightarrow> nat \<Rightarrow> nat \<Rightarrow> nat \<Rightarrow> bool) \<Rightarrow> nat \<Rightarrow> bool" where
  "accepts pos c \<longleftrightarrow> (\<forall>D l b r. sched_pos c D = (l, b, r) \<longrightarrow> pos l D b r)"

lemma accepts_stable: "accepts (stable_pos c) c"
  using sched_pos_stable by (simp add: accepts_def)

lemma accepts_exp: "accepts (exp_pos c) c"
  using sched_pos_stable by (simp add: accepts_def exp_pos_def)

text \<open>
  An enlisted timer is pending at its deadline tick, or at the next tick if that has passed. The queue
  has to be armed for \<^const>\<open>tq_ok\<close>, which \<open>AddTimerInLoop\<close> sees to afterwards.
\<close>

lemma enlist_tq:
  assumes ok: "tq_ok pos q" and acc: "accepts pos (current_tick q)"
    and alloc: "AllocateSlot d act e q = Inr (s, q2)"
  defines "q' \<equiv> enlist s e q2"
  shows "fd_eq q' q'' \<Longrightarrow> timer_fd_armed q'' \<Longrightarrow> tq_ok pos q''" "timers q' = add_mset (sched_tick (current_tick q) (DeadlineTick q d), act) (timers q)"
    and "timer_fd_armed q' = timer_fd_armed q" "current_tick q' = current_tick q" "wheel_epoch q' = wheel_epoch q"
    and "s \<notin> active_slots q" "active_slots q' = insert s (active_slots q)"
    and "\<And>i. i \<in> active_slots q \<Longrightarrow> vis (slots q' ! i) = vis (slots q ! i)"
    and "generation (slots q' ! s) \<noteq> 0" "s < 2 ^ 31 - 1" "timer_of q' s = (sched_tick (current_tick q) (DeadlineTick q d), act)"
    and "e \<noteq> 0 \<Longrightarrow> external_timer_slots q e = None \<Longrightarrow> external_timer_slots q' e = Some s"
    and "wheel_level (slots q' ! s) = 0 \<Longrightarrow> bucket_index (slots q' ! s) \<noteq> current_tick q mod 10"
proof -
  from ok obtain L fs where core: "tq_core q L fs" and len: "length (slots q) \<le> 2 ^ 31 - 1" by (auto simp: tq_ok_def)
  obtain l b r where pos: "sched_pos (current_tick q) (DeadlineTick q d) = (l, b, r)" by (cases "sched_pos (current_tick q) (DeadlineTick q d)") auto
  note en = enlist_ok [OF core alloc len pos, folded q'_def]
  show fresh: "s \<notin> active_slots q" by (rule Allocate_ok(4) [OF core alloc len])
  show cur: "timer_fd_armed q' = timer_fd_armed q" "current_tick q' = current_tick q" "wheel_epoch q' = wheel_epoch q"
    and act: "active_slots q' = insert s (active_slots q)" and gen: "generation (slots q' ! s) \<noteq> 0"
    by (rule en)+
  show vis: "vis (slots q' ! i) = vis (slots q ! i)" if "i \<in> active_slots q" for i using that by (rule en)
  show "s < 2 ^ 31 - 1" using Allocate_ok(1,2) [OF core alloc len] by linarith
  show "e \<noteq> 0 \<Longrightarrow> external_timer_slots q e = None \<Longrightarrow> external_timer_slots q' e = Some s" by (simp add: en(15))
  show "wheel_level (slots q' ! s) = 0 \<Longrightarrow> bucket_index (slots q' ! s) \<noteq> current_tick q mod 10"
    using pos sched_pos_not_now by (simp add: en(7,8))
  have tick: "slot_tick q' i = (if i = s then DeadlineTick q d else slot_tick q i)" if "i \<in> active_slots q'" for i
    using that visD(1) [OF vis, of i] en(4) cur(3) act by (auto simp: slot_tick_def DeadlineTick_def)
  have "pos (wheel_level (slots q' ! i)) (slot_tick q' i) (bucket_index (slots q' ! i)) (wheel_rounds (slots q' ! i))"
    if "i \<in> active_slots q'" for i
  proof (cases "i = s")
    case True
    with acc pos tick [OF that] show ?thesis by (simp add: True en(7-9) accepts_def)
  next
    case False
    with that act have i: "i \<in> active_slots q" by simp
    with visD(4,7,8) [OF vis [OF i]] placesD [of pos q, OF _ i] ok tick [OF that] False show ?thesis
      by (simp add: tq_ok_def)
  qed
  then have "places pos q'" by (simp add: places_def slot_tick_def)
  with fd_eq_core [OF _ en(1)] en(11) show "fd_eq q' q'' \<Longrightarrow> timer_fd_armed q'' \<Longrightarrow> tq_ok pos q''"
    unfolding tq_ok_def by (auto simp: fd_eq_def places_def active_slots_def DeadlineTick_def)
  have each: "timer_of q' i = (if i = s then (sched_tick (current_tick q) (DeadlineTick q d), act) else timer_of q i)"
    if "i \<in> active_slots q'" for i
    using tick [OF that] that act visD(2) [OF vis, of i] en(5) cur(2) by (auto simp: timer_of_def)
  then show "timer_of q' s = (sched_tick (current_tick q) (DeadlineTick q d), act)" using act by simp
  have "image_mset (timer_of q') (mset_set (active_slots q)) = timers q"
    unfolding timers_def using each act fresh by (intro image_mset_cong) auto
  then show "timers q' = add_mset (sched_tick (current_tick q) (DeadlineTick q d), act) (timers q)"
    using fresh each act by (simp add: timers_def)
qed

lemma AddTimerInLoop_eq:
  "AddTimerInLoop os d act e q0 =
     (let q = (if \<not> timer_fd_armed q0 then SyncCurrentTick os q0 else q0) in
      case AllocateSlot d act e q of
        Inl err \<Rightarrow> (Inl err, q)
      | Inr (s, q2) \<Rightarrow>
          let q5 = enlist s e q2
          in case (if \<not> timer_fd_armed q5 then ArmTimerFd os q5 else Inr q5) of
               Inl err \<Rightarrow> (Inl err, RemoveTimerSlot s q5)
             | Inr q6 \<Rightarrow> (Inr (if e \<noteq> 0 then e else MakeSlotTimerId s (generation (slots q6 ! s))), q6))"
  unfolding AddTimerInLoop_def enlist_def Let_def
  by (intro arg_cong2 [where f = case_sum] refl ext sum.case_cong) (auto split: sum.splits)

text \<open>
  Adding while the timerfd is armed, which is the only case in which other timers are pending: the
  timer is pending, or the call fails and nothing has changed. The identifier is the external one, or
  names the slot with its generation.
\<close>

lemma Add_armed:
  assumes ok: "tq_ok pos q" and acc: "accepts pos (current_tick q)" and armed: "timer_fd_armed q"
    and add: "AddTimerInLoop os d act e q = (res, q')"
  shows "tq_ok pos q'" "current_tick q' = current_tick q" "timer_fd_armed q'"
    and "case res of Inl err \<Rightarrow> q' = q
       | Inr tid \<Rightarrow> timers q' = add_mset (sched_tick (current_tick q) (DeadlineTick q d), act) (timers q)"
    and "due_slots q' \<subseteq> due_slots q"
proof -
  have "tq_ok pos q' \<and> current_tick q' = current_tick q \<and> timer_fd_armed q'
    \<and> (case res of Inl err \<Rightarrow> q' = q
       | Inr tid \<Rightarrow> timers q' = add_mset (sched_tick (current_tick q) (DeadlineTick q d), act) (timers q))
    \<and> due_slots q' \<subseteq> due_slots q"
  proof (cases "AllocateSlot d act e q")
    case (Inl err)
    with add armed ok show ?thesis by (auto simp: AddTimerInLoop_eq)
  next
    case (Inr p)
    obtain s q2 where p: "p = (s, q2)" by (cases p)
    note en = enlist_tq [OF ok acc Inr [unfolded p]]
    have q': "q' = enlist s e q2" "res = Inr (if e \<noteq> 0 then e else MakeSlotTimerId s (generation (slots q' ! s)))"
      using add armed Inr p en(3) by (auto simp: AddTimerInLoop_eq Let_def)
    have "tq_ok pos q'" using en(1) [of q'] en(3) armed by (simp add: q' fd_eq_def)
    moreover have "wheel_level (slots q' ! i) = wheel_level (slots q ! i) \<and> bucket_index (slots q' ! i) = bucket_index (slots q ! i)"
      if "i \<in> active_slots q" for i using visD(7,8) [OF en(8) [OF that]] by (simp add: q')
    ultimately show ?thesis using en(2-4,7,13) armed q' by (auto simp: due_slots_def)
  qed
  then show "tq_ok pos q'" "current_tick q' = current_tick q" "timer_fd_armed q'"
    and "case res of Inl err \<Rightarrow> q' = q
       | Inr tid \<Rightarrow> timers q' = add_mset (sched_tick (current_tick q) (DeadlineTick q d), act) (timers q)"
    and "due_slots q' \<subseteq> due_slots q"
    by blast+
qed

lemma empty_core:
  assumes "tq_core q L fs" "active_slots q = {}" "length (slots q) \<le> 2 ^ 31 - 1"
  shows "tq_ok pos q" "timers q = {#}"
  using assms tq_coreD(3) [OF assms(1)] by (auto simp: tq_ok_def places_def timers_def)

lemma empty_ok:
  assumes "tq_ok pos q" "fd_eq q q'" "active_timer_count q = 0"
  shows "tq_ok pos' q'" "timers q' = {#}"
proof -
  obtain L fs where core: "tq_core q L fs" and "length (slots q) \<le> 2 ^ 31 - 1"
    using assms(1) by (auto simp: tq_ok_def)
  moreover have "active_slots q' = {}" "slots q' = slots q"
    using tq_ok_count [OF assms(1)] assms(2,3) by (auto simp: fd_eq_def active_slots_def)
  ultimately show "tq_ok pos' q'" "timers q' = {#}"
    using empty_core [OF fd_eq_core [OF assms(2) core]] by simp_all
qed

lemma Sync_fd_eq: "fd_eq q (SyncCurrentTick os q)" "timer_fd_armed (SyncCurrentTick os q) = timer_fd_armed q"
  by (simp_all add: SyncCurrentTick_def Let_def fd_eq_def)

lemma Arm_cases:
  "\<not> timer_fd_armed q \<Longrightarrow> ArmTimerFd os q = Inr q' \<Longrightarrow>
     fd_eq q q' \<and> timer_fd_armed q' \<and> current_tick q' = current_tick q"
  by (auto simp: ArmTimerFd_def Let_def fd_eq_def split: if_splits)

lemma Disarm_cases:
  "DisarmTimerFd os q = Inr q' \<Longrightarrow>
     fd_eq q q' \<and> \<not> timer_fd_armed q' \<and> current_tick q' = current_tick q"
  by (auto simp: DisarmTimerFd_def Let_def fd_eq_def split: if_splits)

text \<open>Adding to a queue between two ticks, armed or not.\<close>

lemma Add_inv:
  assumes inv: "tq_inv q" and add: "AddTimerInLoop os d act e q = (res, q')"
  shows "tq_inv q' \<and> (case res of Inl err \<Rightarrow> timers q' = timers q
      | Inr tid \<Rightarrow> timer_fd_armed q' \<and>
          timers q' = add_mset (sched_tick (current_tick q') (DeadlineTick q d), act) (timers q))"
proof (cases "timer_fd_armed q")
  case True
  from Add_armed [OF inv [unfolded tq_inv_def] accepts_stable True add] show ?thesis
    by (auto simp: tq_inv_def split: sum.splits)
next
  case False
  define q1 where "q1 = SyncCurrentTick os q"
  have un: "fd_eq q q1" "\<not> timer_fd_armed q1" using Sync_fd_eq False by (simp_all add: q1_def)
  have cnt: "active_timer_count q = 0" using inv False by (simp add: tq_inv_def tq_ok_def)
  note e1 = empty_ok [OF inv [unfolded tq_inv_def] un(1) cnt]
  have t0: "timers q = {#}" using empty_ok(2) [OF inv [unfolded tq_inv_def] _ cnt, of q] by (simp add: fd_eq_def)
  have dt: "DeadlineTick q1 = DeadlineTick q" using un(1) by (auto simp: fd_eq_def DeadlineTick_def fun_eq_iff)
  show ?thesis
  proof (cases "AllocateSlot d act e q1")
    case (Inl err)
    with add False e1 t0 show ?thesis by (auto simp: AddTimerInLoop_eq q1_def tq_inv_def)
  next
    case (Inr p)
    obtain s q2 where p: "p = (s, q2)" by (cases p)
    define q5 where "q5 = enlist s e q2"
    note en = enlist_tq [OF e1(1) accepts_stable Inr [unfolded p], folded q5_def]
    have arm: "\<not> timer_fd_armed q5" using en(3) un(2) by simp
    show ?thesis
    proof (cases "ArmTimerFd os q5")
      case (Inl err)
      have q': "q' = RemoveTimerSlot s q5" "res = Inl err"
        using add False Inr p Inl arm by (auto simp: AddTimerInLoop_eq Let_def q1_def q5_def)
      define qa where "qa = q5\<lparr>timer_fd_armed := True\<rparr>"
      have "tq_ok (stable_pos (current_tick q1)) qa" using en(1) [of qa] by (simp add: qa_def fd_eq_def)
      then obtain L fs where "tq_core qa L fs" and len: "length (slots qa) \<le> 2 ^ 31 - 1" by (auto simp: tq_ok_def)
      moreover have "fd_eq qa q5" by (simp add: qa_def fd_eq_def)
      ultimately have core: "tq_core q5 L fs" by (blast intro: fd_eq_core)
      have act: "s \<in> active_slots q5" "active_slots q5 = {s}"
        using en(7) e1(2) by (auto simp: timers_def mset_set_empty_iff)
      note rm = Remove_ok [OF core act(1), folded q'(1)]
      have "active_slots q' = {}" "length (slots q') \<le> 2 ^ 31 - 1" using rm(2,5) act len by (simp_all add: qa_def)
      from empty_core [OF rm(1) this] t0 q'(2) show ?thesis by (simp add: tq_inv_def)
    next
      case (Inr q6)
      have q': "q' = q6" "\<exists>tid. res = Inr tid"
        using add False \<open>AllocateSlot d act e q1 = _\<close> p Inr arm by (auto simp: AddTimerInLoop_eq Let_def q1_def q5_def)
      have f: "fd_eq q5 q6" "timer_fd_armed q6" "current_tick q6 = current_tick q5" using Arm_cases [OF arm Inr] by auto
      from en(1) [OF f(1,2)] fd_eq_timers [OF f(1,3)] en(2,4) f q' e1(2) t0 dt show ?thesis
        by (auto simp: tq_inv_def)
    qed
  qed
qed

subsection \<open>Cancellation\<close>

text \<open>The slot that an identifier names.\<close>

definition cancel_target :: "TimerQueue \<Rightarrow> TimerId \<Rightarrow> nat option" where
  "cancel_target q tid =
     (if IsExternalTimerId tid then external_timer_slots q tid
      else case DecodeSlotTimerId tid of
             None \<Rightarrow> None
           | Some (s, gen) \<Rightarrow>
               if s < length (slots q) \<and> active (slots q ! s) \<and> generation (slots q ! s) = gen then Some s else None)"

lemma Cancel_eq:
  "CancelInLoop os tid q =
     (case cancel_target q tid of
        None \<Rightarrow> (None, q)
      | Some s \<Rightarrow>
          let q1 = RemoveTimerSlot s q in
          if active_timer_count q1 = 0
          then (case DisarmTimerFd os q1 of Inl e \<Rightarrow> (Some e, q1) | Inr q2 \<Rightarrow> (None, q2))
          else (None, q1))"
  by (auto simp: CancelInLoop_def cancel_target_def Let_def split: option.splits)

lemma cancel_target_active:
  assumes "tq_ok pos q" "cancel_target q tid = Some s"
  shows "s \<in> active_slots q"
  using assms tq_coreD(4)
  by (fastforce simp: cancel_target_def tq_ok_def ext_ok_def active_slots_def split: if_splits option.splits)

lemma Cancel_ok:
  assumes ok: "tq_ok pos q" and cancel: "CancelInLoop os tid q = (res, q')"
  shows "tq_ok pos q'" "current_tick q' = current_tick q" "due_slots q' \<subseteq> due_slots q"
    and "timers q' = (case cancel_target q tid of None \<Rightarrow> timers q | Some s \<Rightarrow> timers q - {#timer_of q s#})"
    and "active_slots q' = active_slots q - set_option (cancel_target q tid)"
proof -
  have "tq_ok pos q' \<and> current_tick q' = current_tick q \<and> due_slots q' \<subseteq> due_slots q
    \<and> timers q' = (case cancel_target q tid of None \<Rightarrow> timers q | Some s \<Rightarrow> timers q - {#timer_of q s#})
    \<and> active_slots q' = active_slots q - set_option (cancel_target q tid)"
  proof (cases "cancel_target q tid")
    case None
    with ok cancel show ?thesis by (auto simp: Cancel_eq)
  next
    case (Some s)
    define q1 where "q1 = RemoveTimerSlot s q"
    note rm = Remove_tq [OF ok cancel_target_active [OF ok Some], folded q1_def]
    have due: "due_slots q1 \<subseteq> due_slots q"
      using rm(3,4) visD(7,8) [OF rm(6)] by (auto simp: due_slots_def)
    have "q' = q1 \<or> (\<exists>q2. DisarmTimerFd os q1 = Inr q2 \<and> q' = q2 \<and> active_timer_count q1 = 0)"
      using cancel Some by (auto simp: Cancel_eq Let_def q1_def split: if_splits sum.splits)
    then show ?thesis
    proof
      assume "q' = q1"
      with rm due Some show ?thesis by auto
    next
      assume "\<exists>q2. DisarmTimerFd os q1 = Inr q2 \<and> q' = q2 \<and> active_timer_count q1 = 0"
      then have f: "fd_eq q1 q'" "current_tick q' = current_tick q1" "active_timer_count q1 = 0"
        using Disarm_cases by auto
      then have "active_slots q' = active_slots q1" by (simp add: fd_eq_def active_slots_def)
      moreover have "tq_ok pos q'" by (rule fd_eq_ok [OF f(1) rm(1)]) (use f in \<open>simp add: fd_eq_def\<close>)
      ultimately show ?thesis
        using f rm fd_eq_timers [OF f(1,2)] fd_eq_due [OF f(1,2)] due Some by auto
    qed
  qed
  then show "tq_ok pos q'" "current_tick q' = current_tick q" "due_slots q' \<subseteq> due_slots q"
    and "timers q' = (case cancel_target q tid of None \<Rightarrow> timers q | Some s \<Rightarrow> timers q - {#timer_of q s#})"
    and "active_slots q' = active_slots q - set_option (cancel_target q tid)"
    by blast+
qed

end
