(* ===== verification/Timer_Expire.thy ===== *)
theory Timer_Expire
  imports Timer_Service
begin

text \<open>
  Turning the wheel: \<open>ExpireCurrentBucket\<close> fires the timers of the current tick and \<open>AdvanceWheel\<close> runs
  tick after tick. User callbacks may add and cancel timers while a bucket is being expired
  (\<open>loop_ops\<close>), as long as they do not add one after the timerfd was disarmed in the same batch; the last
  section shows what happens then.
\<close>

section \<open>The operations a callback may use\<close>

inductive loop_ops :: "TimerQueue \<Rightarrow> TimerQueue \<Rightarrow> bool" for q where
  idle: "loop_ops q q"
| add: "loop_ops q q1 \<Longrightarrow> timer_fd_armed q1 \<Longrightarrow> AddTimerInLoop os d act e q1 = (res, q2) \<Longrightarrow> loop_ops q q2"
| cancel: "loop_ops q q1 \<Longrightarrow> CancelInLoop os tid q1 = (err, q2) \<Longrightarrow> loop_ops q q2"
| reserve: "loop_ops q q1 \<Longrightarrow> MakeExternalTimerId q1 = (tid, q2) \<Longrightarrow> loop_ops q q2"

definition well_behaved :: "'w timer_env \<Rightarrow> bool" where
  "well_behaved env \<longleftrightarrow> (\<forall>act q w. loop_ops q (fst (InvokeAction env act (q, w))))"

text \<open>Callbacks that do not touch the queue, with their effect on the rest of the program.\<close>

definition quiet :: "'w timer_env \<Rightarrow> (TimerAction \<Rightarrow> 'w \<Rightarrow> 'w) \<Rightarrow> bool" where
  "quiet env eff \<longleftrightarrow> (\<forall>act q w. InvokeAction env act (q, w) = (q, eff act w))"

lemma quiet_well_behaved: "quiet env eff \<Longrightarrow> well_behaved env"
  by (simp add: quiet_def well_behaved_def loop_ops.idle)

lemma loop_ops_ok:
  assumes "loop_ops q q'" "tq_ok (exp_pos T) q" "current_tick q = T"
  shows "tq_ok (exp_pos T) q' \<and> current_tick q' = T \<and> due_slots q' \<subseteq> due_slots q"
  using assms(1)
proof induction
  case idle
  with assms show ?case by simp
next
  case (add q1 os d act e res q2)
  then have ok: "tq_ok (exp_pos T) q1" and cur: "current_tick q1 = T" and sub: "due_slots q1 \<subseteq> due_slots q" by auto
  have "accepts (exp_pos T) (current_tick q1)" unfolding cur by (rule accepts_exp)
  from Add_armed(1,2,5) [OF ok this add.hyps(2,3)] cur sub show ?case by auto
next
  case (cancel q1 os tid err q2)
  then have ok: "tq_ok (exp_pos T) q1" and "current_tick q1 = T" "due_slots q1 \<subseteq> due_slots q" by auto
  with Cancel_ok(1-3) [OF ok cancel.hyps(2)] show ?case by auto
next
  case (reserve q1 tid q2)
  then have ok: "tq_ok (exp_pos T) q1" and q1: "current_tick q1 = T" "due_slots q1 \<subseteq> due_slots q" by auto
  have f: "fd_eq q1 q2" "current_tick q2 = current_tick q1" "timer_fd_armed q2 = timer_fd_armed q1"
    using reserve.hyps(2) by (auto simp: MakeExternalTimerId_def Let_def fd_eq_def)
  have "tq_ok (exp_pos T) q2"
    by (rule fd_eq_ok [OF f(1) ok]) (use ok f in \<open>auto simp: tq_ok_def fd_eq_def\<close>)
  with f q1 fd_eq_due [OF f(1,2)] show ?case by simp
qed

section \<open>Expiring the bucket of the current tick\<close>

lemma expire_loop_done: "head (bucket_at q 0 b) = kInvalidSlot \<Longrightarrow> expire_loop env b (q, w) = Some (q, w)"
  by (subst expire_loop.simps) simp

lemma expire_loop_step:
  "head (bucket_at q 0 b) \<noteq> kInvalidSlot \<Longrightarrow> expire_loop env b (q, w) = expire_loop env b (expire_step env b (q, w))"
  by (subst expire_loop.simps) simp

lemma due_head:
  assumes "tq_ok pos q" "current_tick q = T"
  shows "if due_slots q = {} then head (bucket_at q 0 (T mod 10)) = kInvalidSlot
    else head (bucket_at q 0 (T mod 10)) \<noteq> kInvalidSlot \<and> head (bucket_at q 0 (T mod 10)) \<in> due_slots q"
proof -
  from assms obtain L fs where core: "tq_core q L fs" by (auto simp: tq_ok_def)
  have b: "T mod 10 < 10" "0 < (4 :: nat)" by simp_all
  have "i \<in> set (L 0 (T mod 10)) \<longleftrightarrow> i \<in> due_slots q" for i
    using wheel_repD(4) [OF tq_coreD(1) [OF core] b(2,1), of i] tq_core_member(3) [OF core b(2,1), of i] assms(2)
    by (auto simp: due_slots_def active_slots_def)
  then have set: "set (L 0 (T mod 10)) = due_slots q" by auto
  have hd: "head (bucket_at q 0 (T mod 10)) = (if L 0 (T mod 10) = [] then kInvalidSlot else hd (L 0 (T mod 10)))"
    by (rule bucket_head [OF tq_coreD(1) [OF core] b(2,1)])
  show ?thesis
  proof (cases "L 0 (T mod 10) = []")
    case True
    with set hd show ?thesis by simp
  next
    case False
    then have "hd (L 0 (T mod 10)) \<in> due_slots q" using hd_in_set [of "L 0 (T mod 10)"] set by simp
    moreover have "hd (L 0 (T mod 10)) \<noteq> kInvalidSlot"
      using tq_core_member(2) [OF core b(2,1)] False by simp
    moreover have "due_slots q \<noteq> {}" using set False by (metis set_empty)
    ultimately show ?thesis unfolding hd using False by simp
  qed
qed

text \<open>Every timer in the bucket is due, so it is removed and its action run.\<close>

lemma expire_step_due:
  fixes env :: "'w timer_env"
  assumes ok: "tq_ok (exp_pos T) q" and T: "current_tick q = T" and ne: "due_slots q \<noteq> {}"
  defines "s \<equiv> head (bucket_at q 0 (T mod 10))"
  shows "s \<in> due_slots q"
    "expire_step env (T mod 10) (q, w) = InvokeAction env (action (slots q ! s)) (RemoveTimerSlot s q, w)"
    "expire_loop env (T mod 10) (q, w) = expire_loop env (T mod 10) (expire_step env (T mod 10) (q, w))"
    "tq_ok (exp_pos T) (RemoveTimerSlot s q)" "current_tick (RemoveTimerSlot s q) = T"
    "due_slots (RemoveTimerSlot s q) = due_slots q - {s}"
proof -
  have h: "s \<noteq> kInvalidSlot" "s \<in> due_slots q" using due_head [OF ok T] ne by (auto simp: s_def)
  then show "s \<in> due_slots q" by simp
  have act: "s \<in> active_slots q" "wheel_level (slots q ! s) = 0" "bucket_index (slots q ! s) = T mod 10"
    using h(2) T by (auto simp: due_slots_def)
  have "slot_tick q s \<le> T"
    using placesD [OF _ act(1)] ok act(2,3) exp_due by (fastforce simp: tq_ok_def)
  then show "expire_step env (T mod 10) (q, w) = InvokeAction env (action (slots q ! s)) (RemoveTimerSlot s q, w)"
    using T by (simp add: expire_step_def Let_def s_def [symmetric] slot_tick_def)
  show "expire_loop env (T mod 10) (q, w) = expire_loop env (T mod 10) (expire_step env (T mod 10) (q, w))"
    using h(1) by (intro expire_loop_step) (simp add: s_def)
  note rm = Remove_tq [OF ok act(1)]
  show "tq_ok (exp_pos T) (RemoveTimerSlot s q)" "current_tick (RemoveTimerSlot s q) = T"
    using rm(1,4) T by simp_all
  show "due_slots (RemoveTimerSlot s q) = due_slots q - {s}"
    using rm(3,4) visD(7,8) [OF rm(6)] by (auto simp: due_slots_def)
qed

lemma finite_due_slots [simp]: "finite (due_slots q)"
  by (simp add: due_slots_def)

lemma expire_loop_ok:
  assumes wb: "well_behaved env" and "tq_ok (exp_pos T) q" "current_tick q = T"
  shows "\<exists>q' w'. expire_loop env (T mod 10) (q, w) = Some (q', w') \<and> tq_ok (exp_pos T) q' \<and> current_tick q' = T
    \<and> due_slots q' = {}"
  using assms(2,3)
proof (induction "card (due_slots q)" arbitrary: q w rule: less_induct)
  case less
  show ?case
  proof (cases "due_slots q = {}")
    case True
    with due_head [OF less.prems] less.prems show ?thesis by (simp add: expire_loop_done)
  next
    case False
    define s where "s = head (bucket_at q 0 (T mod 10))"
    note st1 = expire_step_due(1,4,5,6) [OF less.prems False, folded s_def]
      and st2 = expire_step_due(2,3) [OF less.prems False, folded s_def, of env w]
    note st = st1(1) st2 st1(2-)
    obtain q1 w1 where inv: "InvokeAction env (action (slots q ! s)) (RemoveTimerSlot s q, w) = (q1, w1)"
      by (cases "InvokeAction env (action (slots q ! s)) (RemoveTimerSlot s q, w)") auto
    with wb have "loop_ops (RemoveTimerSlot s q) q1" unfolding well_behaved_def by (metis fst_conv)
    from loop_ops_ok [OF this st(4,5)]
    have q1: "tq_ok (exp_pos T) q1" "current_tick q1 = T" "due_slots q1 \<subseteq> due_slots q - {s}"
      using st(6) by auto
    have "card (due_slots q1) \<le> card (due_slots q - {s})" using q1(3) by (intro card_mono) auto
    also have "\<dots> < card (due_slots q)" using st(1) by (intro card_Diff1_less) auto
    finally show ?thesis using less.hyps [OF _ q1(1,2), of w1] st(2,3) inv by simp
  qed
qed

text \<open>With quiet callbacks, exactly the timers in the bucket are fired, once each.\<close>

lemma expire_loop_exact:
  assumes qu: "quiet env eff" and "tq_ok (exp_pos T) q" "current_tick q = T"
  shows "\<exists>q' as. expire_loop env (T mod 10) (q, w) = Some (q', fold eff as w)
    \<and> mset as = image_mset (\<lambda>i. action (slots q ! i)) (mset_set (due_slots q))
    \<and> tq_ok (exp_pos T) q' \<and> current_tick q' = T \<and> due_slots q' = {} \<and> active_slots q' = active_slots q - due_slots q
    \<and> (\<forall>i\<in>active_slots q'. slot_tick q' i = slot_tick q i \<and> action (slots q' ! i) = action (slots q ! i))"
  using assms(2,3)
proof (induction "card (due_slots q)" arbitrary: q w rule: less_induct)
  case less
  show ?case
  proof (cases "due_slots q = {}")
    case True
    with due_head [OF less.prems] less.prems show ?thesis
      by (intro exI [of _ q] exI [of _ "[]"]) (simp add: expire_loop_done)
  next
    case False
    define s where "s = head (bucket_at q 0 (T mod 10))"
    note st1 = expire_step_due(1,4,5,6) [OF less.prems False, folded s_def]
      and st2 = expire_step_due(2,3) [OF less.prems False, folded s_def, of env w]
    note st = st1(1) st2 st1(2-)
    let ?q = "RemoveTimerSlot s q" and ?a = "action (slots q ! s)"
    have act: "s \<in> active_slots q" using st(1) by (simp add: due_slots_def)
    note rm = Remove_tq [OF less.prems(1) act]
    have inv: "expire_step env (T mod 10) (q, w) = (?q, eff ?a w)" using qu st(2) by (simp add: quiet_def)
    have "card (due_slots ?q) < card (due_slots q)" unfolding st(6) using st(1) by (intro card_Diff1_less) auto
    from less.hyps [OF this st(4,5), of "eff ?a w"] obtain q' as where
      ih: "expire_loop env (T mod 10) (?q, eff ?a w) = Some (q', fold eff as (eff ?a w))"
      "mset as = image_mset (\<lambda>i. action (slots ?q ! i)) (mset_set (due_slots ?q))"
      "tq_ok (exp_pos T) q'" "current_tick q' = T" "due_slots q' = {}" "active_slots q' = active_slots ?q - due_slots ?q"
      "\<forall>i\<in>active_slots q'. slot_tick q' i = slot_tick ?q i \<and> action (slots q' ! i) = action (slots ?q ! i)"
      by blast
    have same: "slot_tick ?q i = slot_tick q i" "action (slots ?q ! i) = action (slots q ! i)"
      if "i \<in> active_slots q" "i \<noteq> s" for i
      using rm(7) [OF that] visD(2) [OF rm(6) [OF that]] by simp_all
    have "mset as = image_mset (\<lambda>i. action (slots q ! i)) (mset_set (due_slots q - {s}))"
      unfolding ih(2) st(6) by (intro image_mset_cong same(2)) (auto simp: due_slots_def)
    then have "mset (?a # as) = image_mset (\<lambda>i. action (slots q ! i)) (mset_set (due_slots q))"
      using st(1) by (simp add: mset_set.remove)
    moreover have "active_slots q' = active_slots q - due_slots q" using ih(6) rm(3) st(1,6) by auto
    moreover have "\<forall>i\<in>active_slots q'. slot_tick q' i = slot_tick q i \<and> action (slots q' ! i) = action (slots q ! i)"
      using ih(6,7) rm(3) same by auto
    moreover have "expire_loop env (T mod 10) (q, w) = Some (q', fold eff (?a # as) w)"
      using ih(1) st(3) inv by simp
    ultimately show ?thesis using ih(3-5) by blast
  qed
qed

section \<open>One tick\<close>

definition cascades :: "TimerQueue \<Rightarrow> TimerQueue option" where
  "cascades q = do { q1 \<leftarrow> CascadeDue q 3; q2 \<leftarrow> CascadeDue q1 2; CascadeDue q2 1 }"

lemma advance_tick_eq:
  "advance_tick env (q, w) =
     do { q3 \<leftarrow> cascades (q\<lparr>current_tick := current_tick q + 1\<rparr>); ExpireCurrentBucket env (q3, w) }"
  by (simp add: advance_tick_def cascades_def)

lemma tick_start:
  assumes "tq_inv q"
  defines "q0 \<equiv> q\<lparr>current_tick := current_tick q + 1\<rparr>"
  shows "tq_ok (mid_pos (current_tick q0) 3) q0" "active_slots q0 = active_slots q" "slot_tick q0 = slot_tick q"
proof -
  show act: "active_slots q0 = active_slots q" and st: "slot_tick q0 = slot_tick q"
    by (auto simp: q0_def active_slots_def slot_tick_def DeadlineTick_def fun_eq_iff)
  have f: "fd_eq q q0" "timer_fd_armed q0 = timer_fd_armed q" "active_timer_count q0 = active_timer_count q"
    by (simp_all add: q0_def fd_eq_def)
  from assms(1) obtain L fs where core: "tq_core q L fs" and pl: "places (stable_pos (current_tick q)) q"
    by (auto simp: tq_inv_def tq_ok_def)
  have m: "mid_pos (current_tick q + 1) 3 (wheel_level (slots q ! i)) (slot_tick q i) (bucket_index (slots q ! i)) (wheel_rounds (slots q ! i))"
    if i: "i \<in> active_slots q" for i
    using stable_mid [OF placesD [OF pl i]] tq_core_linked(1) [OF core] i by (auto simp: active_slots_def)
  have "tq_ok (mid_pos (current_tick q + 1) 3) q"
    by (rule tq_ok_mono [OF assms(1) [unfolded tq_inv_def]]) (rule m)
  then have "tq_ok (mid_pos (current_tick q + 1) 3) q0"
    by (rule fd_eq_ok [OF f(1)]) (use assms(1) f(2,3) in \<open>auto simp: tq_inv_def tq_ok_def\<close>)
  then show "tq_ok (mid_pos (current_tick q0) 3) q0" by (simp add: q0_def)
qed

lemma CascadeDue_tq:
  assumes ok: "tq_ok (mid_pos T l) q" and l: "1 \<le> l" "l \<le> 3" and T: "current_tick q = T" "0 < T"
  shows "\<exists>q'. CascadeDue q l = Some q' \<and> tq_ok (mid_pos T (l - 1)) q' \<and> same_timers q q'"
proof -
  from ok obtain L fs where "tq_core q L fs" "places (mid_pos T l) q" by (auto simp: tq_ok_def)
  from CascadeDue_ok [OF this(1) l T this(2)] obtain q' L' where
    q': "CascadeDue q l = Some q'" "tq_core q' L' fs" "places (mid_pos T (l - 1)) q'" "same_timers q q'" by blast
  then have "tq_ok (mid_pos T (l - 1)) q'"
    using ok same_timersD(2) [OF q'(4)] same_timers_tick(3,4) [OF q'(4)] by (auto simp: tq_ok_def)
  with q' show ?thesis by blast
qed

lemma cascades_ok:
  assumes ok: "tq_ok (mid_pos T 3) q" and T: "current_tick q = T" "0 < T"
  shows "\<exists>q'. cascades q = Some q' \<and> tq_ok (mid_pos T 0) q' \<and> same_timers q q'"
proof -
  obtain q1 where q1: "CascadeDue q 3 = Some q1" "tq_ok (mid_pos T 2) q1" "same_timers q q1"
    using CascadeDue_tq [OF ok _ _ T] by auto
  have T1: "current_tick q1 = T" using same_timers_tick(1) [OF q1(3)] T(1) by simp
  obtain q2 where q2: "CascadeDue q1 2 = Some q2" "tq_ok (mid_pos T 1) q2" "same_timers q1 q2"
    using CascadeDue_tq [OF q1(2) _ _ T1 T(2)] by auto
  have T2: "current_tick q2 = T" using same_timers_tick(1) [OF q2(3)] T1 by simp
  obtain q3 where q3: "CascadeDue q2 1 = Some q3" "tq_ok (mid_pos T 0) q3" "same_timers q2 q3"
    using CascadeDue_tq [OF q2(2) _ _ T2 T(2)] by auto
  have "same_timers q q3" using q1(3) q2(3) q3(3) same_timers_trans by blast
  with q1(1) q2(1) q3 show ?thesis by (simp add: cascades_def)
qed

text \<open>Up to the expiry of its bucket, a tick only moves timers: then exactly those in the bucket are due.\<close>

lemma tick_cascaded:
  assumes inv: "tq_inv q" and T: "T = current_tick q + 1"
  shows "\<exists>q3. advance_tick env (q, w) = expire_loop env (T mod 10) (q3, w) \<and> tq_ok (exp_pos T) q3 \<and> current_tick q3 = T
    \<and> active_slots q3 = active_slots q \<and> due_slots q3 = {i \<in> active_slots q. slot_tick q i \<le> T}
    \<and> (\<forall>i\<in>active_slots q. slot_tick q3 i = slot_tick q i \<and> action (slots q3 ! i) = action (slots q ! i))"
proof -
  define q0 where "q0 = q\<lparr>current_tick := current_tick q + 1\<rparr>"
  have T0: "current_tick q0 = T" "0 < T" by (simp_all add: q0_def T)
  note start = tick_start [OF inv, folded q0_def, unfolded T0(1)]
  obtain q3 where q3: "cascades q0 = Some q3" "tq_ok (mid_pos T 0) q3" "same_timers q0 q3"
    using cascades_ok [OF start(1) T0] by blast
  have cur: "current_tick q3 = T" using same_timers_tick(1) [OF q3(3)] T0 by simp
  have act: "active_slots q3 = active_slots q" using active_slots_same [OF q3(3)] start(2) by simp
  have same: "slot_tick q3 i = slot_tick q i \<and> action (slots q3 ! i) = action (slots q ! i)" if "i \<in> active_slots q" for i
  proof -
    have "i < length (slots q0)" using that by (simp add: q0_def active_slots_def)
    from same_timers_slot(1,2) [OF q3(3) this] same_timers_tick(2) [OF q3(3)] start(3)
    show ?thesis by (simp add: slot_tick_def fun_eq_iff q0_def)
  qed
  have ok: "tq_ok (exp_pos T) q3" by (rule tq_ok_mono [OF q3(2)]) (rule mid_exp)
  have "due_slots q3 = {i \<in> active_slots q. slot_tick q i \<le> T}"
    using mid_due_iff [OF placesD [of "mid_pos T 0" q3]] q3(2) act same cur
    by (auto simp: due_slots_def tq_ok_def)
  moreover have "advance_tick env (q, w) = expire_loop env (T mod 10) (q3, w)"
    using q3(1) cur by (simp add: advance_tick_eq q0_def ExpireCurrentBucket_def kWheelSize_def)
  ultimately show ?thesis using ok cur act same by blast
qed

lemma expired_inv: "tq_ok (exp_pos T) q \<Longrightarrow> current_tick q = T \<Longrightarrow> due_slots q = {} \<Longrightarrow> tq_inv q"
  unfolding tq_inv_def
proof (erule tq_ok_mono)
  fix i
  assume T: "current_tick q = T" and "due_slots q = {}" "i \<in> active_slots q"
    and e: "exp_pos T (wheel_level (slots q ! i)) (slot_tick q i) (bucket_index (slots q ! i)) (wheel_rounds (slots q ! i))"
  then have "\<not> (wheel_level (slots q ! i) = 0 \<and> bucket_index (slots q ! i) = T mod 10)"
    unfolding due_slots_def T by blast
  from exp_stable [OF e this]
  show "stable_pos (current_tick q) (wheel_level (slots q ! i)) (slot_tick q i) (bucket_index (slots q ! i)) (wheel_rounds (slots q ! i))"
    unfolding T .
qed

lemma advance_tick_ok:
  assumes "well_behaved env" "tq_inv q"
  shows "\<exists>q' w'. advance_tick env (q, w) = Some (q', w') \<and> tq_inv q' \<and> current_tick q' = current_tick q + 1"
proof -
  obtain q3 where q3: "advance_tick env (q, w) = expire_loop env ((current_tick q + 1) mod 10) (q3, w)"
      "tq_ok (exp_pos (current_tick q + 1)) q3" "current_tick q3 = current_tick q + 1"
    using tick_cascaded [OF assms(2) refl, of env w] by blast
  from expire_loop_ok [OF assms(1) q3(2,3), of w] expired_inv q3(1) show ?thesis by fastforce
qed

lemma AdvanceWheel_ok:
  assumes "well_behaved env" "tq_inv q"
  shows "\<exists>q' w'. AdvanceWheel env n (q, w) = Some (q', w') \<and> tq_inv q' \<and> current_tick q' = current_tick q + n"
  using assms(2)
proof (induction n arbitrary: q w)
  case (Suc n)
  obtain q1 w1 where "advance_tick env (q, w) = Some (q1, w1)" "tq_inv q1" "current_tick q1 = current_tick q + 1"
    using advance_tick_ok [OF assms(1) Suc.prems] by blast
  with Suc.IH [of q1 w1] show ?case by simp
qed simp

section \<open>Exactly the due timers fire\<close>

lemma timers_split:
  assumes "T = current_tick q + 1"
  shows "timers q = image_mset (\<lambda>i. (T, action (slots q ! i))) (mset_set {i \<in> active_slots q. slot_tick q i \<le> T})
    + image_mset (\<lambda>i. (slot_tick q i, action (slots q ! i))) (mset_set (active_slots q - {i \<in> active_slots q. slot_tick q i \<le> T}))"
proof -
  let ?D = "{i \<in> active_slots q. slot_tick q i \<le> T}"
  have "active_slots q = ?D \<union> (active_slots q - ?D)" by auto
  then have "mset_set (active_slots q) = mset_set ?D + mset_set (active_slots q - ?D)"
    by (metis (no_types, lifting) Diff_disjoint finite_Diff finite_Un finite_active_slots mset_set_Union)
  then have "timers q = image_mset (timer_of q) (mset_set ?D) + image_mset (timer_of q) (mset_set (active_slots q - ?D))"
    by (simp add: timers_def)
  moreover have "image_mset (timer_of q) (mset_set ?D) = image_mset (\<lambda>i. (T, action (slots q ! i))) (mset_set ?D)"
    using assms by (intro image_mset_cong) (auto simp: timer_of_def sched_tick_def)
  moreover have "image_mset (timer_of q) (mset_set (active_slots q - ?D)) =
      image_mset (\<lambda>i. (slot_tick q i, action (slots q ! i))) (mset_set (active_slots q - ?D))"
    using assms by (intro image_mset_cong) (auto simp: timer_of_def sched_tick_def)
  ultimately show ?thesis by simp
qed

lemma advance_tick_exact:
  assumes "quiet env eff" "tq_inv q" and T: "T = current_tick q + 1"
  shows "\<exists>q' as. advance_tick env (q, w) = Some (q', fold eff as w) \<and> tq_inv q' \<and> current_tick q' = T
    \<and> timers q = mset (map (Pair T) as) + timers q' \<and> (\<forall>t\<in>#timers q'. T < fst t)"
proof -
  obtain q3 where q3: "advance_tick env (q, w) = expire_loop env (T mod 10) (q3, w)"
      "tq_ok (exp_pos T) q3" "current_tick q3 = T" "active_slots q3 = active_slots q"
      "due_slots q3 = {i \<in> active_slots q. slot_tick q i \<le> T}"
      "\<forall>i\<in>active_slots q. slot_tick q3 i = slot_tick q i \<and> action (slots q3 ! i) = action (slots q ! i)"
    using tick_cascaded [OF assms(2) T, of env w] by blast
  obtain q' as where q': "expire_loop env (T mod 10) (q3, w) = Some (q', fold eff as w)"
    "mset as = image_mset (\<lambda>i. action (slots q3 ! i)) (mset_set (due_slots q3))"
    "tq_ok (exp_pos T) q'" "current_tick q' = T" "due_slots q' = {}" "active_slots q' = active_slots q3 - due_slots q3"
    "\<forall>i\<in>active_slots q'. slot_tick q' i = slot_tick q3 i \<and> action (slots q' ! i) = action (slots q3 ! i)"
    using expire_loop_exact [OF assms(1) q3(2,3)] by blast
  let ?D = "{i \<in> active_slots q. slot_tick q i \<le> T}"
  have "mset as = image_mset (\<lambda>i. action (slots q ! i)) (mset_set ?D)"
    unfolding q'(2) q3(5) using q3(6) by (intro image_mset_cong) auto
  then have fired: "mset (map (Pair T) as) = image_mset (\<lambda>i. (T, action (slots q ! i))) (mset_set ?D)"
    by (simp add: image_mset.compositionality comp_def)
  have act': "active_slots q' = active_slots q - ?D" using q'(6) q3(4,5) by simp
  have left: "timer_of q' i = (slot_tick q i, action (slots q ! i))" if "i \<in> active_slots q'" for i
    using that q'(4,7) q3(6) act' by (auto simp: timer_of_def sched_tick_def)
  then have "timers q' = image_mset (\<lambda>i. (slot_tick q i, action (slots q ! i))) (mset_set (active_slots q - ?D))"
    unfolding timers_def act' [symmetric] by (intro image_mset_cong) simp
  moreover from this have "\<forall>t\<in>#timers q'. T < fst t" by auto
  ultimately show ?thesis
    using timers_split [OF T] fired expired_inv [OF q'(3-5)] q'(1,4) q3(1) by auto
qed

lemma AdvanceWheel_exact_log:
  assumes qu: "quiet env eff" and "tq_inv q"
  shows "\<exists>q' log. AdvanceWheel env n (q, w) = Some (q', fold (\<lambda>t. eff (snd t)) log w)
    \<and> tq_inv q' \<and> current_tick q' = current_tick q + n \<and> timers q = mset log + timers q'
    \<and> sorted (map fst log) \<and> (\<forall>t\<in>set log. current_tick q < fst t \<and> fst t \<le> current_tick q + n)
    \<and> (\<forall>t\<in>#timers q'. current_tick q + n < fst t)"
  using assms(2)
proof (induction n arbitrary: q w)
  case 0
  have "\<forall>t\<in>#timers q. current_tick q < fst t" by (auto simp: timers_def timer_of_def sched_tick_def)
  with 0 show ?case by (intro exI [of _ q] exI [of _ "[]"]) simp
next
  case (Suc n)
  let ?T = "current_tick q + 1"
  obtain q1 as where q1: "advance_tick env (q, w) = Some (q1, fold eff as w)" "tq_inv q1" "current_tick q1 = ?T"
      "timers q = mset (map (Pair ?T) as) + timers q1" "\<forall>t\<in>#timers q1. ?T < fst t"
    using advance_tick_exact [OF qu Suc.prems refl] by blast
  obtain q' log where ih: "AdvanceWheel env n (q1, fold eff as w) = Some (q', fold (\<lambda>t. eff (snd t)) log (fold eff as w))"
      "tq_inv q'" "current_tick q' = current_tick q1 + n" "timers q1 = mset log + timers q'" "sorted (map fst log)"
      "\<forall>t\<in>set log. current_tick q1 < fst t \<and> fst t \<le> current_tick q1 + n" "\<forall>t\<in>#timers q'. current_tick q1 + n < fst t"
    using Suc.IH [OF q1(2)] by blast
  have "fold (\<lambda>t. eff (snd t)) (map (Pair ?T) as @ log) w = fold (\<lambda>t. eff (snd t)) log (fold eff as w)"
    by (simp add: fold_map comp_def)
  moreover have "sorted (map fst (map (Pair ?T) as @ log))"
    using ih(5,6) q1(3) by (auto simp: sorted_append comp_def map_replicate_const)
  moreover have "\<forall>t\<in>set (map (Pair ?T) as @ log). current_tick q < fst t \<and> fst t \<le> current_tick q + Suc n"
    using ih(6) q1(3) by fastforce
  moreover have "AdvanceWheel env (Suc n) (q, w) = Some (q', fold (\<lambda>t. eff (snd t)) log (fold eff as w))"
    using q1(1) ih(1) by simp
  moreover have "timers q = mset (map (Pair ?T) as @ log) + timers q'" using q1(4) ih(4) by (simp add: ac_simps)
  moreover have "current_tick q' = current_tick q + Suc n" "\<forall>t\<in>#timers q'. current_tick q + Suc n < fst t"
    using ih(3,7) q1(3) by simp_all
  ultimately show ?case
    using ih(2) by (intro exI [of _ q'] exI [of _ "map (Pair ?T) as @ log"]) simp
qed

end
