(* ===== verification/Timer_Contract.thy ===== *)
theory Timer_Contract
  imports Timer_Expire
begin

unbundle bit_operations_syntax

text \<open>
  What \<open>TimerQueue\<close> promises to its callers: identifiers are unambiguous, a timer never fires early, and
  the queue implements the interface \<open>timer_service\<close> of pending timers. The last section shows the one
  way a callback can break it.
\<close>

section \<open>Timer identifiers\<close>

lemma slot_token:
  assumes "s < 2 ^ 31 - 1"
  shows "unat (of_nat s + 1 :: u64) = s + 1"
proof -
  have eq: "of_nat s + 1 = (of_nat (Suc s) :: u64)" by simp
  have "unat (of_nat (Suc s) :: u64) = Suc s" using assms by (simp add: unat_of_nat take_bit_nat_eq_self del: of_nat_Suc)
  then show ?thesis unfolding eq by simp
qed

lemma masks: "kSlotIndexMask = mask 31" "kGenerationMask = mask 32" "kExternalTimerMask = push_bit 63 1"
  by (simp_all add: kSlotIndexMask_def kGenerationMask_def kExternalTimerMask_def mask_eq_exp_minus_1)

lemma small_bits:
  fixes x :: u64
  assumes "unat x < 2 ^ 31" "31 \<le> n"
  shows "\<not> bit x n"
proof -
  have "take_bit 31 (unat x) = unat x" using assms(1) by (simp add: take_bit_nat_eq_self)
  then have "bit (unat x) n = bit (take_bit 31 (unat x)) n" by simp
  with assms(2) have "\<not> bit (unat x) n" by (simp add: bit_take_bit_iff)
  then show ?thesis by (simp add: bit_unsigned_iff)
qed

lemma decode_parts:
  fixes x :: u64 and g :: u32
  assumes "unat x < 2 ^ 31"
  shows "(push_bit 31 (ucast g) OR x) AND mask 31 = x"
    "ucast (drop_bit 31 (push_bit 31 (ucast g) OR x) AND (mask 32 :: u64)) = g"
    "(push_bit 31 (ucast g) OR x) AND push_bit 63 1 = 0"
proof -
  note small = small_bits [OF assms]
  show "(push_bit 31 (ucast g) OR x) AND mask 31 = x"
    by (rule bit_word_eqI) (use small not_le in \<open>auto simp: bit_simps\<close>)
  show "ucast (drop_bit 31 (push_bit 31 (ucast g) OR x) AND (mask 32 :: u64)) = g"
    by (rule bit_word_eqI) (auto simp: bit_simps small)
  define m :: u64 where "m = push_bit 63 1"
  have m: "bit m n \<longleftrightarrow> n = 63" for n
    unfolding m_def bit_push_bit_iff bit_1_iff by (auto simp: possible_bit_def)
  have "(push_bit 31 (ucast g) OR x) AND m = 0"
    by (rule bit_word_eqI) (auto simp: bit_simps m small dest: bit_imp_le_length)
  then show "(push_bit 31 (ucast g) OR x) AND push_bit 63 1 = 0" unfolding m_def .
qed

lemma Decode_Make:
  assumes "s < 2 ^ 31 - 1" "g \<noteq> 0"
  shows "DecodeSlotTimerId (MakeSlotTimerId s g) = Some (s, g)" "\<not> IsExternalTimerId (MakeSlotTimerId s g)"
    "TimerId_Valid (MakeSlotTimerId s g)"
proof -
  define x :: u64 where "x = of_nat s + 1"
  have x: "unat x = s + 1" unfolding x_def by (rule slot_token [OF assms(1)])
  then have small: "unat x < 2 ^ 31" "x \<noteq> 0" using assms(1) by auto
  note parts = decode_parts [OF small(1), of g]
  have make: "MakeSlotTimerId s g = push_bit 31 (ucast g) OR x" by (simp add: MakeSlotTimerId_def x_def)
  show ext: "\<not> IsExternalTimerId (MakeSlotTimerId s g)"
    unfolding IsExternalTimerId_def make masks(3) using parts(3) by blast
  show valid: "TimerId_Valid (MakeSlotTimerId s g)"
    unfolding TimerId_Valid_def make using parts(1) small(2) by auto
  have "unat (x - 1) = s" using x by (simp add: x_def unat_of_nat take_bit_nat_eq_self) (use assms(1) in simp)
  then show "DecodeSlotTimerId (MakeSlotTimerId s g) = Some (s, g)"
    using ext valid assms(2) small(2) unfolding DecodeSlotTimerId_def Let_def make masks(1,2) parts(1,2) by simp
qed

text \<open>
  The identifier that \<open>AddTimerInLoop\<close> returns names the timer it added. An external identifier has
  its top bit set and is not in use yet; \<open>MakeExternalTimerId\<close> provides such ones.
\<close>

definition fresh_external :: "TimerId \<Rightarrow> TimerQueue \<Rightarrow> bool" where
  "fresh_external e q \<longleftrightarrow> e = 0 \<or> (IsExternalTimerId e \<and> external_timer_slots q e = None)"

lemma IsExternal_nz: "IsExternalTimerId e \<Longrightarrow> e \<noteq> 0"
  by (auto simp: IsExternalTimerId_def)

lemma fd_eq_target: "fd_eq q q' \<Longrightarrow> cancel_target q' tid = cancel_target q tid"
  by (auto simp: cancel_target_def fd_eq_def split: option.split)

lemma fd_eq_timer_of: "fd_eq q q' \<Longrightarrow> current_tick q' = current_tick q \<Longrightarrow> timer_of q' s = timer_of q s"
  by (simp add: timer_of_def slot_tick_def DeadlineTick_def fd_eq_def)

lemma enlisted_target:
  assumes ok: "tq_ok pos q" and acc: "accepts pos (current_tick q)" and alloc: "AllocateSlot d act e q = Inr (s, q2)"
    and fresh: "fresh_external e q"
  shows "cancel_target (enlist s e q2) (if e \<noteq> 0 then e else MakeSlotTimerId s (generation (slots (enlist s e q2) ! s))) = Some s"
proof -
  note en = enlist_tq [OF ok acc alloc]
  show ?thesis
  proof (cases "e = 0")
    case True
    moreover have "s \<in> active_slots (enlist s e q2)" using en(7) by simp
    ultimately show ?thesis
      using Decode_Make [OF en(10,9)] by (simp add: cancel_target_def active_slots_def)
  next
    case False
    with fresh en(12) show ?thesis by (simp add: cancel_target_def fresh_external_def)
  qed
qed

lemma Add_target:
  assumes inv: "tq_inv q" and add: "AddTimerInLoop os d act e q = (Inr tid, q')" and fresh: "fresh_external e q"
  shows "\<exists>s. cancel_target q' tid = Some s \<and> timer_of q' s = (sched_tick (current_tick q') (DeadlineTick q d), act)"
proof -
  define q1 where "q1 = (if \<not> timer_fd_armed q then SyncCurrentTick os q else q)"
  have f1: "fd_eq q q1" using Sync_fd_eq(1) by (simp add: q1_def fd_eq_def)
  have ok: "tq_ok (stable_pos (current_tick q1)) q1"
  proof (cases "timer_fd_armed q")
    case True
    with inv show ?thesis by (simp add: q1_def tq_inv_def)
  next
    case False
    then have "active_timer_count q = 0" using inv by (simp add: tq_inv_def tq_ok_def)
    then show ?thesis by (rule empty_ok(1) [OF inv [unfolded tq_inv_def] f1])
  qed
  have dt: "DeadlineTick q1 = DeadlineTick q" using f1 by (auto simp: fd_eq_def DeadlineTick_def fun_eq_iff)
  have fresh1: "fresh_external e q1" using fresh f1 by (simp add: fresh_external_def fd_eq_def)
  from add obtain s q2 where alloc: "AllocateSlot d act e q1 = Inr (s, q2)"
    by (auto simp: AddTimerInLoop_eq Let_def q1_def split: sum.splits)
  define q5 where "q5 = enlist s e q2"
  note en = enlist_tq [OF ok accepts_stable alloc, folded q5_def]
  have q': "fd_eq q5 q' \<and> current_tick q' = current_tick q5
      \<and> tid = (if e \<noteq> 0 then e else MakeSlotTimerId s (generation (slots q' ! s)))"
    using add alloc Arm_cases [of q5 os]
    by (auto simp: AddTimerInLoop_eq Let_def q1_def [symmetric] q5_def [symmetric] fd_eq_def split: sum.splits if_splits)
  then have "slots q' = slots q5" by (simp add: fd_eq_def)
  with q' enlisted_target [OF ok accepts_stable alloc fresh1, folded q5_def] en(4,11) dt fd_eq_target [of q5 q'] fd_eq_timer_of [of q5 q' s]
  show ?thesis by auto
qed

section \<open>Deadlines in ticks\<close>

lemma ceil_ms_bounds: "ns \<le> ceil_ms ns * 1000000" "(ceil_ms ns - 1) * 1000000 < ns"
proof -
  have "- ns = (- ns) div 1000000 * 1000000 + (- ns) mod 1000000" by simp
  moreover have "0 \<le> (- ns) mod 1000000" "(- ns) mod 1000000 < 1000000" by simp_all
  ultimately show "ns \<le> ceil_ms ns * 1000000" "(ceil_ms ns - 1) * 1000000 < ns"
    unfolding ceil_ms_def by (simp_all add: algebra_simps)
qed

text \<open>The initial state satisfies the invariant.\<close>

lemma tq_inv_new: "tq_inv (TimerQueue_new epoch)"
proof -
  let ?q = "TimerQueue_new epoch"
  have bucket: "bucket_at ?q l b = \<lparr>head = kInvalidSlot, tail = kInvalidSlot\<rparr>" if "l < 4" "b < 10" for l b
    using that by (simp add: bucket_at_def TimerQueue_new_def kWheelLevelCount_def kWheelSize_def)
  have "wheel_rep ?q (\<lambda>_ _. [])"
    unfolding wheel_rep_def
    by (auto simp: bucket_rep_def bucket wheel_shape_def)
      (auto simp: TimerQueue_new_def kWheelLevelCount_def kWheelSize_def kInvalidSlot_def)
  moreover have "active_slots ?q = {}" by (simp add: active_slots_def TimerQueue_new_def)
  ultimately have "tq_core ?q (\<lambda>_ _. []) []"
    by (simp add: tq_core_def free_ok_def ext_ok_def) (simp add: TimerQueue_new_def)
  from empty_core(1) [OF this \<open>active_slots ?q = {}\<close>] show ?thesis
    by (simp add: tq_inv_def) (simp add: TimerQueue_new_def)
qed

section \<open>The interface of the timer queue\<close>

text \<open>
  A service that keeps timers \<open>pending\<close>, adds and cancels them, and is turned by a number of ticks. The
  environment \<open>'e\<close> is user code; it is benign with effect \<open>eff\<close> when it leaves the service alone.
\<close>

locale timer_service =
  fixes ok :: "'q \<Rightarrow> bool" and now :: "'q \<Rightarrow> nat" and pending :: "'q \<Rightarrow> (nat \<times> 'a) multiset"
    and due :: "'q \<Rightarrow> int \<Rightarrow> nat"
    and add :: "'o \<Rightarrow> int \<Rightarrow> 'a \<Rightarrow> 'q \<Rightarrow> ('x + 'i) \<times> 'q"
    and cancel :: "'o \<Rightarrow> 'i \<Rightarrow> 'q \<Rightarrow> 'x option \<times> 'q"
    and turn :: "'e \<Rightarrow> nat \<Rightarrow> 'q \<times> 'w \<Rightarrow> ('q \<times> 'w) option"
    and benign :: "'e \<Rightarrow> ('a \<Rightarrow> 'w \<Rightarrow> 'w) \<Rightarrow> bool"
  assumes add_pending: "ok q \<Longrightarrow> add os d a q = (Inr tid, q') \<Longrightarrow>
      ok q' \<and> pending q' = add_mset (due q' d, a) (pending q)"
    and add_fails: "ok q \<Longrightarrow> add os d a q = (Inl err, q') \<Longrightarrow> ok q' \<and> pending q' = pending q"
    and add_cancel: "ok q \<Longrightarrow> add os d a q = (Inr tid, q1) \<Longrightarrow> cancel os' tid q1 = (res, q2) \<Longrightarrow>
      ok q2 \<and> pending q2 = pending q \<and> now q2 = now q1"
    and turn_log: "benign env eff \<Longrightarrow> ok q \<Longrightarrow> \<exists>q' log. turn env n (q, w) = Some (q', fold (\<lambda>t. eff (snd t)) log w)
      \<and> ok q' \<and> now q' = now q + n \<and> pending q = mset log + pending q' \<and> sorted (map fst log)
      \<and> (\<forall>t\<in>set log. now q < fst t \<and> fst t \<le> now q + n) \<and> (\<forall>t\<in>#pending q'. now q + n < fst t)"
begin

lemma fires_exactly:
  assumes "benign env eff" "ok q"
  shows "\<exists>q' log. turn env n (q, w) = Some (q', fold (\<lambda>t. eff (snd t)) log w) \<and> sorted (map fst log)
    \<and> mset log = filter_mset (\<lambda>t. fst t \<le> now q + n) (pending q)
    \<and> pending q' = filter_mset (\<lambda>t. now q + n < fst t) (pending q) \<and> ok q' \<and> now q' = now q + n"
proof -
  obtain q' log where t: "turn env n (q, w) = Some (q', fold (\<lambda>t. eff (snd t)) log w)" "ok q'" "now q' = now q + n"
      "pending q = mset log + pending q'" "sorted (map fst log)"
      "\<forall>t\<in>set log. now q < fst t \<and> fst t \<le> now q + n" "\<forall>t\<in>#pending q'. now q + n < fst t"
    using turn_log [OF assms] by blast
  have all: "filter_mset P M = M" if "\<And>x. x \<in># M \<Longrightarrow> P x" for P and M :: "(nat \<times> 'a) multiset"
    using that by (simp add: filter_mset_eq_conv)
  have none: "filter_mset P M = {#}" if "\<And>x. x \<in># M \<Longrightarrow> \<not> P x" for P and M :: "(nat \<times> 'a) multiset"
    using that by (auto simp: multiset_eq_iff count_eq_zero_iff)
  have late: "\<not> fst t \<le> now q + n" if "t \<in># pending q'" for t using t(7) that by (simp add: not_le)
  have early: "\<not> now q + n < fst t" if "t \<in># mset log" for t using t(6) that by (simp add: not_less)
  have "filter_mset (\<lambda>t. fst t \<le> now q + n) (pending q) = mset log"
    unfolding t(4) filter_union_mset using all [of "mset log"] none [of "pending q'"] late t(6) by simp
  moreover have "filter_mset (\<lambda>t. now q + n < fst t) (pending q) = pending q'"
    unfolding t(4) filter_union_mset using none [of "mset log"] all [of "pending q'"] early t(7) by simp
  ultimately show ?thesis using t(1-3,5) by auto
qed

text \<open>A cancelled timer never fires: turning after adding and cancelling fires what was pending before.\<close>

lemma cancelled_never_fires:
  assumes "benign env eff" "ok q" "add os d a q = (Inr tid, q1)" "cancel os' tid q1 = (res, q2)"
  shows "\<exists>q' log. turn env n (q2, w) = Some (q', fold (\<lambda>t. eff (snd t)) log w)
    \<and> mset log = filter_mset (\<lambda>t. fst t \<le> now q1 + n) (pending q)"
proof -
  have q2: "ok q2" "pending q2 = pending q" "now q2 = now q1" using add_cancel [OF assms(2-4)] by auto
  from fires_exactly [OF assms(1) q2(1), of n w] q2(2,3) show ?thesis by auto
qed

text \<open>It does not matter how many expirations each read of the timerfd reports.\<close>

lemma batches:
  assumes "benign env eff" "ok q" "turn env a (q, w) = Some (q1, w1)" "turn env b (q1, w1) = Some (q2, w2)"
    "turn env (a + b) (q, w) = Some (q3, w3)"
  shows "pending q2 = pending q3 \<and> now q2 = now q3"
proof -
  have 1: "pending q1 = filter_mset (\<lambda>t. now q + a < fst t) (pending q)" "ok q1" "now q1 = now q + a"
    using fires_exactly [OF assms(1,2), of a w] assms(3) by auto
  have 2: "pending q2 = filter_mset (\<lambda>t. now q1 + b < fst t) (pending q1)" "now q2 = now q1 + b"
    using fires_exactly [OF assms(1) 1(2), of b w1] assms(4) by auto
  have 3: "pending q3 = filter_mset (\<lambda>t. now q + (a + b) < fst t) (pending q)" "now q3 = now q + (a + b)"
    using fires_exactly [OF assms(1,2), of "a + b" w] assms(5) by auto
  have "(now q + a < fst t \<and> now q + (a + b) < fst t) = (now q + (a + b) < fst t)" for t :: "nat \<times> 'a" by auto
  then show ?thesis using 1 2 3 by (simp add: filter_filter_mset add.assoc)
qed

end

subsection \<open>The timer queue provides it\<close>

lemma epoch_simps [simp]:
  "wheel_epoch (LinkTimerSlot s l b q) = wheel_epoch q" "wheel_epoch (UnlinkTimerSlot s q) = wheel_epoch q"
  "wheel_epoch (upd_slot s f q) = wheel_epoch q"
  using restD(3) [OF Link_rest(1)] restD(3) [OF Unlink_rest(1)] restD(3) [OF rest_upd(1)] by simp_all

lemma epoch_ops [simp]:
  "wheel_epoch (ScheduleTimerSlot s q) = wheel_epoch q" "wheel_epoch (RemoveTimerSlot s q) = wheel_epoch q"
  "wheel_epoch (enlist s e q) = wheel_epoch q"
  by (simp_all add: Schedule_eq RemoveTimerSlot_def enlist_def Let_def split: prod.splits)

lemma Allocate_epoch: "AllocateSlot d act e q = Inr (s, q2) \<Longrightarrow> wheel_epoch q2 = wheel_epoch q"
  by (auto simp: AllocateSlot_def Let_def split: if_splits)

lemma Add_epoch: "AddTimerInLoop os d act e q = (res, q') \<Longrightarrow> wheel_epoch q' = wheel_epoch q"
  by (auto simp: AddTimerInLoop_eq Let_def ArmTimerFd_def SyncCurrentTick_def split: sum.splits if_splits dest!: Allocate_epoch)

definition due_tick :: "TimerQueue \<Rightarrow> int \<Rightarrow> nat" where
  "due_tick q d = sched_tick (current_tick q) (DeadlineTick q d)"

lemma Add_due: "AddTimerInLoop os d act e q = (res, q') \<Longrightarrow> sched_tick (current_tick q') (DeadlineTick q d) = due_tick q' d"
  using Add_epoch by (simp add: due_tick_def DeadlineTick_def)

lemma Add_pending:
  assumes "tq_inv q" "AddTimerInLoop os d act e q = (Inr tid, q')"
  shows "tq_inv q' \<and> timers q' = add_mset (due_tick q' d, act) (timers q)"
  using Add_inv [OF assms] Add_due [OF assms(2)] by simp

text \<open>Adding fails only when the slots are exhausted or the timerfd cannot be armed.\<close>

lemma Allocate_succeeds:
  assumes "length (slots q) < 2 ^ 31 - 1"
  shows "\<exists>s q2. AllocateSlot d act e q = Inr (s, q2)"
  using assms by (auto simp: AllocateSlot_def Let_def kSlotIndexMask_def)

lemma synced_inv:
  assumes "tq_inv q"
  shows "tq_inv (if timer_fd_armed q then q else SyncCurrentTick os q)"
proof (cases "timer_fd_armed q")
  case False
  then have "active_timer_count q = 0" using assms by (simp add: tq_inv_def tq_ok_def)
  from empty_ok(1) [OF assms [unfolded tq_inv_def] Sync_fd_eq(1) this] False show ?thesis by (simp add: tq_inv_def)
qed (use assms in simp)

lemma Add_succeeds:
  assumes "tq_inv q" "settime_ok os" "length (slots q) < 2 ^ 31 - 1"
  shows "\<exists>tid q'. AddTimerInLoop os d act e q = (Inr tid, q')
    \<and> current_tick q' = current_tick (if timer_fd_armed q then q else SyncCurrentTick os q)"
proof -
  define q1 where "q1 = (if timer_fd_armed q then q else SyncCurrentTick os q)"
  have inv: "tq_inv q1" unfolding q1_def by (rule synced_inv [OF assms(1)])
  have "length (slots q1) < 2 ^ 31 - 1" using assms(3) Sync_fd_eq(1) [of q os] by (simp add: q1_def fd_eq_def)
  then obtain s q2 where alloc: "AllocateSlot d act e q1 = Inr (s, q2)" using Allocate_succeeds by blast
  define q5 where "q5 = enlist s e q2"
  have cur: "current_tick q5 = current_tick q1"
    unfolding q5_def by (rule enlist_tq(4) [OF inv [unfolded tq_inv_def] accepts_stable alloc])
  obtain q6 where q6: "(if \<not> timer_fd_armed q5 then ArmTimerFd os q5 else Inr q5) = Inr q6" "current_tick q6 = current_tick q5"
    using assms(2) by (cases "timer_fd_armed q5") (simp_all add: ArmTimerFd_def Let_def)
  have "(if \<not> timer_fd_armed q then SyncCurrentTick os q else q) = q1" by (simp add: q1_def)
  then have "AddTimerInLoop os d act e q = (Inr (if e \<noteq> 0 then e else MakeSlotTimerId s (generation (slots q6 ! s))), q6)"
    unfolding AddTimerInLoop_eq Let_def by (simp only: alloc q5_def [symmetric] q6(1) sum.case prod.case)
  with q6(2) cur show ?thesis unfolding q1_def [symmetric] by auto
qed

lemma Add_cancel:
  assumes "tq_inv q" "AddTimerInLoop os d act e q = (Inr tid, q1)" "fresh_external e q"
    and c: "CancelInLoop os' tid q1 = (res, q2)"
  shows "tq_inv q2 \<and> timers q2 = timers q \<and> current_tick q2 = current_tick q1"
proof -
  have q1: "tq_inv q1" "timers q1 = add_mset (due_tick q1 d, act) (timers q)" using Add_pending [OF assms(1,2)] by auto
  obtain s where "cancel_target q1 tid = Some s" "timer_of q1 s = (due_tick q1 d, act)"
    using Add_target [OF assms(1-3)] Add_due [OF assms(2)] by auto
  with Cancel_ok(1,2,4) [OF q1(1) [unfolded tq_inv_def] c] q1(2) show ?thesis by (simp add: tq_inv_def)
qed

interpretation tq: timer_service tq_inv current_tick timers due_tick "\<lambda>os d act. AddTimerInLoop os d act 0"
  CancelInLoop AdvanceWheel quiet
proof unfold_locales
  fix q os d a err q'
  assume "tq_inv q" "AddTimerInLoop os d a 0 q = (Inl err, q')"
  then show "tq_inv q' \<and> timers q' = timers q" using Add_inv by fastforce
next
  fix q os d a tid q1 os' res q2
  assume "tq_inv q" "AddTimerInLoop os d a 0 q = (Inr tid, q1)" "CancelInLoop os' tid q1 = (res, q2)"
  then show "tq_inv q2 \<and> timers q2 = timers q \<and> current_tick q2 = current_tick q1"
    using Add_cancel [of q os d a 0 tid q1 os' res q2] by (simp add: fresh_external_def)
next
  fix env eff q n w
  assume "quiet env eff" "tq_inv q"
  then show "\<exists>q' log. AdvanceWheel env n (q, w) = Some (q', fold (\<lambda>t. eff (snd t)) log w)
      \<and> tq_inv q' \<and> current_tick q' = current_tick q + n \<and> timers q = mset log + timers q' \<and> sorted (map fst log)
      \<and> (\<forall>t\<in>set log. current_tick q < fst t \<and> fst t \<le> current_tick q + n)
      \<and> (\<forall>t\<in>#timers q'. current_tick q + n < fst t)"
    by (rule AdvanceWheel_exact_log)
qed (use Add_pending in blast)

section \<open>Adding a timer after the last one was cancelled, from a callback\<close>

text \<open>
  \<open>ExpireCurrentBucket\<close> takes the bucket of the tick it started with. When a callback lets \<open>current_tick\<close>
  jump (\<open>SyncCurrentTick\<close>, because the timerfd was disarmed by cancelling the last timer), a timer of
  the new period that lands in that bucket is unlinked and placed into the same bucket for ever.
\<close>

definition stuck :: "nat \<Rightarrow> TimerQueue \<Rightarrow> bool" where
  "stuck b q \<longleftrightarrow> (\<exists>L fs. tq_core q L fs \<and> L 0 b \<noteq> []) \<and> places (stable_pos (current_tick q)) q
     \<and> b < 10 \<and> b \<noteq> (current_tick q + 1) mod 10"

lemma stuck_step:
  assumes "stuck b q"
  shows "head (bucket_at q 0 b) \<noteq> kInvalidSlot" "\<exists>q'. expire_step env b (q, w) = (q', w) \<and> stuck b q'"
proof -
  from assms obtain L fs s xs where core: "tq_core q L fs" and L: "L 0 b = [] @ s # xs" and b: "b < 10" "(0 :: nat) < 4"
    and pl: "places (stable_pos (current_tick q)) q" "b \<noteq> (current_tick q + 1) mod 10"
    by (auto simp: stuck_def neq_Nil_conv)
  let ?c = "current_tick q"
  note s = tq_core_member [OF core b(2,1), of s, unfolded L, simplified]
  have hd: "head (bucket_at q 0 b) = s" using bucket_head [OF tq_coreD(1) [OF core] b(2,1)] L by simp
  with s(2) show "head (bucket_at q 0 b) \<noteq> kInvalidSlot" by simp
  define D where "D = DeadlineTick q (deadline (slots q ! s))"
  have act: "s \<in> active_slots q" using s by (simp add: active_slots_def)
  have D: "?c < D" "D < ?c + 10" "b = D mod 10"
    using placesD [OF pl(1) act] s(4,5) pl(2) by (auto simp: stable_pos_def lo_ok_def slot_tick_def D_def)
  have lv: "wheel_level_for (D - ?c) = 0" "place_bucket ?c D = b" "place_rounds ?c D = 0"
    using D by (simp_all add: wheel_level_for_def place_bucket_def place_rounds_def)
  define q' where "q' = PlaceTimerSlot s D (UnlinkTimerSlot s q)"
  have cur: "current_tick (UnlinkTimerSlot s q) = ?c" using restD(4) [OF Unlink_rest(1)] .
  have q': "q' = LinkTimerSlot s 0 b (upd_slot s (\<lambda>slot. slot\<lparr>wheel_rounds := 0\<rparr>) (UnlinkTimerSlot s q))"
    unfolding q'_def Place_eq cur lv ..
  note mv = move_slot [OF core b(2,1) b(2,1) L, where r = 0, folded q']
  have step: "expire_step env b (q, w) = (q', w)"
    using D(1) by (simp add: expire_step_def Let_def hd q'_def D_def)
  have "places (stable_pos ?c) q'"
    unfolding places_def
  proof (intro ballI)
    fix i
    assume "i \<in> active_slots q'"
    then have i: "i \<in> active_slots q" "i < length (slots q)"
      using active_slots_same [OF mv(2)] by (auto simp: active_slots_def)
    show "stable_pos ?c (wheel_level (slots q' ! i)) (DeadlineTick q' (deadline (slots q' ! i)))
        (bucket_index (slots q' ! i)) (wheel_rounds (slots q' ! i))"
      using mv(3) [OF i(2)] placesD [OF pl(1) i(1)] s(4,5) same_timers_slot(1) [OF mv(2) i(2)]
        same_timers_tick(2) [OF mv(2)]
      by (cases "i = s") (auto simp: slot_tick_def stable_pos_def)
  qed
  then have "stuck b q'"
    using mv(1) same_timers_tick(1) [OF mv(2)] b(1) pl(2) unfolding stuck_def by auto
  with step show "\<exists>q'. expire_step env b (q, w) = (q', w) \<and> stuck b q'" by blast
qed

lemma stuck_diverges:
  fixes env :: "'a timer_env"
  assumes "stuck b q"
  shows "expire_loop env b (q, w) = None"
proof -
  have "\<not> stuck b (fst qw)" if "expire_loop env b qw = Some r" for qw r
  proof (rule expire_loop.raw_induct [of "\<lambda>env b qw r. \<not> stuck b (fst qw)", OF _ that])
    fix loop :: "'a timer_env \<Rightarrow> nat \<Rightarrow> TimerQueue \<times> 'a \<Rightarrow> (TimerQueue \<times> 'a) option"
    fix env :: "'a timer_env" and b qw r
    assume ih: "\<And>env b qw r. loop env b qw = Some r \<Longrightarrow> \<not> stuck b (fst qw)"
      and body: "(if head (bucket_at (fst qw) 0 b) = kInvalidSlot then Some qw else loop env b (expire_step env b qw)) = Some r"
    obtain q w where qw: "qw = (q, w)" by (cases qw)
    show "\<not> stuck b (fst qw)"
    proof
      assume st: "stuck b (fst qw)"
      then obtain q' where q': "expire_step env b (q, w) = (q', w)" "stuck b q'"
        using stuck_step(2) [of b q env w] qw by auto
      from body qw stuck_step(1) [of b q] st q'(1) have "loop env b (q', w) = Some r" by simp
      from ih [OF this] q'(2) show False by simp
    qed
  qed
  with assms show ?thesis by (metis fst_conv not_None_eq)
qed

lemma wrong_bucket_diverges:
  assumes "tq_inv q" "b < 10" "b \<noteq> (current_tick q + 1) mod 10"
    and "s \<in> active_slots q" "wheel_level (slots q ! s) = 0" "bucket_index (slots q ! s) = b"
  shows "expire_loop env b (q, w) = None"
proof (rule stuck_diverges)
  from assms(1) obtain L fs where core: "tq_core q L fs" and pl: "places (stable_pos (current_tick q)) q"
    by (auto simp: tq_inv_def tq_ok_def)
  have "s \<in> set (L 0 b)" using tq_core_linked(3) [OF core, of s] assms(4-6) by (simp add: active_slots_def)
  then have "L 0 b \<noteq> []" by auto
  with core pl assms(2,3) show "stuck b q" by (auto simp: stuck_def)
qed

section \<open>A concrete queue\<close>

definition demo_os :: "int \<Rightarrow> timer_os" where
  "demo_os t = \<lparr>clock_now = t, clock_arm = t, settime_ok = True\<rparr>"

text \<open>An environment that records the functors it runs.\<close>

definition demo_env :: "nat list timer_env" where
  "demo_env = \<lparr>run_callable = \<lambda>c (q, w). (q, w @ [c]), run_handler = \<lambda>h owner tk (q, w). (q, w @ [h]),
     owner_alive = \<lambda>w owner. True\<rparr>"

definition demo_eff :: "TimerAction \<Rightarrow> nat list \<Rightarrow> nat list" where
  "demo_eff a w = (case a of Functor (Some c) \<Rightarrow> w @ [c] | Functor None \<Rightarrow> w
     | Notify n \<Rightarrow> (case handler n of None \<Rightarrow> w | Some h \<Rightarrow> w @ [h]))"

lemma demo_quiet: "quiet demo_env demo_eff"
  by (auto simp: quiet_def demo_env_def demo_eff_def InvokeAction_def TimerNotify_Invoke_def
      split: TimerAction.splits option.splits)

text \<open>One timer, due 25 milliseconds after the epoch.\<close>

definition demo_add :: "(timer_exn + TimerId) \<times> TimerQueue" where
  "demo_add = AddTimerInLoop (demo_os 0) 25000000 (Functor (Some 7)) 0 (TimerQueue_new 0)"

definition demo_queue :: TimerQueue where
  "demo_queue = snd demo_add"

lemma demo_add_ok: "\<exists>tid. demo_add = (Inr tid, demo_queue)" "current_tick demo_queue = 0" "wheel_epoch demo_queue = 0"
proof -
  have new: "length (slots (TimerQueue_new 0)) < 2 ^ 31 - 1" "settime_ok (demo_os 0)"
    by (simp_all add: TimerQueue_new_def demo_os_def)
  have c: "current_tick (if timer_fd_armed (TimerQueue_new 0) then TimerQueue_new 0
      else SyncCurrentTick (demo_os 0) (TimerQueue_new 0)) = 0"
    by (simp add: TimerQueue_new_def SyncCurrentTick_def duration_cast_ms_def demo_os_def)
  obtain tid q' where add: "demo_add = (Inr tid, q')" "current_tick q' = 0"
    using Add_succeeds [OF tq_inv_new new(2,1), of 25000000 "Functor (Some 7)" 0] unfolding c demo_add_def by blast
  have dq: "demo_queue = q'" unfolding demo_queue_def add(1) by simp
  from add show "\<exists>tid. demo_add = (Inr tid, demo_queue)" "current_tick demo_queue = 0" unfolding dq by blast+
  show "wheel_epoch demo_queue = 0"
    using Add_epoch [OF add(1) [unfolded demo_add_def]] unfolding dq by (simp add: TimerQueue_new_def)
qed

lemma timers_new: "timers (TimerQueue_new epoch) = {#}"
  by (simp add: timers_def active_slots_def TimerQueue_new_def)

lemma demo_inv: "tq_inv demo_queue" "timers demo_queue = {#(25, Functor (Some 7))#}"
proof -
  obtain tid where "demo_add = (Inr tid, demo_queue)" using demo_add_ok(1) by blast
  from Add_pending [OF tq_inv_new this [unfolded demo_add_def]]
  show "tq_inv demo_queue" "timers demo_queue = {#(25, Functor (Some 7))#}"
    using demo_add_ok(2,3) by (auto simp: timers_new due_tick_def sched_tick_def DeadlineTick_def ceil_ms_def)
qed

lemma demo_add_eq: "\<exists>tid. AddTimerInLoop (demo_os 0) 25000000 (Functor (Some 7)) 0 (TimerQueue_new 0) = (Inr tid, demo_queue)"
  using demo_add_ok(1) by (simp add: demo_add_def)

section \<open>Properties\<close>



text \<open>C25: \<open>AddTimerInLoop\<close> keeps the invariant and either makes exactly one more timer pending, at its deadline tick or
  at the next tick when that has passed, with the timerfd armed, or fails and leaves the pending timers as they were. It
  succeeds when the timerfd can be armed and the slots are not exhausted.\<close>

theorem AddTimerInLoop_pending:
  assumes "tq_inv q" "AddTimerInLoop os d act e q = (res, q')"
  shows "tq_inv q' \<and> (case res of
      Inl err \<Rightarrow> timers q' = timers q \<and> (settime_ok os \<longrightarrow> 2 ^ 31 - 1 \<le> length (slots q))
    | Inr tid \<Rightarrow> timer_fd_armed q' \<and>
        timers q' = add_mset (max (DeadlineTick q d) (current_tick q' + 1), act) (timers q))"
proof -
  have "sched_tick c D = max D (c + 1)" for c D by (simp add: sched_tick_def max_def)
  moreover have "2 ^ 31 - 1 \<le> length (slots q)" if "settime_ok os" "res = Inl err" for err
    using Add_succeeds [OF assms(1) that(1)] assms(2) that(2) by (metis Inl_Inr_False linorder_not_less prod.inject)
  ultimately show ?thesis using Add_inv [OF assms] by (auto split: sum.splits)
qed

theorem AddTimerInLoop_pending_witness:
  "tq_inv (TimerQueue_new 0) \<and> tq_inv demo_queue \<and> timer_fd_armed demo_queue \<and> timers demo_queue = {#(25, Functor (Some 7))#}"
proof -
  obtain tid where "AddTimerInLoop (demo_os 0) 25000000 (Functor (Some 7)) 0 (TimerQueue_new 0) = (Inr tid, demo_queue)"
    using demo_add_eq by blast
  from AddTimerInLoop_pending [OF tq_inv_new this] tq_inv_new demo_inv(2) show ?thesis by simp
qed

text \<open>A timer that is cancelled with the identifier \<open>AddTimerInLoop\<close> returned never fires: turning the wheel
  afterwards runs exactly what was pending before it was added.\<close>

theorem cancelled_timer_never_fires:
  assumes "quiet env eff" "tq_inv q" "AddTimerInLoop os d act 0 q = (Inr tid, q1)" "CancelInLoop os' tid q1 = (res, q2)"
  shows "\<exists>q' log. AdvanceWheel env n (q2, w) = Some (q', fold (\<lambda>t. eff (snd t)) log w)
    \<and> mset log = filter_mset (\<lambda>t. fst t \<le> current_tick q1 + n) (timers q)"
  using assms by (rule tq.cancelled_never_fires)

theorem cancelled_timer_never_fires_witness:
  "\<exists>tid res q2 q'. AddTimerInLoop (demo_os 0) 25000000 (Functor (Some 7)) 0 (TimerQueue_new 0) = (Inr tid, demo_queue)
    \<and> CancelInLoop (demo_os 0) tid demo_queue = (res, q2) \<and> AdvanceWheel demo_env 30 (q2, []) = Some (q', [])"
proof -
  obtain tid where add: "AddTimerInLoop (demo_os 0) 25000000 (Functor (Some 7)) 0 (TimerQueue_new 0) = (Inr tid, demo_queue)"
    using demo_add_eq by blast
  obtain res q2 where cancel: "CancelInLoop (demo_os 0) tid demo_queue = (res, q2)" by fastforce
  from cancelled_timer_never_fires [OF demo_quiet tq_inv_new add cancel, of 30 "[]"]
  obtain q' where "AdvanceWheel demo_env 30 (q2, []) = Some (q', [])" by (auto simp: timers_new)
  with add cancel show ?thesis by blast
qed

text \<open>C24: \<open>HandleRead\<close> returns for every outcome of the read, keeps the invariant, changes nothing when the read failed,
  advances by the number of expirations that were read, and disarms the timerfd when no timer is left, with callbacks
  that add and cancel timers while the queue is armed.\<close>

theorem HandleRead_total:
  assumes "well_behaved env" "tq_inv q"
  shows "\<exists>err q' w'. TimerQueue_HandleRead os env n (q, w) = Some (err, q', w') \<and> tq_inv q'
    \<and> (case n of
         Inl e \<Rightarrow> q' = q \<and> w' = w \<and> (err = None \<longleftrightarrow> e = EAGAIN \<or> e = EINTR)
       | Inr k \<Rightarrow> current_tick q' = current_tick q + k
           \<and> (settime_ok os \<longrightarrow> err = None \<and> (timer_fd_armed q' \<longrightarrow> timers q' \<noteq> {#})))"
proof (cases n)
  case (Inl e)
  with assms show ?thesis by (auto simp: TimerQueue_HandleRead_def)
next
  case (Inr k)
  obtain q1 w1 where q1: "AdvanceWheel env k (q, w) = Some (q1, w1)" "tq_inv q1" "current_tick q1 = current_tick q + k"
    using AdvanceWheel_ok [OF assms] by blast
  show ?thesis
  proof (cases "active_timer_count q1 = 0")
    case False
    then have "timers q1 \<noteq> {#}"
      using tq_ok_count [OF q1(2) [unfolded tq_inv_def]] by (simp add: timers_def mset_set_empty_iff)
    with Inr q1 False show ?thesis by (auto simp: TimerQueue_HandleRead_def)
  next
    case True
    show ?thesis
    proof (cases "DisarmTimerFd os q1")
      case (Inl e)
      then have "\<not> settime_ok os" by (auto simp: DisarmTimerFd_def split: if_splits)
      with \<open>n = Inr k\<close> q1 True Inl show ?thesis by (auto simp: TimerQueue_HandleRead_def)
    next
      case (Inr q2)
      have f: "fd_eq q1 q2" "\<not> timer_fd_armed q2" "current_tick q2 = current_tick q1" using Disarm_cases [OF Inr] by auto
      have "tq_inv q2" unfolding tq_inv_def by (rule empty_ok(1) [OF q1(2) [unfolded tq_inv_def] f(1) True])
      with \<open>n = Inr k\<close> q1 True Inr f show ?thesis by (auto simp: TimerQueue_HandleRead_def)
    qed
  qed
qed

text \<open>A callback that starts its timer again, as a heartbeat does.\<close>

definition demo_periodic :: "unit timer_env" where
  "demo_periodic = \<lparr>run_callable = \<lambda>c (q, w).
       (if timer_fd_armed q then snd (AddTimerInLoop (demo_os 0) (int (current_tick q + 5) * 1000000) (Functor (Some c)) 0 q) else q, w),
     run_handler = \<lambda>h owner tk qw. qw, owner_alive = \<lambda>w owner. True\<rparr>"

lemma demo_periodic_ok: "well_behaved demo_periodic"
  unfolding well_behaved_def
proof (intro allI)
  fix act q w
  have "loop_ops q (snd (AddTimerInLoop os d a e q))" if "timer_fd_armed q" for os d a e
    using loop_ops.add [OF loop_ops.idle that, of os d a e] by (metis prod.collapse)
  then show "loop_ops q (fst (InvokeAction demo_periodic act (q, w)))"
    by (auto simp: InvokeAction_def TimerNotify_Invoke_def demo_periodic_def loop_ops.idle
        split: TimerAction.splits option.splits)
qed

theorem HandleRead_total_witness:
  "well_behaved demo_periodic \<and> tq_inv demo_queue
   \<and> (\<exists>err q' w'. TimerQueue_HandleRead (demo_os 0) demo_periodic (Inr 40) (demo_queue, ()) = Some (err, q', w')
        \<and> current_tick q' = 40)"
  using HandleRead_total [OF demo_periodic_ok demo_inv(1), of "demo_os 0" "Inr 40" "()"] demo_periodic_ok demo_inv(1) demo_add_ok(2)
  by auto

lemma Remove_external: "active (slots q ! s) \<Longrightarrow> external_timer_slots (RemoveTimerSlot s q) = external_timer_slots (forget_external s q)"
  using restD(8) [OF Unlink_rest(1)] by (simp add: RemoveTimerSlot_def Let_def forget_external_def)

lemma Remove_not_target:
  assumes ok: "tq_ok pos q" and t: "cancel_target q tid = Some s"
  shows "cancel_target (RemoveTimerSlot s q) tid = None"
proof -
  have act: "s \<in> active_slots q" by (rule cancel_target_active [OF ok t])
  from ok obtain L fs where core: "tq_core q L fs" by (auto simp: tq_ok_def)
  have gone: "s \<notin> active_slots (RemoveTimerSlot s q)" using Remove_ok(2) [OF core act] by simp
  show ?thesis
  proof (cases "IsExternalTimerId tid")
    case True
    then have "external_timer_id (slots q ! s) = tid" "tid \<noteq> 0"
      using t tq_coreD(4) [OF core] by (auto simp: cancel_target_def ext_ok_def)
    with True act show ?thesis by (simp add: cancel_target_def Remove_external active_slots_def forget_external_def)
  next
    case False
    then obtain g where "DecodeSlotTimerId tid = Some (s, g)" using t by (auto simp: cancel_target_def split: option.splits if_splits)
    with False gone show ?thesis by (auto simp: cancel_target_def active_slots_def)
  qed
qed

text \<open>C26: Cancelling removes at most the timer that the identifier names and keeps the invariant; cancelling again with
  the same identifier does nothing.\<close>

theorem CancelInLoop_once:
  assumes "tq_inv q" "CancelInLoop os tid q = (res, q1)"
  shows "tq_inv q1 \<and> CancelInLoop os' tid q1 = (None, q1)
    \<and> timers q1 = (case cancel_target q tid of None \<Rightarrow> timers q | Some s \<Rightarrow> timers q - {#timer_of q s#})"
proof -
  note ok = assms(1) [unfolded tq_inv_def]
  have "cancel_target q1 tid = None"
  proof (cases "cancel_target q tid")
    case None
    with assms(2) show ?thesis by (simp add: Cancel_eq)
  next
    case (Some s)
    have "q1 = RemoveTimerSlot s q \<or> fd_eq (RemoveTimerSlot s q) q1"
      using assms(2) Some Disarm_cases [of os "RemoveTimerSlot s q"] by (auto simp: Cancel_eq Let_def split: if_splits sum.splits)
    with Remove_not_target [OF ok Some] fd_eq_target show ?thesis by auto
  qed
  with Cancel_ok(1,2,4) [OF ok assms(2)] show ?thesis by (simp add: tq_inv_def Cancel_eq)
qed

theorem CancelInLoop_once_witness:
  "\<exists>tid res q1. cancel_target demo_queue tid \<noteq> None \<and> CancelInLoop (demo_os 0) tid demo_queue = (res, q1)
     \<and> timers q1 = {#} \<and> CancelInLoop (demo_os 0) tid q1 = (None, q1)"
proof -
  obtain tid where add: "AddTimerInLoop (demo_os 0) 25000000 (Functor (Some 7)) 0 (TimerQueue_new 0) = (Inr tid, demo_queue)"
    using demo_add_eq by blast
  obtain s where s: "cancel_target demo_queue tid = Some s" using Add_target [OF tq_inv_new add] by (auto simp: fresh_external_def)
  obtain res q1 where cancel: "CancelInLoop (demo_os 0) tid demo_queue = (res, q1)" by fastforce
  have "timer_of demo_queue s \<in># timers demo_queue"
    by (rule timer_of_in [OF cancel_target_active [OF demo_inv(1) [unfolded tq_inv_def] s]])
  with CancelInLoop_once [OF demo_inv(1) cancel, of "demo_os 0"] s cancel show ?thesis
    by (intro exI [of _ tid] exI [of _ res] exI [of _ q1]) (simp add: demo_inv)
qed

text \<open>The identifier of a slot and a generation decodes to both, is valid and is not an external one.\<close>

theorem timer_id_roundtrip:
  assumes "s < 2 ^ 31 - 1" "g \<noteq> 0"
  shows "DecodeSlotTimerId (MakeSlotTimerId s g) = Some (s, g) \<and> \<not> IsExternalTimerId (MakeSlotTimerId s g)
    \<and> TimerId_Valid (MakeSlotTimerId s g)"
  using Decode_Make [OF assms] by blast

theorem timer_id_roundtrip_witness:
  "DecodeSlotTimerId (MakeSlotTimerId 2147483646 0xffffffff) = Some (2147483646, 0xffffffff)"
  using timer_id_roundtrip [of 2147483646 "0xffffffff"] by simp

text \<open>C28: The tick of a deadline is the first tick that is not before it: no timer fires early, and none is
  scheduled more than a millisecond late.\<close>

theorem deadline_tick_exact:
  "d \<le> wheel_epoch q + int (DeadlineTick q d) * 1000000
   \<and> (wheel_epoch q < d \<longrightarrow> wheel_epoch q + (int (DeadlineTick q d) - 1) * 1000000 < d)"
  using ceil_ms_bounds [of "d - wheel_epoch q"] by (auto simp: DeadlineTick_def algebra_simps)

theorem deadline_tick_exact_witness:
  "wheel_epoch (TimerQueue_new 0) < 1 \<and> DeadlineTick (TimerQueue_new 0) 1 = 1
   \<and> 1 \<le> wheel_epoch (TimerQueue_new 0) + int (DeadlineTick (TimerQueue_new 0) 1) * 1000000"
  using deadline_tick_exact [of 1 "TimerQueue_new 0"]
  by (simp add: TimerQueue_new_def DeadlineTick_def ceil_ms_def)



text \<open>Arming never programs a zero expiry (which would disarm the timerfd): the first expiry is the next tick, or one
  nanosecond when that has passed, split into seconds and nanoseconds, with a period of one millisecond.\<close>

theorem ArmTimerFd_positive:
  assumes "\<not> timer_fd_armed q" "ArmTimerFd os q = Inr q'"
  shows "timer_fd_armed q' \<and> it_interval_nsec (timer_fd_spec q') = 1000000
    \<and> 0 \<le> it_value_nsec (timer_fd_spec q') \<and> it_value_nsec (timer_fd_spec q') < 1000000000
    \<and> it_value_sec (timer_fd_spec q') * 1000000000 + it_value_nsec (timer_fd_spec q')
      = max 1 (wheel_epoch q + int (current_tick q + 1) * 1000000 - clock_arm os)"
  using assms by (auto simp: ArmTimerFd_def Let_def max_def split: if_splits)

theorem ArmTimerFd_positive_witness:
  "\<exists>q'. ArmTimerFd (demo_os 999) (TimerQueue_new 0) = Inr q' \<and> it_value_nsec (timer_fd_spec q') = 999001"
  using ArmTimerFd_positive [of "TimerQueue_new 0" "demo_os 999"]
  by (auto simp: ArmTimerFd_def TimerQueue_new_def demo_os_def Let_def)

end
