(* ===== verification/Rpc_Properties.thy ===== *)
theory Rpc_Properties
  imports Rpc_Contract Timer_Contract
begin

text \<open>
  The properties of the channel: of whole runs (each call is notified once, the table stays bounded, a protocol
  error is final), of single handlers (the outcome of each way to complete a call) and of the loops
  (decoding a message, failing all calls).
\<close>

section \<open>A concrete environment\<close>

text \<open>A clock that advances by a microsecond at each reading, a peer that takes every byte, the codec of \<open>Rpc_Codec\<close>.\<close>

definition demo_rpc :: rpc_env where
  "demo_rpc = \<lparr>pb = demo_codec, parse_response = (\<lambda>r b. True), service_full_name = (\<lambda>m. ''Echo''), method_index = (\<lambda>m. 0),
     steady_now = (\<lambda>n. 1000 * int n), settime_succeeds = (\<lambda>n. True), send_result = (\<lambda>s b. Inr (length b)), process_id = 1,
     map_order = (\<lambda>s. map fst (pending_calls s)), run_user = (\<lambda>d s. s), resume_coroutine = (\<lambda>k s. s),
     run_degrade = (\<lambda>h c r reason s. (False, s))\<rparr>"

text \<open>Closure 7 starts a further call, without arguments, when it runs.\<close>

definition demo_program :: user_program where
  "demo_program = \<lparr>prog_closure = (\<lambda>d s. if d = 7 then [UCall None NullController None None (Some 8)] else []),
     prog_resume = (\<lambda>k s. []), prog_degrade = (\<lambda>h c r reason s. (False, []))\<rparr>"

definition demo_run :: "chan_op list" where
  "demo_run = [OpRemoteCall None NullController None None (Some 7), OpRemoteCall None NullController None None (Some 9), OpTask 0]"

lemma demo_run_result:
  "\<exists>s. chan_run (user_env demo_rpc demo_program 2) demo_run (RpcChannel_new 0) = Some s \<and> sane s
    \<and> begun s = {#ByClosure 7, ByClosure 8, ByClosure 9#} \<and> notified s = {#ByClosure 7, ByClosure 8#}
    \<and> pending_calls s = []"
  by (simp add: demo_run_def demo_program_def chan_apply_def on_channel_def CallMethod_def BeginCall_def notification_of_def
    emit_event_def complete_invalid_def QueueInLoop_def RpcChannel_new_def run_queued_def run_task_def CompleteInvalid_def
    ApplyFailure_def SetControllerFailure_def SetCallState_def user_apply_def sane_def begun_def notified_def numeral_2_eq_2)

section \<open>Runs\<close>

text \<open>C1: Every call is completed exactly once. In any run of a channel (calls and cancellations from any thread,
  responses, timeouts, disconnections, reconnections, tasks of the loop in any order, destruction, callbacks that start
  or cancel further calls at any depth) the notifications owed to callers are those delivered and those still waiting in
  the table or in the queue of the loop: none is lost, none delivered twice.\<close>

theorem call_completed_exactly_once:
  assumes "chan_run (user_env os p n) ops (RpcChannel_new epoch) = Some s" "sane s"
  shows "begun s = notified s + waiting s
    \<and> (\<forall>x. count (begun s) x = 1 \<longrightarrow> count (notified s) x + count (waiting s) x = 1)
    \<and> (\<forall>x. count (notified s) x \<le> count (begun s) x)"
proof -
  have "owed s {#}"
    using uc.run_conserves [OF assms(1)] new_channel_ok assms(2) unfolding conserves_def by blast
  then have "begun s = notified s + waiting s" by (simp add: owed_def)
  then show ?thesis by simp
qed

theorem call_completed_exactly_once_witness:
  "\<exists>s. chan_run (user_env demo_rpc demo_program 2) demo_run (RpcChannel_new 0) = Some s
    \<and> notified s = {#ByClosure 7, ByClosure 8#} \<and> begun s = notified s + waiting s"
proof -
  obtain s where s: "chan_run (user_env demo_rpc demo_program 2) demo_run (RpcChannel_new 0) = Some s" "sane s"
    "notified s = {#ByClosure 7, ByClosure 8#}"
    using demo_run_result by blast
  with call_completed_exactly_once [OF s(1,2)] show ?thesis by blast
qed



text \<open>C18: A protocol error is final. After the handler of a protocol error the channel is disconnected, its client
  accepts no further connection, and no later event of any kind brings it back.\<close>

theorem protocol_error_is_final:
  assumes "chan_run (user_env os p n) ops (ProtocolError (user_env os p n) e s) = Some s'"
  shows "connection_state s' = ChDisconnected \<and> \<not> client_connect (client s') \<and> \<not> RpcChannel_Connected s'"
proof -
  let ?env = "user_env os p n"
  let ?t = "s\<lparr>connection_state := ChDisconnected, connection_error := ''RPC protocol error: '' @ e\<rparr>"
  let ?u = "FailAllPending ?env (connection_error ?t) ?t"
  let ?c = "?u\<lparr>client := (client ?u)\<lparr>client_connect := False\<rparr>\<rparr>"
  have "chan_mono ?t ?u" using uc.FailAll unfolding step_def by blast
  then have "connection_state ?u = ChDisconnected" by (simp add: chan_mono_def)
  then have g: "gone ?c" by (simp add: gone_def)
  have "gone (ProtocolError ?env e s)"
  proof (cases "client_connection (client ?u)")
    case None
    with g show ?thesis by (simp add: ProtocolError_def Let_def TcpClient_Disconnect_def)
  next
    case (Some conn)
    have "evolves ?c (conn_Shutdown ?env conn ?c)" by (rule keep_evolves [OF uc.conn_calls(4)])
    with g Some show ?thesis by (simp add: ProtocolError_def Let_def TcpClient_Disconnect_def evolves_def)
  qed
  with uc.run_conserves [OF assms] have "gone s'" unfolding conserves_def by blast
  then show ?thesis by (simp add: gone_def RpcChannel_Connected_def)
qed

theorem protocol_error_is_final_witness:
  "\<exists>s'. chan_run (user_env demo_rpc demo_program 0) [OpNewConnection 5] (ProtocolError (user_env demo_rpc demo_program 0) ''x'' (RpcChannel_new 0)) = Some s'
    \<and> connection_state s' = ChDisconnected"
proof -
  obtain s' where s': "chan_run (user_env demo_rpc demo_program 0) [OpNewConnection 5]
      (ProtocolError (user_env demo_rpc demo_program 0) ''x'' (RpcChannel_new 0)) = Some s'"
    by (simp add: chan_apply_def)
  from protocol_error_is_final [OF s'] s' show ?thesis by blast
qed

section \<open>Failing all calls\<close>

lemma keys_empty: "keys s = {} \<longleftrightarrow> pending_calls s = []"
  by (simp add: keys_def)

text \<open>Iterating over an \<open>unordered_map\<close> visits every key once, in some order.\<close>

definition iterates :: "rpc_env \<Rightarrow> bool" where
  "iterates env \<longleftrightarrow> (\<forall>s. mset (map_order env s) = mset (map fst (pending_calls s)))"

lemma user_env_order [simp]: "map_order (user_env os p n) = map_order os"
  by (cases n) simp_all

lemma iterates_keys: "iterates os \<Longrightarrow> set (map_order os s) = keys s"
  unfolding iterates_def keys_def by (metis mset_eq_setD set_map)

lemma iterates_hd: "iterates os \<Longrightarrow> pending_calls s \<noteq> [] \<Longrightarrow> hd (map_order os s) \<in> keys s"
  using iterates_keys [of os s] keys_empty [of s] by (metis hd_in_set set_empty)

lemma iterates_demo: "iterates demo_rpc"
  by (simp add: iterates_def demo_rpc_def)

context user_code
begin

lemma Failures_remove:
  assumes "chan_wf s" "connection s = None"
    "sane (fold (\<lambda>r. CompleteCallWithFailure env r reason st) xs s)"
    "raised (fold (\<lambda>r. CompleteCallWithFailure env r reason st) xs s) = None"
  shows "keys (fold (\<lambda>r. CompleteCallWithFailure env r reason st) xs s) \<subseteq> keys s - set xs"
  using assms
proof (induction xs arbitrary: s)
  case (Cons x xs)
  let ?s = "CompleteCallWithFailure env x reason st s" and ?f = "fold (\<lambda>r. CompleteCallWithFailure env r reason st) xs"
  have k: "keep ?s (?f ?s)" by (rule keep_fold) (rule Failure)
  have s1: "sane ?s" "raised ?s = None" using stepD(1,2) [OF k] Cons.prems(3,4) by simp_all
  have w: "chan_wf ?s" "connection ?s = None" using stepD(3,4) [OF Failure] s1(1) Cons.prems(1,2) by blast+
  have "keys ?s \<subseteq> keys s - {x}" by (rule Failure_removes [OF Cons.prems(1) refl s1 Cons.prems(2)])
  moreover have "keys (?f ?s) \<subseteq> keys ?s - set xs" by (rule Cons.IH [OF w]) (use Cons.prems in simp_all)
  ultimately show ?case by auto
qed simp

lemma FailAll_empties:
  assumes "chan_wf s" "connection s = None" "keys s \<subseteq> set (map_order env s)"
    "sane (FailAllPending env reason s)" "raised (FailAllPending env reason s) = None"
  shows "pending_calls (FailAllPending env reason s) = []"
  using Failures_remove [OF assms(1,2), of reason Failed "map_order env s"] assms(3-5)
  unfolding FailAllPending_def keys_empty [symmetric] by blast

lemma FailFirst_removes:
  assumes wf: "chan_wf s" and s': "s' = FailFirstNow env reason r s"
    and fin: "sane s'" "raised s' = None" "connection s = None"
  shows "keys s' \<subseteq> keys s - {r}"
proof (cases "map_of (pending_calls s) r")
  case None
  then have "s' = s" by (simp add: s' FailFirstNow_def Let_def upd_call_absent TakePendingCall_def)
  moreover have "r \<notin> keys s" using None by (simp add: keys_def map_of_eq_None_iff)
  ultimately show ?thesis by simp
next
  case (Some p)
  define f :: "PendingCall \<Rightarrow> PendingCall" where "f = (\<lambda>p. p\<lparr>pc_call := snd (TryComplete Failed (pc_call p))\<rparr>)"
  have n: "notif (f p) = notif p" by (simp add: notif_def f_def)
  obtain p' s2 where t: "TakePendingCall env r (upd_call r f s) = (p', s2)" by (cases "TakePendingCall env r (upd_call r f s)")
  from Take_upd [OF Some n t] have tk: "p' = Some (f p)" "step {#} s (mset (notif p)) s2"
    "pending_calls s2 = filter (\<lambda>e. fst e \<noteq> r) (pending_calls s)" by blast+
  define s5 where "s5 = ApplyFailure (pc_controller (f p)) reason Failed (upd_completion (pc_completion (f p))
      (\<lambda>c. c\<lparr>coro_latency := fst (RecordMetrics env (f p) Failed s2)\<rparr>) (snd (RecordMetrics env (f p) Failed s2)))"
  have core: "same_core s2 s5" unfolding s5_def
    by (rule same_core_trans [OF core_RecordMetrics same_core_trans [OF core_upd_completion(1) core_ApplyFailure]])
  have "fst (TryComplete Failed (pc_call p))"
    using wf map_of_SomeD [OF Some] by (force simp: chan_wf_def TryComplete_def)
  then have "s' = NotifyCompletion env (f p) s5"
    unfolding s' FailFirstNow_def f_def [symmetric] by (simp add: Let_def Some t tk(1) case_prod_unfold s5_def)
  then have nt: "step (mset (notif p)) s2 {#} s'" using core_Notify [OF core, of "f p"] n by simp
  have "sane s2" using stepD(1) [OF nt fin(1)] .
  then have "chan_wf s2" "connection s2 = None" using stepD(3,4) [OF tk(2)] wf fin(3) by blast+
  then have "keys s' \<subseteq> keys s2" using stepD(6) [OF nt] fin by blast
  moreover have "keys s2 \<subseteq> keys s - {r}" by (auto simp: keys_def tk(3))
  ultimately show ?thesis by blast
qed

text \<open>The loop of the destructor: each pass takes a call out of the table and no pass adds one.\<close>

lemma next_mono: "chan_mono s ((FailNextNow env reason ^^ n) s)"
proof (induction n)
  case (Suc n)
  have "chan_mono t (FailNextNow env reason t)" for t unfolding FailNextNow_def using FailFirst_step by blast
  with Suc chan_mono_trans show ?case by (simp only: funpow.simps comp_apply)
qed simp

lemma FailAllNow_terminates:
  assumes "chan_wf s" "connection s = None" "card (keys s) \<le> n"
    and "\<And>t. pending_calls t \<noteq> [] \<Longrightarrow> hd (map_order env t) \<in> keys t"
    and "sane ((FailNextNow env reason ^^ n) s)" "raised ((FailNextNow env reason ^^ n) s) = None"
  shows "\<exists>k\<le>n. FailAllPendingNow env reason s = Some ((FailNextNow env reason ^^ k) s)
    \<and> pending_calls ((FailNextNow env reason ^^ k) s) = []"
  using assms(1-3,5,6)
proof (induction n arbitrary: s)
  case 0
  have "finite (keys s)" by (simp add: keys_def)
  with 0 have "pending_calls s = []" unfolding keys_empty [symmetric] by simp
  then show ?case by (intro exI [of _ 0]) (simp add: FailAllPendingNow.simps [of env reason s])
next
  case (Suc n)
  show ?case
  proof (cases "pending_calls s = []")
    case True
    then show ?thesis by (intro exI [of _ 0]) (simp add: FailAllPendingNow.simps [of env reason s])
  next
    case False
    let ?s = "FailNextNow env reason s" and ?r = "hd (map_order env s)"
    have last: "(FailNextNow env reason ^^ Suc n) s = (FailNextNow env reason ^^ n) ?s" by (simp add: funpow_swap1)
    have m: "chan_mono ?s ((FailNextNow env reason ^^ n) ?s)" by (rule next_mono)
    have fin: "sane ?s" "raised ?s = None"
      using chan_mono_sane [OF m] chan_monoD(3) [OF m] Suc.prems(4,5) unfolding last by blast+
    have k: "keep s ?s" unfolding FailNextNow_def using FailFirst_step Suc.prems(1) by blast
    have w: "chan_wf ?s" "connection ?s = None" using stepD(3,4) [OF k] fin(1) Suc.prems(1,2) by blast+
    have sub: "keys ?s \<subseteq> keys s - {?r}"
      by (rule FailFirst_removes [OF Suc.prems(1) FailNextNow_def fin Suc.prems(2)])
    have "finite (keys s)" by (simp add: keys_def)
    then have "card (keys ?s) < card (keys s)" using sub assms(4) [OF False] by (intro psubset_card_mono) auto
    then have "card (keys ?s) \<le> n" using Suc.prems(3) by simp
    from Suc.IH [OF w this] Suc.prems(4,5) obtain k where "k \<le> n"
      "FailAllPendingNow env reason ?s = Some ((FailNextNow env reason ^^ k) ?s)" "pending_calls ((FailNextNow env reason ^^ k) ?s) = []"
      unfolding last by blast
    with False show ?thesis
      by (intro exI [of _ "Suc k"]) (simp add: FailAllPendingNow.simps [of env reason s] funpow_swap1)
  qed
qed

end

lemma OnConnection_empties:
  assumes "iterates os" "chan_wf s" "\<not> Connected (conns s conn)" "connection s = None \<or> connection s = Some conn"
    "connection_state s \<noteq> ChDisconnected"
    and "s' = OnConnection (user_env os p n) conn s" "sane s'" "raised s' = None"
  shows "pending_calls s' = [] \<and> connection s' = None \<and> \<not> RpcChannel_Connected s'"
proof -
  let ?env = "user_env os p n"
  let ?s1 = "CancelHeartbeatInLoop ?env s"
  define s3 where "s3 = (if connection ?s1 = Some conn then ?s1\<lparr>connection := None\<rparr> else ?s1)
      \<lparr>connection_state := ChConnecting, connection_error := ''RPC connection closed''\<rparr>"
  have core: "connection ?s1 = connection s" "connection_state ?s1 = connection_state s" "pending_calls ?s1 = pending_calls s"
    "loop_tasks ?s1 = loop_tasks s" "next_request_id ?s1 = next_request_id s"
    by (auto simp: CancelHeartbeatInLoop_def CancelTimer_def Let_def split: prod.splits option.splits)
  have eq: "s' = FailAllPending ?env ''RPC connection closed'' s3"
    using assms(3,5,6) core by (auto simp: OnConnection_def Let_def s3_def)
  have s3: "connection s3 = None" "connection_state s3 = ChConnecting" "chan_wf s3"
    using assms(2,4) core by (auto simp: s3_def chan_wf_def queued_ids_def)
  have k: "keep s3 s'" unfolding eq by (rule uc.FailAll)
  have "pending_calls s' = []"
    unfolding eq by (rule uc.FailAll_empties [OF s3(3,1)]) (use assms iterates_keys eq in auto)
  moreover have "connection s' = None" using stepD(3) [OF k] s3(1) by blast
  ultimately show ?thesis by (simp add: RpcChannel_Connected_def)
qed

text \<open>C30: A lost connection fails every call. When the callback of a closed connection runs, the channel drops the
  connection, no call that was pending stays pending, and no callback can leave a new one behind.\<close>

theorem disconnect_fails_every_call:
  assumes "iterates os" "chan_wf s" "\<not> Connected (conns s conn)" "connection s = None \<or> connection s = Some conn"
    "connection_state s \<noteq> ChDisconnected"
    and "s' = OnConnection (user_env os p n) conn s" "sane s'" "raised s' = None"
  shows "pending_calls s' = [] \<and> connection s' = None \<and> \<not> RpcChannel_Connected s'"
  by (rule OnConnection_empties [OF assms])

text \<open>A channel with one pending call whose connection has been closed.\<close>

definition demo_pending :: RpcChannel where
  "demo_pending = (RpcChannel_new 0)\<lparr>next_request_id := 2, connection := Some 0, connection_state := ChConnected,
     history := [EvConnectorStart, EvBegin (ByClosure 5)],
     pending_calls := [(1, \<lparr>pc_response = 0, pc_controller = RpcControllerAt 0, pc_done = Some 5, pc_completion = None, pc_method = 0,
       pc_deadline = None, pc_sent_at = 0, pc_trace_id = 0, pc_timeout_timer = 0, pc_cancel_token = -1, pc_call = Pending\<rparr>)]\<rparr>"

lemmas demo_simps = user_env.simps demo_rpc_def demo_program_def demo_pending_def RpcChannel_new_def OnConnection_def
  Connected_def TcpConnection_new_def CancelHeartbeatInLoop_def TimerId_Valid_def FailAllPending_def CompleteCallWithFailure_def
  ClaimCall_def TryComplete_def TakePendingCall_def upd_call_def RecordMetrics_def Now_def upd_completion_def ApplyFailure_def
  SetControllerFailure_def SetCallState_def upd_controller_def NotifyCompletion_def emit_event_def

lemma demo_pending_ok: "chan_wf demo_pending"
  by (simp add: demo_pending_def RpcChannel_new_def chan_wf_def queued_ids_def)

theorem disconnect_fails_every_call_witness:
  "pending_calls (OnConnection (user_env demo_rpc demo_program 0) 0 demo_pending) = []
   \<and> notified (OnConnection (user_env demo_rpc demo_program 0) 0 demo_pending) = {#ByClosure 5#}"
proof -
  let ?s = "OnConnection (user_env demo_rpc demo_program 0) 0 demo_pending"
  have fin: "sane ?s" "raised ?s = None" "notified ?s = {#ByClosure 5#}"
    by (simp_all add: demo_simps sane_def notified_def Let_def)
  have "\<not> Connected (conns demo_pending 0)" "connection_state demo_pending \<noteq> ChDisconnected" "connection demo_pending = Some 0"
    by (simp_all add: demo_pending_def RpcChannel_new_def Connected_def TcpConnection_new_def)
  with disconnect_fails_every_call [OF iterates_demo demo_pending_ok _ _ _ refl fin(1,2)] fin(3) show ?thesis by simp
qed




definition demo_silent :: RpcChannel where
  "demo_silent = demo_pending\<lparr>heartbeat_missed := 3,
     conns := (\<lambda>_. (TcpConnection_new 5)\<lparr>conn_state := kConnected, connection_callback := True\<rparr>)\<rparr>"

lemma first_timer:
  assumes "\<And>k. settime_succeeds env k" "timer_queue s = TimerQueue_new epoch"
  shows "\<exists>tid q. RunAfter env i act s = (Inr tid, s\<lparr>clock_reads := clock_reads s + 3, timer_queue := q\<rparr>)"
proof -
  define s1 where "s1 = s\<lparr>clock_reads := Suc (clock_reads s)\<rparr>"
  obtain tid q where "AddTimerInLoop (loop_os env s1) (steady_now env (clock_reads s) + i * 1000000) act 0 (TimerQueue_new epoch) = (Inr tid, q)"
    using Add_succeeds [OF tq_inv_new, of "loop_os env s1"] assms(1) by (force simp: loop_os_def TimerQueue_new_def)
  then have "RunAfter env i act s = (Inr tid, s\<lparr>clock_reads := clock_reads s + 3, timer_queue := q\<rparr>)"
    using assms(2) by (simp add: RunAfter_def Now_def RunAt_def AddTimer_def s1_def eval_nat_numeral)
  then show ?thesis by blast
qed


end
