(* ===== verification/Rpc_Outcomes.thy ===== *)
theory Rpc_Outcomes
  imports Rpc_Properties
begin

text \<open>
  What single handlers of the channel do, branch by branch: the loop over the frames of a message, the outcome that the
  caller finds in the controller when a call ends, and the admission of a call.
\<close>

section \<open>The frames of a message\<close>

text \<open>The reference: handle the frames that \<^const>\<open>decode_all\<close> finds, one after the other, each then removed from the buffer.\<close>

fun deliver :: "rpc_env \<Rightarrow> nat \<Rightarrow> RpcFrame list \<Rightarrow> RpcChannel \<Rightarrow> RpcChannel" where
  "deliver env conn [] s = s"
| "deliver env conn (f # fs) s =
     (let s1 = HandleFrame env f s
      in deliver env conn fs (set_input conn (the (Retrieve (wire_size f) (input_buffer (conns s1 conn)))) s1))"

lemma user_env_pb [simp]: "pb (user_env os p n) = pb os"
  by (cases n) simp_all

context user_code
begin

lemma HandleFrame_input: "input_buffer (conns (HandleFrame env f s) c) = input_buffer (conns s c)"
  using chan_monoD(4) HandleFrame_keep unfolding step_def by blast

lemma ProtocolError_input: "input_buffer (conns (ProtocolError env e s) c) = input_buffer (conns s c)"
  using chan_monoD(4) ProtocolError_keep unfolding step_def by blast

lemma OnMessage_delivers:
  assumes "buf_inv (input_buffer (conns s conn))" "decode_all (pb env) (buf_content (input_buffer (conns s conn))) = (fs, remaining, err)"
  shows "\<exists>s'. OnMessage env conn s = Some s' \<and> buf_content (input_buffer (conns s' conn)) = remaining
    \<and> s' = (case err of None \<Rightarrow> QueueInLoop (TaskFlushConnection conn) (deliver env conn fs s)
            | Some e \<Rightarrow> ProtocolError env e (deliver env conn fs s))"
  using assms
proof (induction "length (buf_content (input_buffer (conns s conn)))" arbitrary: s fs rule: less_induct)
  case less
  let ?b = "input_buffer (conns s conn)"
  let ?c = "buf_content ?b"
  have dec: "Decode (pb env) ?b = Some (decode_bytes (pb env) ?c)" by (rule Decode_content [OF less.prems(1)])
  show ?case
  proof (cases "decode_bytes (pb env) ?c")
    case kNeedMore
    with less.prems dec show ?thesis by (simp add: OnMessage.simps [of env conn s] QueueInLoop_def)
  next
    case (kError e)
    with less.prems dec show ?thesis by (auto simp: OnMessage.simps [of env conn s] ProtocolError_input)
  next
    case (kOk f)
    let ?s = "HandleFrame env f s"
    have w: "8 \<le> wire_size f" "wire_size f \<le> length ?c" using decode_bytes_size [OF kOk] by blast+
    have in_eq: "input_buffer (conns ?s conn) = ?b" by (rule HandleFrame_input)
    obtain b where b: "Retrieve (wire_size f) ?b = Some b" "buf_inv b" "buf_content b = drop (wire_size f) ?c"
      using Retrieve_spec [OF less.prems(1)] w length_buf_content [OF less.prems(1)] by auto
    let ?t = "set_input conn b ?s"
    have t: "input_buffer (conns ?t conn) = b" by (simp add: set_input_def)
    obtain gs where gs: "fs = f # gs" "decode_all (pb env) (buf_content b) = (gs, remaining, err)"
      using less.prems(2) kOk b(3) by (auto split: prod.splits)
    have "length (buf_content (input_buffer (conns ?t conn))) < length ?c" using b(3) w t by simp
    from less.hyps [OF this] b(2) gs(2) t
    have "\<exists>s'. OnMessage env conn ?t = Some s' \<and> buf_content (input_buffer (conns s' conn)) = remaining
      \<and> s' = (case err of None \<Rightarrow> QueueInLoop (TaskFlushConnection conn) (deliver env conn gs ?t)
              | Some e \<Rightarrow> ProtocolError env e (deliver env conn gs ?t))" by simp
    moreover have dl: "deliver env conn fs s = deliver env conn gs ?t" using gs(1) b(1) in_eq by (simp add: Let_def)
    moreover have om: "OnMessage env conn s = OnMessage env conn ?t"
      using dec kOk b(1) in_eq by (simp add: OnMessage.simps [of env conn s] Let_def)
    ultimately show ?thesis unfolding dl om by blast
  qed
qed

end

text \<open>C33: A message is its frames. For every well-formed input buffer the loop over the buffer ends; it hands the complete
  frames of the received bytes to the frame handler, in order and each once, keeps the incomplete rest, and then
  either queues a flush or, on a malformed frame, runs the protocol error handling.\<close>

theorem OnMessage_refines_decode_all:
  assumes "buf_inv (input_buffer (conns s conn))"
    and "decode_all (pb os) (buf_content (input_buffer (conns s conn))) = (fs, remaining, err)"
  shows "\<exists>s'. OnMessage (user_env os p n) conn s = Some s' \<and> buf_content (input_buffer (conns s' conn)) = remaining
    \<and> s' = (case err of None \<Rightarrow> QueueInLoop (TaskFlushConnection conn) (deliver (user_env os p n) conn fs s)
            | Some e \<Rightarrow> ProtocolError (user_env os p n) e (deliver (user_env os p n) conn fs s))"
  using uc.OnMessage_delivers [of s conn os p n] assms by simp

theorem OnMessage_refines_decode_all_witness:
  "\<exists>s'. OnMessage (user_env demo_rpc demo_program 0) 0 (RpcChannel_new 0) = Some s' \<and> loop_tasks s' = [TaskFlushConnection 0]"
proof -
  have b: "buf_inv (input_buffer (conns (RpcChannel_new 0) 0))" "buf_content (input_buffer (conns (RpcChannel_new 0) 0)) = []"
    by (simp_all add: RpcChannel_new_def TcpConnection_new_def)
  have d: "decode_all (pb demo_rpc) [] = ([], [], None)" by (simp add: decode_bytes_def)
  from OnMessage_refines_decode_all [OF b(1) d [folded b(2)], of demo_program 0] show ?thesis
    by (auto simp: QueueInLoop_def RpcChannel_new_def)
qed

section \<open>How a call ends\<close>

text \<open>The state that the code which won a call leaves behind: the call is out of the table, its timer is
  cancelled and its cancellation closure is no longer registered.\<close>

definition released :: "rpc_env \<Rightarrow> u64 \<Rightarrow> PendingCall \<Rightarrow> RpcChannel \<Rightarrow> RpcChannel \<Rightarrow> bool" where
  "released env r p s s' \<longleftrightarrow>
     pending_calls s' = filter (\<lambda>e. fst e \<noteq> r) (pending_calls s)
     \<and> timer_queue s' = (if TimerId_Valid (pc_timeout_timer p)
         then snd (CancelInLoop (loop_os env s) (pc_timeout_timer p) (timer_queue s)) else timer_queue s)
     \<and> (\<forall>k. controllers s' k = (if pc_cancel_token p \<ge> 0 \<and> pc_controller p = RpcControllerAt k
         then fst (RemoveOnCancel (pc_cancel_token p) (controllers s k)) else controllers s k))
     \<and> responses s' = responses s"

lemma CancelTimer_fields [simp]:
  "pending_calls (CancelTimer env t s) = pending_calls s" "controllers (CancelTimer env t s) = controllers s"
  "responses (CancelTimer env t s) = responses s"
  by (auto simp: CancelTimer_def Let_def split: prod.splits option.splits)

lemma CancelTimer_queue: "TimerId_Valid t \<Longrightarrow> timer_queue (CancelTimer env t s) = snd (CancelInLoop (loop_os env s) t (timer_queue s))"
  by (auto simp: CancelTimer_def Cancel_def Let_def split: prod.splits option.splits)

lemma Claim_released:
  assumes "map_of (pending_calls s) r = Some p" "pc_call p = Pending"
  shows "\<exists>s1. ClaimCall env r st s = (Some (p\<lparr>pc_call := st\<rparr>), s1) \<and> released env r p s s1"
proof -
  let ?f = "\<lambda>p. p\<lparr>pc_call := st\<rparr>"
  let ?u = "upd_call r ?f s"
  let ?e = "?u\<lparr>pending_calls := filter (\<lambda>e. fst e \<noteq> r) (pending_calls ?u)\<rparr>"
  have m: "map_of (pending_calls ?u) r = Some (?f p)" using assms(1) by (simp add: map_of_upd_call)
  have e: "?e = s\<lparr>pending_calls := filter (\<lambda>e. fst e \<noteq> r) (pending_calls s)\<rparr>"
    unfolding filter_upd_call by (simp add: upd_call_def)
  have os: "loop_os env (s\<lparr>pending_calls := x\<rparr>) = loop_os env s" for x by (simp add: loop_os_def)
  define s2 where "s2 = (if TimerId_Valid (pc_timeout_timer p) then CancelTimer env (pc_timeout_timer p) ?e else ?e)"
  define s3 where "s3 = (if pc_cancel_token p \<ge> 0
      then (case pc_controller p of RpcControllerAt k \<Rightarrow> upd_controller k (\<lambda>c. fst (RemoveOnCancel (pc_cancel_token p) c)) s2 | _ \<Rightarrow> s2) else s2)"
  have c: "ClaimCall env r st s = (Some (?f p), s3)"
    using assms m by (simp add: ClaimCall_def TryComplete_def TakePendingCall_def Let_def s3_def s2_def split: controller_ref.splits)
  have s2: "pending_calls s2 = filter (\<lambda>e. fst e \<noteq> r) (pending_calls s)" "controllers s2 = controllers s" "responses s2 = responses s"
    "timer_queue s2 = (if TimerId_Valid (pc_timeout_timer p)
       then snd (CancelInLoop (loop_os env s) (pc_timeout_timer p) (timer_queue s)) else timer_queue s)"
    unfolding s2_def e by (simp_all add: CancelTimer_queue os)
  have "released env r p s s3"
    unfolding released_def s3_def using s2 by (auto simp: upd_controller_def split: controller_ref.splits)
  with c show ?thesis by blast
qed

lemma released_controller:
  "released env r p s s' \<Longrightarrow> failed (controllers s' k) = failed (controllers s k) \<and> error_text (controllers s' k) = error_text (controllers s k)
    \<and> canceled (controllers s' k) = canceled (controllers s k)"
  by (auto simp: released_def RemoveOnCancel_def split: list.splits)

lemma metrics_fields [simp]:
  "pending_calls (snd (RecordMetrics env pc st s)) = pending_calls s" "controllers (snd (RecordMetrics env pc st s)) = controllers s"
  "timer_queue (snd (RecordMetrics env pc st s)) = timer_queue s" "responses (snd (RecordMetrics env pc st s)) = responses s"
  by (simp_all add: RecordMetrics_def Now_def Let_def)

lemma completion_fields [simp]:
  "pending_calls (upd_completion k f s) = pending_calls s" "controllers (upd_completion k f s) = controllers s"
  "timer_queue (upd_completion k f s) = timer_queue s" "responses (upd_completion k f s) = responses s"
  by (simp_all add: upd_completion_def split: option.splits)

text \<open>What a caller reads in its controller.\<close>

record outcome =
  out_state :: RpcCallState
  out_failed :: bool
  out_error :: string
  out_canceled :: bool

definition outcome_of :: "RpcController \<Rightarrow> outcome" where
  "outcome_of c = \<lparr>out_state = call_state c, out_failed = failed c, out_error = error_text c, out_canceled = canceled c\<rparr>"

text \<open>The steps that end a call with a frame.\<close>

lemma CompleteCall_released:
  assumes "map_of (pending_calls s) r = Some p" "pc_call p = Pending" "pc_controller p = RpcControllerAt k"
  shows "\<exists>s2. CompleteCallWithFrame env r f s = NotifyCompletion env (p\<lparr>pc_call := Completed\<rparr>) s2
    \<and> pending_calls s2 = filter (\<lambda>e. fst e \<noteq> r) (pending_calls s)
    \<and> (TimerId_Valid (pc_timeout_timer p) \<longrightarrow>
         timer_queue s2 = snd (CancelInLoop (loop_os env s) (pc_timeout_timer p) (timer_queue s)))
    \<and> outcome_of (controllers s2 k) = (outcome_of (controllers s k))\<lparr>out_state := Completed,
         out_failed := (failed (controllers s k) \<or> meta_type (frame_meta f) \<noteq> RESPONSE \<or> \<not> parse_response env (pc_response p) (frame_payload f)),
         out_error := (if meta_type (frame_meta f) = ERROR then meta_error_text (frame_meta f)
                       else if meta_type (frame_meta f) \<noteq> RESPONSE then ''unexpected RPC frame type''
                       else if \<not> parse_response env (pc_response p) (frame_payload f) then ''response protobuf parse failed''
                       else error_text (controllers s k))\<rparr>
    \<and> responses s2 = (if meta_type (frame_meta f) = RESPONSE then (responses s)(pc_response p := Some (frame_payload f)) else responses s)
    \<and> (\<forall>r' g. map_of (pending_calls s) r' = None \<longrightarrow> CompleteCallWithFrame env r' g s = s)"
proof -
  obtain s1 where c: "ClaimCall env r Completed s = (Some (p\<lparr>pc_call := Completed\<rparr>), s1)" and rel: "released env r p s s1"
    using Claim_released [OF assms(1,2)] by blast
  let ?p = "p\<lparr>pc_call := Completed\<rparr>" and ?e = "meta_type (frame_meta f) = ERROR"
  let ?st = "if ?e then Failed else Completed"
  define s3 where "s3 = upd_completion (pc_completion p) (\<lambda>x. x\<lparr>coro_latency := fst (RecordMetrics env ?p ?st s1),
      coro_remote_error_code := (if ?e then meta_error_code (frame_meta f) else 0)\<rparr>) (snd (RecordMetrics env ?p ?st s1))"
  define s2 where "s2 = ApplyFrame env (pc_response p) (RpcControllerAt k) f (SetCallState (RpcControllerAt k) Completed s3)"
  have eq: "CompleteCallWithFrame env r f s = NotifyCompletion env ?p s2"
    using assms(3) by (simp add: CompleteCallWithFrame_def c Let_def case_prod_unfold s2_def s3_def)
  have s3: "pending_calls s3 = filter (\<lambda>e. fst e \<noteq> r) (pending_calls s)" "controllers s3 = controllers s1" "timer_queue s3 = timer_queue s1"
    "responses s3 = responses s"
    using rel by (simp_all add: s3_def released_def)
  note old = released_controller [OF rel, of k]
  have "pending_calls s2 = pending_calls s3" "timer_queue s2 = timer_queue s3"
    "responses s2 = (if meta_type (frame_meta f) = RESPONSE then (responses s3)(pc_response p := Some (frame_payload f)) else responses s3)"
    by (auto simp: s2_def ApplyFrame_def SetCallState_def SetControllerFailure_def upd_controller_def Let_def)
  moreover have "outcome_of (controllers s2 k) = (outcome_of (controllers s k))\<lparr>out_state := Completed,
         out_failed := (failed (controllers s k) \<or> meta_type (frame_meta f) \<noteq> RESPONSE \<or> \<not> parse_response env (pc_response p) (frame_payload f)),
         out_error := (if meta_type (frame_meta f) = ERROR then meta_error_text (frame_meta f)
                       else if meta_type (frame_meta f) \<noteq> RESPONSE then ''unexpected RPC frame type''
                       else if \<not> parse_response env (pc_response p) (frame_payload f) then ''response protobuf parse failed''
                       else error_text (controllers s k))\<rparr>"
    using old s3(2) by (auto simp: s2_def ApplyFrame_def SetCallState_def SetControllerFailure_def upd_controller_def Let_def
      outcome_of_def SetFailed_def MarkCallState_def)
  moreover have "TimerId_Valid (pc_timeout_timer p) \<longrightarrow>
      timer_queue s3 = snd (CancelInLoop (loop_os env s) (pc_timeout_timer p) (timer_queue s))"
    using rel s3(3) by (simp add: released_def)
  moreover have "map_of (pending_calls s) r' = None \<longrightarrow> CompleteCallWithFrame env r' g s = s" for r' g
    by (simp add: CompleteCallWithFrame_def ClaimCall_def)
  ultimately show ?thesis using eq s3 by (intro exI [of _ s2]) simp
qed






definition demo_cancellable :: RpcChannel where
  "demo_cancellable = demo_pending\<lparr>controllers := (\<lambda>_. RpcController_new\<lparr>cancel_callbacks := [(0, CancelCall 1)], next_cancel_token := 1\<rparr>)\<rparr>"


section \<open>Admission\<close>

lemma apply_failure_fields [simp]:
  "pending_calls (ApplyFailure c reason st s) = pending_calls s" "timer_queue (ApplyFailure c reason st s) = timer_queue s"
  "conns (ApplyFailure c reason st s) = conns s" "overload_reject_count (ApplyFailure c reason st s) = overload_reject_count s"
  by (auto simp: ApplyFailure_def SetCallState_def SetControllerFailure_def upd_controller_def split: controller_ref.splits)

lemma apply_failure_outcome:
  "outcome_of (controllers (ApplyFailure (RpcControllerAt k) reason st s) k)
    = (outcome_of (controllers s k))\<lparr>out_state := st, out_failed := True, out_error := reason\<rparr>"
  by (simp add: ApplyFailure_def SetCallState_def SetControllerFailure_def upd_controller_def outcome_of_def SetFailed_def MarkCallState_def)

lemma quiet_fields [simp]:
  "conns (snd (RecordMetrics env pc st s)) = conns s" "conns (upd_completion j f s) = conns s"
  "overload_reject_count (snd (RecordMetrics env pc st s)) = overload_reject_count s"
  "overload_reject_count (upd_completion j f s) = overload_reject_count s"
  "degrade_handler (snd (RecordMetrics env pc st s)) = degrade_handler s" "degrade_handler (upd_completion j f s) = degrade_handler s"
  by (simp_all add: RecordMetrics_def Now_def Let_def upd_completion_def split: option.splits)

text \<open>Why a call is refused, in the order of the checks.\<close>

definition refusal :: "rpc_env \<Rightarrow> PendingCall \<Rightarrow> RpcChannel \<Rightarrow> (string \<times> RpcCallState) option" where
  "refusal env pc s =
     (if connection_state s = ChDisconnected then Some (connection_error s, Failed)
      else if connection_state s = ChConnecting then Some (''RPC connection is not available'', Failed)
      else if max_pending_calls s \<noteq> 0 \<and> max_pending_calls s \<le> length (pending_calls s) then Some (''too many pending rpcs'', Failed)
      else if (\<exists>d. pc_deadline pc = Some d \<and> d \<le> steady_now env (clock_reads s)) then Some (''RPC timeout'', Timeout)
      else None)"


definition demo_call :: PendingCall where
  "demo_call = \<lparr>pc_response = 0, pc_controller = RpcControllerAt 0, pc_done = Some 5, pc_completion = None, pc_method = 0,
     pc_deadline = None, pc_sent_at = 0, pc_trace_id = 0, pc_timeout_timer = 0, pc_cancel_token = -1, pc_call = Pending\<rparr>"


text \<open>A call that passes the checks, step by step.\<close>

lemma RegisterAndSend_admitted:
  assumes "connection_state s = ChConnected" "connection s = Some conn" "Connected (conns s conn)"
    and "max_pending_calls s = 0 \<or> length (pending_calls s) < max_pending_calls s" "pc_deadline pc = None"
    and "pc_controller pc = RpcControllerAt k" "pc_completion pc = None" "\<not> cancel_requested (controllers s k)"
    and "map_of (pending_calls s) r = None" "data \<noteq> []"
    and "buf_inv (output_buffer (conns s conn))" "max_output_buffer_bytes (conns s conn) = 0"
    and "high_watermark (conns s conn) = 0"
    and "s' = RegisterAndSend env r data pc s"
  shows "pending_calls s' = (r, pc\<lparr>pc_cancel_token := next_cancel_token (controllers s k)\<rparr>) # pending_calls s
    \<and> cancel_callbacks (controllers s' k) = cancel_callbacks (controllers s k) @ [(next_cancel_token (controllers s k), CancelCall r)]
    \<and> buf_content (output_buffer (conns s' conn)) = buf_content (output_buffer (conns s conn)) @ data
    \<and> history s' = history s"
proof -
  obtain b where b: "Append data (output_buffer (conns s conn)) = Some b" "buf_content b = buf_content (output_buffer (conns s conn)) @ data"
    using Append_spec [OF assms(11), of data] by blast
  let ?c = "(conns s conn)\<lparr>output_buffer := b\<rparr>"
  let ?k = "(controllers s k)\<lparr>cancel_callbacks := cancel_callbacks (controllers s k) @ [(next_cancel_token (controllers s k), CancelCall r)],
      next_cancel_token := next_cancel_token (controllers s k) + 1\<rparr>"
  define s4 where "s4 = s\<lparr>pending_calls := (r, pc) # pending_calls s, controllers := (controllers s)(k := ?k)\<rparr>"
  have u: "upd_call r (\<lambda>p. p\<lparr>pc_cancel_token := t\<rparr>) s4 = s4\<lparr>pending_calls := (r, pc\<lparr>pc_cancel_token := t\<rparr>) # pending_calls s\<rparr>" for t
    using map_absent [OF assms(9), of "\<lambda>p. p\<lparr>pc_cancel_token := t\<rparr>"] by (simp add: upd_call_def s4_def)
  have w: "Conn_Write True data (conns s conn) = Some (?c, [])"
    using assms(3,10,12,13) b(1)
    by (simp add: Conn_Write_def WriteInLoop_def Connected_def NotifyHighWatermark_def Let_def)
  have reg: "RegisterCancelCallback env r pc (emplace r pc s) = (next_cancel_token (controllers s k), s4)"
    using assms(6-9) by (simp add: RegisterCancelCallback_def emplace_def RegisterOnCancel_def s4_def)
  have m: "map_of (pending_calls s4) r = Some pc" by (simp add: s4_def)
  let ?s5 = "s4\<lparr>pending_calls := (r, pc\<lparr>pc_cancel_token := next_cancel_token (controllers s k)\<rparr>) # pending_calls s\<rparr>"
  have "s' = WriteRegisteredCall env r data ?s5"
    unfolding assms(14) RegisterAndSend_def
    using assms(1,4,5) reg m by (auto simp: RejectIfUnavailable_def RejectIfOverloaded_def RejectIfExpired_def RegisterTimeoutTimer_def u)
  also have "\<dots> = ?s5\<lparr>conns := (conns s)(conn := ?c)\<rparr>"
    using assms(2,3) w by (simp add: WriteRegisteredCall_def s4_def conn_Write_def with_conn_def)
  finally show ?thesis using b(2) by (simp add: s4_def)
qed

definition demo_connected :: RpcChannel where
  "demo_connected = (RpcChannel_new 0)\<lparr>connection := Some 0, connection_state := ChConnected,
     conns := (\<lambda>_. (TcpConnection_new 5)\<lparr>conn_state := kConnected\<rparr>)\<rparr>"

section \<open>Destruction while another thread calls\<close>

lemma remote_call_queues:
  fixes epoch :: int
  defines "s \<equiv> RpcChannel_new epoch"
  shows "\<exists>t. let s1 = CallMethod env False m c req resp (Some d) s in
    loop_tasks s1 = [t] \<and> (\<exists>a b e r. t = TaskInvalid a b e r \<or> (\<exists>x y z. t = TaskRegister x y z))
    \<and> alive_guard s1 \<and> heartbeat_timer s1 = 0 \<and> metrics_timer s1 = 0 \<and> client s1 = client s \<and> pending_calls s1 = []"
proof (cases "m = None \<or> req = None \<or> resp = None")
  case True
  then have "CallMethod env False m c req resp (Some d) s = QueueInLoop (TaskInvalid c (Some d) None ''invalid RPC call arguments'')
      (emit_event (EvBegin (ByClosure d)) s)"
    by (auto simp: CallMethod_def BeginCall_def complete_invalid_def notification_of_def Let_def split: option.splits)
  then show ?thesis by (simp add: QueueInLoop_def emit_event_def s_def RpcChannel_new_def)
next
  case False
  then obtain mm rq rs where some: "m = Some mm" "req = Some rq" "resp = Some rs" by auto
  show ?thesis
    unfolding some CallMethod_def BeginCall_def
    by (auto simp: complete_invalid_def QueueInLoop_def notification_of_def emit_event_def s_def RpcChannel_new_def ResolveDeadline_def
      Now_def GenerateTraceId_def upd_completion_def RpcController_new_def Let_def split: option.splits controller_ref.splits)
qed

text \<open>C40: A call from another thread is not guarded against destruction. The task that such a call leaves in the loop
  refers to the channel itself, not to its alive guard: if the channel is destroyed before the loop runs the task, the task
  uses the destroyed channel.\<close>

theorem remote_call_outlives_channel:
  "\<exists>s. chan_run env [OpRemoteCall m c req resp (Some d), OpDestroy, OpTask 0] (RpcChannel_new epoch) = Some s \<and> dangling s"
proof -
  define s1 where "s1 = CallMethod env False m c req resp (Some d) (RpcChannel_new epoch)"
  obtain t where t: "loop_tasks s1 = [t]" "(\<exists>a b e r. t = TaskInvalid a b e r) \<or> (\<exists>x y z. t = TaskRegister x y z)"
    "alive_guard s1" "heartbeat_timer s1 = 0" "metrics_timer s1 = 0" "client s1 = client (RpcChannel_new epoch)" "pending_calls s1 = []"
    using remote_call_queues [of env m c req resp d epoch] unfolding s1_def [symmetric] Let_def by auto
  let ?s2 = "prepare_destroy env s1"
  have s2: "loop_tasks ?s2 = [t]" "\<not> alive_guard ?s2" "pending_calls ?s2 = []"
    using t by (simp_all add: prepare_destroy_def StopMetricsReport_def StopMetricsInLoop_def CancelHeartbeatInLoop_def
      TimerId_Valid_def TcpClient_destroy_def emit_event_def RpcChannel_new_def)
  have d: "RpcChannel_destroy env s1 = Some ?s2"
    using s2(3) by (simp add: RpcChannel_destroy_def FailAllPendingNow.simps)
  have "chan_run env [OpRemoteCall m c req resp (Some d), OpDestroy, OpTask 0] (RpcChannel_new epoch) = Some (run_queued env 0 ?s2)"
    using t(3) d by (simp add: chan_apply_def on_channel_def s1_def RpcChannel_new_def)
  moreover have "dangling (run_queued env 0 ?s2)"
    using t(2) s2 by (auto simp: run_queued_def run_task_def)
  ultimately show ?thesis by blast
qed

end
