(* ===== verification/Net_Server.thy ===== *)
theory Net_Server
  imports Net_Connection
begin

text \<open>
  \<open>nebula/net/tcp_server.cpp\<close> with \<open>acceptor.cpp\<close>, the loop choice of \<open>event_loop_thread_pool.cpp\<close> and \<open>RunInLoop\<close> and
  \<open>QueueInLoop\<close> of \<open>event_loop.cpp\<close>: a server that accepts connections on its base loop and spreads them
  over the loops of a pool.

  A loop is a number, the base loop is 0, and the thread of a loop has the number of the loop; any other
  number is a thread of the user. Every operation names the thread it runs on. \<open>srv_queue\<close> holds the tasks left to the loops, each
  with its loop, in the order of their arrival. A loop runs the tasks of its own thread before those of other threads, so not in
  this order; here any task may be the next one. The type parameter is the type of
  the tasks of the layer above. What the server tells this layer is appended to \<open>srv_outs\<close>.
\<close>

section \<open>State\<close>

datatype 'u loop_task =
    TaskListen
  | TaskStopAccepting
  | TaskCloseAll
  | TaskEstablish nat
  | TaskRemove nat
  | TaskDestroyed nat
  | TaskConn nat conn_task
  | TaskUpper 'u

datatype server_out = OutAllClosed | OutInitLoop nat

text \<open>
  The names \<open>conn-1\<close>, \<open>conn-2\<close>, ... of the connections are their numbers. \<open>iterator_lost\<close> says that a loop over the
  connections has gone on with an iterator to an erased element.
\<close>

record 'u TcpServer =
  started :: bool
  srv_stopping :: bool
  srv_closing :: bool
  all_closed_callback :: bool
  srv_connection_callback :: bool
  srv_write_complete_callback :: bool
  srv_high_watermark_callback :: bool
  srv_high_watermark :: nat
  srv_max_output_buffer_bytes :: nat
  srv_max_input_buffer_bytes :: nat
  io_loop_init_callback :: bool
  srv_next_connection_id :: nat
  connections :: "nat list"
  pool_started :: bool
  loops :: "nat list"
  next_loop :: nat
  listening :: bool
  accept_channel :: Channel
  srv_conns :: "nat \<Rightarrow> TcpConnection"
  conn_loop :: "nat \<Rightarrow> nat"
  srv_queue :: "(nat \<times> 'u loop_task) list"
  srv_outs :: "server_out list"
  iterator_lost :: bool

text \<open>The environment: results of \<open>send\<close> and the iteration order of \<open>unordered_map\<close>.\<close>

record 'u tcp_env =
  srv_send :: "'u TcpServer \<Rightarrow> nat \<Rightarrow> bytes \<Rightarrow> int + nat"
  srv_order :: "nat list \<Rightarrow> nat list"

definition TcpServer_new :: "int \<Rightarrow> 'u TcpServer" where
  "TcpServer_new fd = \<lparr>started = False, srv_stopping = False, srv_closing = False, all_closed_callback = False,
     srv_connection_callback = False, srv_write_complete_callback = False, srv_high_watermark_callback = False,
     srv_high_watermark = 0, srv_max_output_buffer_bytes = 0, srv_max_input_buffer_bytes = 0, io_loop_init_callback = False,
     srv_next_connection_id = 1, connections = [], pool_started = False, loops = [], next_loop = 0,
     listening = False, accept_channel = Channel_new fd, srv_conns = (\<lambda>_. TcpConnection_new (-1)),
     conn_loop = (\<lambda>_. 0), srv_queue = [], srv_outs = [], iterator_lost = False\<rparr>"

definition kBaseLoop :: nat where "kBaseLoop = 0"

section \<open>Loops\<close>

definition srv_QueueInLoop :: "nat \<Rightarrow> 'u loop_task \<Rightarrow> 'u TcpServer \<Rightarrow> 'u TcpServer" where
  "srv_QueueInLoop l t s = s\<lparr>srv_queue := srv_queue s @ [(l, t)]\<rparr>"

definition srv_RunInLoop ::
  "nat \<Rightarrow> nat \<Rightarrow> ('u TcpServer \<Rightarrow> 'u TcpServer) \<Rightarrow> 'u loop_task \<Rightarrow> 'u TcpServer \<Rightarrow> 'u TcpServer" where
  "srv_RunInLoop th l f t s = (if th = l then f s else srv_QueueInLoop l t s)"

text \<open>
  \<open>EventLoopThreadPool::Start\<close>; \<open>threads_ok\<close> says that all threads could be started, otherwise the exception leaves the pool as
  it was. An error is the exception of a second start.
\<close>

definition EventLoopThreadPool_Start :: "bool \<Rightarrow> nat \<Rightarrow> 'u TcpServer \<Rightarrow> string + 'u TcpServer" where
  "EventLoopThreadPool_Start threads_ok thread_count s =
     (if pool_started s then Inl ''EventLoopThreadPool already started''
      else if thread_count = 0
      then Inr (s\<lparr>srv_outs := srv_outs s @ (if io_loop_init_callback s then [OutInitLoop kBaseLoop] else []), pool_started := True\<rparr>)
      else if \<not> threads_ok then Inl ''EventLoopThread failed''
      else let new_loops = map Suc [0..<thread_count]
        in Inr (s\<lparr>srv_outs := srv_outs s @ (if io_loop_init_callback s then map OutInitLoop new_loops else []),
                  loops := new_loops, pool_started := True\<rparr>))"

definition GetNextLoop :: "'u TcpServer \<Rightarrow> nat \<times> 'u TcpServer" where
  "GetNextLoop s =
     (if loops s = [] then (kBaseLoop, s)
      else (loops s ! next_loop s, s\<lparr>next_loop := (next_loop s + 1) mod length (loops s)\<rparr>))"

definition GetAllLoops :: "'u TcpServer \<Rightarrow> nat list" where
  "GetAllLoops s = (if loops s = [] then [kBaseLoop] else loops s)"

section \<open>Closing connections\<close>

definition CheckAllClosedInLoop :: "'u TcpServer \<Rightarrow> 'u TcpServer" where
  "CheckAllClosedInLoop s =
     (if \<not> srv_closing s \<or> connections s \<noteq> [] then s
      else let s1 = s\<lparr>srv_closing := False\<rparr>
        in if all_closed_callback s1
           then s1\<lparr>all_closed_callback := False, srv_outs := srv_outs s1 @ [OutAllClosed]\<rparr> else s1)"

definition RemoveConnectionInLoop :: "nat \<Rightarrow> 'u TcpServer \<Rightarrow> 'u TcpServer" where
  "RemoveConnectionInLoop conn s =
     (let s1 = s\<lparr>connections := filter (\<lambda>c. c \<noteq> conn) (connections s)\<rparr>
      in CheckAllClosedInLoop (srv_QueueInLoop (conn_loop s1 conn) (TaskDestroyed conn) s1))"

definition TcpServer_RemoveConnection :: "nat \<Rightarrow> nat \<Rightarrow> 'u TcpServer \<Rightarrow> 'u TcpServer" where
  "TcpServer_RemoveConnection th conn s =
     srv_RunInLoop th kBaseLoop (RemoveConnectionInLoop conn) (TaskRemove conn) s"

text \<open>
  A call of a connection from a thread: the operation itself, the tasks it leaves to the loop of the connection, and the
  callbacks it ran, which are the last thing it does. No result is a failed assertion, which \<open>Net_Connection\<close> excludes.
\<close>

definition srv_dispatch :: "nat \<Rightarrow> nat \<Rightarrow> conn_out \<Rightarrow> 'u TcpServer \<Rightarrow> 'u TcpServer" where
  "srv_dispatch th conn e s = (case e of OutCloseCallback \<Rightarrow> TcpServer_RemoveConnection th conn s | _ \<Rightarrow> s)"

definition srv_conn_call ::
  "nat \<Rightarrow> nat \<Rightarrow> (bool \<Rightarrow> TcpConnection \<Rightarrow> (TcpConnection \<times> conn_task list) option) \<Rightarrow> 'u TcpServer \<Rightarrow> 'u TcpServer" where
  "srv_conn_call th conn operation s =
     (case operation (th = conn_loop s conn) (srv_conns s conn) of
        None \<Rightarrow> s
      | Some (c, ts) \<Rightarrow>
          fold (srv_dispatch th conn) (drop (length (outs (srv_conns s conn))) (outs c))
            (fold (\<lambda>t. srv_QueueInLoop (conn_loop s conn) (TaskConn conn t)) ts
              (s\<lparr>srv_conns := (srv_conns s)(conn := c)\<rparr>)))"

definition srv_Write :: "'u tcp_env \<Rightarrow> nat \<Rightarrow> nat \<Rightarrow> bytes \<Rightarrow> 'u TcpServer \<Rightarrow> 'u TcpServer" where
  "srv_Write env th conn data s = srv_conn_call th conn (\<lambda>in_loop. Conn_Write in_loop data) s"

definition srv_Flush :: "'u tcp_env \<Rightarrow> nat \<Rightarrow> nat \<Rightarrow> 'u TcpServer \<Rightarrow> 'u TcpServer" where
  "srv_Flush env th conn s = srv_conn_call th conn (\<lambda>in_loop. Conn_Flush in_loop (srv_send env s conn)) s"

definition srv_Shutdown :: "'u tcp_env \<Rightarrow> nat \<Rightarrow> nat \<Rightarrow> 'u TcpServer \<Rightarrow> 'u TcpServer" where
  "srv_Shutdown env th conn s = srv_conn_call th conn (\<lambda>in_loop. Conn_Shutdown in_loop (srv_send env s conn)) s"

text \<open>An operation of the loop of the connection itself.\<close>

definition srv_in_loop ::
  "nat \<Rightarrow> (TcpConnection \<Rightarrow> TcpConnection option) \<Rightarrow> 'u TcpServer \<Rightarrow> 'u TcpServer" where
  "srv_in_loop conn operation s =
     srv_conn_call (conn_loop s conn) conn (\<lambda>in_loop c. map_option (\<lambda>c'. (c', [])) (operation c)) s"

text \<open>The loop over the map: the body shuts one connection down, which must not erase the element.\<close>

definition shutdown_one :: "'u tcp_env \<Rightarrow> nat \<Rightarrow> nat \<Rightarrow> 'u TcpServer \<Rightarrow> 'u TcpServer" where
  "shutdown_one env th conn s =
     (if iterator_lost s then s
      else let s1 = srv_Shutdown env th conn s
        in if conn \<in> set (connections s1) then s1 else s1\<lparr>iterator_lost := True\<rparr>)"

definition CloseAllConnectionsInLoop :: "'u tcp_env \<Rightarrow> 'u TcpServer \<Rightarrow> 'u TcpServer" where
  "CloseAllConnectionsInLoop env s =
     (if srv_closing s then s
      else let s1 = s\<lparr>srv_closing := True, all_closed_callback := True\<rparr>
        in CheckAllClosedInLoop (fold (shutdown_one env kBaseLoop) (srv_order env (connections s1)) s1))"

definition CloseAllConnections :: "'u tcp_env \<Rightarrow> nat \<Rightarrow> 'u TcpServer \<Rightarrow> 'u TcpServer" where
  "CloseAllConnections env th s = srv_RunInLoop th kBaseLoop (CloseAllConnectionsInLoop env) TaskCloseAll s"

section \<open>Accepting connections\<close>

definition Acceptor_Listen :: "'u TcpServer \<Rightarrow> 'u TcpServer" where
  "Acceptor_Listen s = s\<lparr>listening := True, accept_channel := EnableReading (accept_channel s)\<rparr>"

definition Acceptor_Stop :: "'u TcpServer \<Rightarrow> 'u TcpServer" where
  "Acceptor_Stop s =
     (if \<not> listening s then s else s\<lparr>listening := False, accept_channel := DisableAll (accept_channel s)\<rparr>)"

definition TcpServer_NewConnection :: "int \<Rightarrow> 'u TcpServer \<Rightarrow> 'u TcpServer" where
  "TcpServer_NewConnection fd s =
     (case GetNextLoop s of
        (io_loop, s1) \<Rightarrow>
          let conn = srv_next_connection_id s1;
              c = (TcpConnection_new fd)\<lparr>connection_callback := srv_connection_callback s1,
                    write_complete_callback := srv_write_complete_callback s1,
                    high_watermark_callback := srv_high_watermark_callback s1, high_watermark := srv_high_watermark s1,
                    max_output_buffer_bytes := srv_max_output_buffer_bytes s1,
                    max_input_buffer_bytes := srv_max_input_buffer_bytes s1, close_callback := True\<rparr>;
              s2 = s1\<lparr>srv_next_connection_id := conn + 1, connections := conn # connections s1,
                      srv_conns := (srv_conns s1)(conn := c), conn_loop := (conn_loop s1)(conn := io_loop)\<rparr>
          in srv_RunInLoop kBaseLoop io_loop (srv_in_loop conn (\<lambda>c. Some (ConnectEstablished c))) (TaskEstablish conn) s2)"

definition EINTR :: int where "EINTR = 4"

text \<open>The loop of \<open>Acceptor::HandleRead\<close> over the results of \<open>accept\<close>: descriptors, or the error numbers of failures.\<close>

fun Acceptor_HandleRead :: "(int + int) list \<Rightarrow> 'u TcpServer \<Rightarrow> 'u TcpServer" where
  "Acceptor_HandleRead [] s = s"
| "Acceptor_HandleRead (Inr conn_fd # rs) s = Acceptor_HandleRead rs (TcpServer_NewConnection conn_fd s)"
| "Acceptor_HandleRead (Inl errno # rs) s = (if errno = EINTR then Acceptor_HandleRead rs s else s)"

section \<open>Start, stop, destruction\<close>

definition SetIoLoopInitCallback :: "bool \<Rightarrow> 'u TcpServer \<Rightarrow> string + 'u TcpServer" where
  "SetIoLoopInitCallback cb s =
     (if started s then Inl ''IO loop initializer must be set before TcpServer::Start''
      else Inr (s\<lparr>io_loop_init_callback := cb\<rparr>))"

definition ListenInLoop :: "'u TcpServer \<Rightarrow> 'u TcpServer" where
  "ListenInLoop s = (if \<not> listening s then Acceptor_Listen s else s)"

definition TcpServer_Start :: "nat \<Rightarrow> bool \<Rightarrow> nat \<Rightarrow> 'u TcpServer \<Rightarrow> string + 'u TcpServer" where
  "TcpServer_Start th threads_ok io_thread_count s =
     (if started s then Inr s
      else case EventLoopThreadPool_Start threads_ok io_thread_count s of
        Inl e \<Rightarrow> Inl e
      | Inr s1 \<Rightarrow> Inr (srv_RunInLoop th kBaseLoop ListenInLoop TaskListen (s1\<lparr>started := True\<rparr>)))"

definition TcpServer_StopInLoop :: "'u TcpServer \<Rightarrow> 'u TcpServer" where
  "TcpServer_StopInLoop s = (if srv_stopping s then s else Acceptor_Stop (s\<lparr>srv_stopping := True\<rparr>))"

definition TcpServer_Stop :: "nat \<Rightarrow> 'u TcpServer \<Rightarrow> 'u TcpServer" where
  "TcpServer_Stop th s = srv_RunInLoop th kBaseLoop TcpServer_StopInLoop TaskStopAccepting s"

definition TcpServer_destroy :: "'u tcp_env \<Rightarrow> nat \<Rightarrow> 'u TcpServer \<Rightarrow> 'u TcpServer" where
  "TcpServer_destroy env th s =
     fold (\<lambda>conn s. srv_RunInLoop th (conn_loop s conn)
                      (srv_in_loop conn (\<lambda>c. Some (ConnectDestroyed c))) (TaskDestroyed conn) s)
       (srv_order env (connections s)) s"

text \<open>A task of the queue, with its loop, and the queue without it.\<close>

definition next_task :: "nat \<Rightarrow> (nat \<times> 'u loop_task) list \<Rightarrow> ((nat \<times> 'u loop_task) \<times> (nat \<times> 'u loop_task) list) option" where
  "next_task i q = (if i < length q then Some (q ! i, take i q @ drop (Suc i) q) else None)"

text \<open>A task of the server on the thread of its loop; the tasks of the layer above are not run here.\<close>

definition run_loop_task :: "'u tcp_env \<Rightarrow> 'u loop_task \<Rightarrow> 'u TcpServer \<Rightarrow> 'u TcpServer" where
  "run_loop_task env t s =
     (case t of
        TaskListen \<Rightarrow> ListenInLoop s
      | TaskStopAccepting \<Rightarrow> TcpServer_StopInLoop s
      | TaskCloseAll \<Rightarrow> CloseAllConnectionsInLoop env s
      | TaskEstablish conn \<Rightarrow> srv_in_loop conn (\<lambda>c. Some (ConnectEstablished c)) s
      | TaskRemove conn \<Rightarrow> RemoveConnectionInLoop conn s
      | TaskDestroyed conn \<Rightarrow> srv_in_loop conn (\<lambda>c. Some (ConnectDestroyed c)) s
      | TaskConn conn t \<Rightarrow> srv_in_loop conn (run_conn_task (srv_send env s conn) t) s
      | TaskUpper u \<Rightarrow> s)"

end
