(* ===== verification/Rpc_Server.thy ===== *)
theory Rpc_Server
  imports Rpc_Codec Net_Server Timer_Queue
begin

text \<open>
  \<open>nebula/rpc/rpc_server.cpp\<close>, the server side of the protocol, with the method table of \<open>rpc_coroutine_service.h\<close> and the error
  codes of \<open>rpc_error.h\<close>: decoding and dispatch of requests, responses that are batched while a message is handled and
  flushed one by one afterwards, the count of the calls in flight, and graceful shutdown.

  Every operation names the thread on which it runs, as in \<open>Net_Server\<close>. A call that was handed to user code is an entry of
  \<open>calls\<close> until user code runs its closure, or its coroutine ends; user code may do so at once (it is a list
  of actions, a field of the environment) or later from any thread. A closure deletes itself when it is run, so a call that is
  not in \<open>calls\<close> cannot be completed again.
\<close>

section \<open>State\<close>

datatype RpcErrorCode = Ok | BadRequest | NotFound | InternalError

fun error_code_value :: "RpcErrorCode \<Rightarrow> int" where
  "error_code_value Ok = 0"
| "error_code_value BadRequest = 400"
| "error_code_value NotFound = 404"
| "error_code_value InternalError = 500"

record ServerCall =
  call_request_id :: u64
  call_trace_id :: u64
  call_scope :: nat
  call_coroutine :: bool

record ResponseFlushScope =
  scope_conn :: nat
  finished_calls :: u64
  collecting :: bool

definition ResponseFlushScope_new :: "nat \<Rightarrow> ResponseFlushScope" where
  "ResponseFlushScope_new conn = \<lparr>scope_conn = conn, finished_calls = 0, collecting = True\<rparr>"

text \<open>The tasks that the server puts into the queue of a loop.\<close>

datatype srv_task = TaskScopeWrite nat bytes bool | TaskServerStop | TaskCloseConnections

text \<open>What an observer sees, in order: frames to be answered, answers handed to the connection, answers that cannot be encoded.\<close>

datatype srv_event =
    EvFrame nat u64 u64
  | EvReply nat u64 u64
  | EvUnanswered nat u64 u64
  | EvClosing u64
  | EvGraceTimeout
  | EvShutdownComplete

text \<open>
  A protobuf service is known by its address; \<open>CoroutineService\<close> is its table of methods, in which \<^const>\<open>None\<close> is an entry without
  descriptor. \<open>raised\<close> is an exception of the timer queue.
\<close>

record Method =
  method_descriptor :: nat
  method_handler :: nat

record ServiceDescriptor =
  full_name :: bytes
  descriptor_methods :: "(bytes \<times> bytes \<times> bytes) list"

record CoroutineService =
  service_descriptor :: ServiceDescriptor
  service_methods :: "Method option list"

record RpcServer =
  tcp :: "srv_task TcpServer"
  services :: "bytes \<Rightarrow> nat option"
  coroutine_services :: "bytes \<Rightarrow> CoroutineService option"
  in_flight :: u64
  stopping :: bool
  connections_closed :: bool
  shutdown_finished :: bool
  grace_timer :: TimerId
  shutdown_complete_callback :: bool
  scopes :: "nat \<Rightarrow> ResponseFlushScope"
  next_scope :: nat
  calls :: "(nat \<times> ServerCall) list"
  next_call :: nat
  srv_timers :: TimerQueue
  srv_clock_reads :: nat
  srv_raised :: "timer_exn option"
  srv_history :: "srv_event list"

text \<open>How the coroutine of a handler ends: with a response (whose serialisation may fail), without one, or with an exception.\<close>

datatype coroutine_outcome =
    CoResponse "bytes option"
  | CoNull
  | CoServiceError RpcErrorCode string
  | CoRpcError string
  | CoException string
  | CoUnknown

text \<open>What user code can do while it is called.\<close>

datatype user_act = ActDone nat "bytes option" | ActReturn nat coroutine_outcome | ActStop

record server_env =
  srv_pb :: MetaCodec
  tcp_os :: "srv_task tcp_env"
  method_count :: "nat \<Rightarrow> nat"
  parse_request :: "nat \<Rightarrow> nat \<Rightarrow> bytes \<Rightarrow> bool"
  new_request :: "Method \<Rightarrow> bool"
  parse_coroutine_request :: "Method \<Rightarrow> bytes \<Rightarrow> bool"
  srv_now :: "nat \<Rightarrow> int"
  srv_settime_succeeds :: "nat \<Rightarrow> bool"
  srv_user :: "nat \<Rightarrow> RpcServer \<Rightarrow> user_act list"

definition RpcServer_new :: "int \<Rightarrow> int \<Rightarrow> RpcServer" where
  "RpcServer_new fd epoch = \<lparr>tcp = TcpServer_new fd, services = (\<lambda>_. None), coroutine_services = (\<lambda>_. None),
     in_flight = 0, stopping = False, connections_closed = False, shutdown_finished = False, grace_timer = 0,
     shutdown_complete_callback = False, scopes = (\<lambda>_. \<lparr>scope_conn = 0, finished_calls = 0, collecting = False\<rparr>), next_scope = 0, calls = [], next_call = 0,
     srv_timers = TimerQueue_new epoch, srv_clock_reads = 0, srv_raised = None, srv_history = []\<rparr>"

definition srv_emit :: "srv_event \<Rightarrow> RpcServer \<Rightarrow> RpcServer" where
  "srv_emit e s = s\<lparr>srv_history := srv_history s @ [e]\<rparr>"

section \<open>Services\<close>

definition RegisterService :: "(bytes \<times> nat) option \<Rightarrow> RpcServer \<Rightarrow> RpcServer" where
  "RegisterService service s =
     (case service of None \<Rightarrow> s | Some (name, sv) \<Rightarrow> s\<lparr>services := (services s)(name \<mapsto> sv)\<rparr>)"

definition RegisterCoroutineService :: "CoroutineService option \<Rightarrow> RpcServer \<Rightarrow> RpcServer" where
  "RegisterCoroutineService service s =
     (case service of
        None \<Rightarrow> s
      | Some sv \<Rightarrow> s\<lparr>coroutine_services := (coroutine_services s)(full_name (service_descriptor sv) \<mapsto> sv)\<rparr>)"

definition CoroutineService_new :: "ServiceDescriptor option \<Rightarrow> string + CoroutineService" where
  "CoroutineService_new descriptor =
     (case descriptor of
        None \<Rightarrow> Inl ''CoroutineService requires a service descriptor''
      | Some d \<Rightarrow> Inr \<lparr>service_descriptor = d, service_methods = replicate (length (descriptor_methods d)) None\<rparr>)"

text \<open>\<open>FindMethodByName\<close> gives the index of the first method of that name; \<open>input\<close> and \<open>output\<close> are the full names of the message types.\<close>

fun FindMethodByName :: "bytes \<Rightarrow> (bytes \<times> bytes \<times> bytes) list \<Rightarrow> (nat \<times> bytes \<times> bytes) option" where
  "FindMethodByName name [] = None"
| "FindMethodByName name ((m, input, output) # ms) =
     (if m = name then Some (0, input, output)
      else map_option (\<lambda>(i, io). (i + 1, io)) (FindMethodByName name ms))"

definition CoroutineService_Register ::
  "bytes \<Rightarrow> bytes \<Rightarrow> bytes \<Rightarrow> nat \<Rightarrow> CoroutineService \<Rightarrow> string + CoroutineService" where
  "CoroutineService_Register method_name request_type response_type h sv =
     (case FindMethodByName method_name (descriptor_methods (service_descriptor sv)) of
        None \<Rightarrow> Inl (''method not found in service descriptor: '' @ method_name)
      | Some (i, input, output) \<Rightarrow>
          if input \<noteq> request_type \<or> output \<noteq> response_type
          then Inl (''registered coroutine method type does not match protobuf descriptor: '' @ method_name)
          else Inr (sv\<lparr>service_methods := (service_methods sv)[i := Some \<lparr>method_descriptor = i, method_handler = h\<rparr>]\<rparr>))"

definition FindMethod :: "u32 \<Rightarrow> CoroutineService \<Rightarrow> Method option" where
  "FindMethod method_index sv =
     (if unat method_index \<ge> length (service_methods sv) then None else service_methods sv ! unat method_index)"

section \<open>Graceful shutdown\<close>

definition kGracefulTimeoutNs :: int where "kGracefulTimeoutNs = 10 * 1000000000"

definition kGraceFunctor :: callable where "kGraceFunctor = 4"

definition srv_timer_os :: "server_env \<Rightarrow> RpcServer \<Rightarrow> timer_os" where
  "srv_timer_os env s = \<lparr>clock_now = srv_now env (srv_clock_reads s), clock_arm = srv_now env (srv_clock_reads s + 1),
     settime_ok = srv_settime_succeeds env (srv_clock_reads s)\<rparr>"

definition FinishShutdownInLoop :: "server_env \<Rightarrow> RpcServer \<Rightarrow> RpcServer" where
  "FinishShutdownInLoop env s =
     (if shutdown_finished s then s
      else let s1 = s\<lparr>shutdown_finished := True\<rparr>;
               notify = (\<lambda>s. if shutdown_complete_callback s then srv_emit EvShutdownComplete s else s)
        in if TimerId_Valid (grace_timer s1)
           then case Cancel (srv_timer_os env s1) True (grace_timer s1) (srv_timers s1) of
                  (e, ts, q) \<Rightarrow>
                    let s2 = s1\<lparr>srv_timers := q, srv_clock_reads := srv_clock_reads s1 + 2\<rparr>
                    in case e of Some x \<Rightarrow> s2\<lparr>srv_raised := Some x\<rparr> | None \<Rightarrow> notify (s2\<lparr>grace_timer := 0\<rparr>)
           else notify s1)"

text \<open>An operation of the TCP server followed by the callbacks it ran, which end it.\<close>

definition dispatch_server_out :: "server_env \<Rightarrow> server_out \<Rightarrow> RpcServer \<Rightarrow> RpcServer" where
  "dispatch_server_out env e s = (case e of OutAllClosed \<Rightarrow> FinishShutdownInLoop env s | OutInitLoop l \<Rightarrow> s)"

definition with_tcp :: "server_env \<Rightarrow> (srv_task TcpServer \<Rightarrow> srv_task TcpServer) \<Rightarrow> RpcServer \<Rightarrow> RpcServer" where
  "with_tcp env f s =
     (let t = f (tcp s)
      in fold (dispatch_server_out env) (drop (length (srv_outs (tcp s))) (srv_outs t)) (s\<lparr>tcp := t\<rparr>))"

definition rs_RunInLoop :: "nat \<Rightarrow> nat \<Rightarrow> (RpcServer \<Rightarrow> RpcServer) \<Rightarrow> srv_task \<Rightarrow> RpcServer \<Rightarrow> RpcServer" where
  "rs_RunInLoop th l f t s = (if th = l then f s else s\<lparr>tcp := srv_QueueInLoop l (TaskUpper t) (tcp s)\<rparr>)"

definition CloseConnectionsInLoop :: "server_env \<Rightarrow> RpcServer \<Rightarrow> RpcServer" where
  "CloseConnectionsInLoop env s =
     (if connections_closed s then s
      else let s1 = s\<lparr>connections_closed := True\<rparr>
        in with_tcp env (CloseAllConnections (tcp_os env) kBaseLoop) (srv_emit (EvClosing (in_flight s1)) s1))"

definition StopInLoop :: "server_env \<Rightarrow> RpcServer \<Rightarrow> RpcServer" where
  "StopInLoop env s =
     (if stopping s then s
      else let s1 = with_tcp env (TcpServer_Stop kBaseLoop) (s\<lparr>stopping := True\<rparr>)
        in case AddTimer (srv_timer_os env (s1\<lparr>srv_clock_reads := srv_clock_reads s1 + 1\<rparr>)) True
                  (srv_now env (srv_clock_reads s1) + kGracefulTimeoutNs) (Functor (Some kGraceFunctor)) (srv_timers s1) of
             (r, ts, q) \<Rightarrow>
               let s2 = s1\<lparr>srv_timers := q, srv_clock_reads := srv_clock_reads s1 + 3\<rparr>
               in case r of
                    Inl e \<Rightarrow> s2\<lparr>srv_raised := Some e\<rparr>
                  | Inr timer_id \<Rightarrow>
                      let s3 = s2\<lparr>grace_timer := timer_id\<rparr>
                      in if in_flight s3 = 0 then CloseConnectionsInLoop env s3 else s3)"

text \<open>The callback of the grace timer.\<close>

definition OnGraceTimer :: "server_env \<Rightarrow> RpcServer \<Rightarrow> RpcServer" where
  "OnGraceTimer env s = FinishShutdownInLoop env (CloseConnectionsInLoop env (srv_emit EvGraceTimeout s))"

definition Server_Stop :: "server_env \<Rightarrow> nat \<Rightarrow> RpcServer \<Rightarrow> RpcServer" where
  "Server_Stop env th s = rs_RunInLoop th kBaseLoop (StopInLoop env) TaskServerStop s"

definition OnCallsFinished :: "server_env \<Rightarrow> nat \<Rightarrow> u64 \<Rightarrow> RpcServer \<Rightarrow> RpcServer" where
  "OnCallsFinished env th count s =
     (if count = 0 then s
      else let previous = in_flight s;
               s1 = s\<lparr>in_flight := previous - count\<rparr>
        in if previous = count \<and> stopping s1
           then rs_RunInLoop th kBaseLoop (CloseConnectionsInLoop env) TaskCloseConnections s1 else s1)"

section \<open>Writing responses\<close>

definition upd_scope :: "nat \<Rightarrow> (ResponseFlushScope \<Rightarrow> ResponseFlushScope) \<Rightarrow> RpcServer \<Rightarrow> RpcServer" where
  "upd_scope sc f s = s\<lparr>scopes := (scopes s)(sc := f (scopes s sc))\<rparr>"

definition Scope_WriteInLoop :: "server_env \<Rightarrow> nat \<Rightarrow> nat \<Rightarrow> bytes \<Rightarrow> bool \<Rightarrow> RpcServer \<Rightarrow> RpcServer" where
  "Scope_WriteInLoop env th sc data finish_call s =
     (let conn = scope_conn (scopes s sc);
          s1 = (if data \<noteq> [] then with_tcp env (srv_Write (tcp_os env) th conn data) s else s)
      in if collecting (scopes s1 sc)
         then if finish_call then upd_scope sc (\<lambda>f. f\<lparr>finished_calls := finished_calls f + 1\<rparr>) s1 else s1
         else let s2 = with_tcp env (srv_Flush (tcp_os env) th conn) s1
           in if finish_call then OnCallsFinished env th 1 s2 else s2)"

definition Scope_Write :: "server_env \<Rightarrow> nat \<Rightarrow> nat \<Rightarrow> bytes \<Rightarrow> bool \<Rightarrow> RpcServer \<Rightarrow> RpcServer" where
  "Scope_Write env th sc data finish_call s =
     rs_RunInLoop th (conn_loop (tcp s) (scope_conn (scopes s sc)))
       (Scope_WriteInLoop env th sc data finish_call) (TaskScopeWrite sc data finish_call) s"

definition Scope_Close :: "server_env \<Rightarrow> nat \<Rightarrow> nat \<Rightarrow> RpcServer \<Rightarrow> RpcServer" where
  "Scope_Close env th sc s =
     (if \<not> collecting (scopes s sc) then s
      else let s1 = upd_scope sc (\<lambda>f. f\<lparr>collecting := False\<rparr>) s;
               s2 = with_tcp env (srv_Flush (tcp_os env) th (scope_conn (scopes s1 sc))) s1
        in if finished_calls (scopes s2 sc) \<noteq> 0
           then upd_scope sc (\<lambda>f. f\<lparr>finished_calls := 0\<rparr>) (OnCallsFinished env th (finished_calls (scopes s2 sc)) s2)
           else s2)"

definition SendError ::
  "server_env \<Rightarrow> nat \<Rightarrow> u64 \<Rightarrow> u64 \<Rightarrow> RpcErrorCode \<Rightarrow> string \<Rightarrow> nat \<Rightarrow> RpcServer \<Rightarrow> RpcServer" where
  "SendError env th request_id trace_id error_code error_text sc s =
     (let meta = RpcMeta_default\<lparr>meta_type := ERROR, meta_request_id := request_id, meta_trace_id := trace_id,
                   meta_error_code := error_code_value error_code, meta_error_text := error_text\<rparr>;
          data = Encode (srv_pb env) meta []
      in if data \<noteq> [] then Scope_Write env th sc data False (srv_emit (EvReply sc request_id trace_id) s)
         else srv_emit (EvUnanswered sc request_id trace_id) s)"

text \<open>The error of a call in flight: the frame, then the end of the call.\<close>

definition FailCall ::
  "server_env \<Rightarrow> nat \<Rightarrow> u64 \<Rightarrow> u64 \<Rightarrow> RpcErrorCode \<Rightarrow> string \<Rightarrow> nat \<Rightarrow> RpcServer \<Rightarrow> RpcServer" where
  "FailCall env th request_id trace_id error_code error_text sc s =
     Scope_Write env th sc [] True (SendError env th request_id trace_id error_code error_text sc s)"

text \<open>A response message is the result of its \<open>SerializeToString\<close>.\<close>

definition SendResponse :: "server_env \<Rightarrow> nat \<Rightarrow> u64 \<Rightarrow> u64 \<Rightarrow> bytes option \<Rightarrow> nat \<Rightarrow> RpcServer \<Rightarrow> RpcServer" where
  "SendResponse env th request_id trace_id response sc s =
     (case response of
        None \<Rightarrow> FailCall env th request_id trace_id InternalError ''response protobuf serialization failed'' sc s
      | Some payload \<Rightarrow>
          let meta = RpcMeta_default\<lparr>meta_type := RESPONSE, meta_request_id := request_id, meta_trace_id := trace_id\<rparr>;
              data = Encode (srv_pb env) meta payload
          in if data = [] then FailCall env th request_id trace_id InternalError ''response frame encoding failed'' sc s
             else Scope_Write env th sc data True (srv_emit (EvReply sc request_id trace_id) s))"

definition SendHeartbeatEcho :: "server_env \<Rightarrow> nat \<Rightarrow> RpcMeta \<Rightarrow> nat \<Rightarrow> RpcServer \<Rightarrow> RpcServer" where
  "SendHeartbeatEcho env th request_meta sc s =
     (let request_id = meta_request_id request_meta;
          trace_id = meta_trace_id request_meta;
          meta = RpcMeta_default\<lparr>meta_type := HEARTBEAT, meta_request_id := request_id, meta_trace_id := trace_id\<rparr>;
          data = Encode (srv_pb env) meta []
      in if data \<noteq> [] then Scope_Write env th sc data False (srv_emit (EvReply sc request_id trace_id) s)
         else srv_emit (EvUnanswered sc request_id trace_id) s)"

section \<open>Completion of calls\<close>

definition take_call :: "nat \<Rightarrow> RpcServer \<Rightarrow> RpcServer" where
  "take_call k s = s\<lparr>calls := filter (\<lambda>e. fst e \<noteq> k) (calls s)\<rparr>"

text \<open>The closure of a call is run.\<close>

definition RunDone :: "server_env \<Rightarrow> nat \<Rightarrow> nat \<Rightarrow> bytes option \<Rightarrow> RpcServer \<Rightarrow> RpcServer" where
  "RunDone env th k response s =
     (case map_of (calls s) k of
        None \<Rightarrow> s
      | Some c \<Rightarrow>
          if call_coroutine c then s
          else SendResponse env th (call_request_id c) (call_trace_id c) response (call_scope c) (take_call k s))"

text \<open>The coroutine of a call ends: the rest of \<open>DispatchCoroutineRequest\<close>.\<close>

definition FinishCoroutine :: "server_env \<Rightarrow> nat \<Rightarrow> nat \<Rightarrow> coroutine_outcome \<Rightarrow> RpcServer \<Rightarrow> RpcServer" where
  "FinishCoroutine env th k outcome s =
     (case map_of (calls s) k of
        None \<Rightarrow> s
      | Some c \<Rightarrow>
          if \<not> call_coroutine c then s
          else let s1 = take_call k s;
                   fail = (\<lambda>code text. FailCall env th (call_request_id c) (call_trace_id c) code text (call_scope c) s1)
            in case outcome of
                 CoResponse r \<Rightarrow> SendResponse env th (call_request_id c) (call_trace_id c) r (call_scope c) s1
               | CoNull \<Rightarrow> fail InternalError ''coroutine handler returned a null response''
               | CoServiceError code text \<Rightarrow> fail code text
               | CoRpcError text \<Rightarrow> fail InternalError text
               | CoException text \<Rightarrow> fail InternalError text
               | CoUnknown \<Rightarrow> fail InternalError ''unknown coroutine handler exception'')"

definition run_act :: "server_env \<Rightarrow> nat \<Rightarrow> user_act \<Rightarrow> RpcServer \<Rightarrow> RpcServer" where
  "run_act env th a s =
     (case a of
        ActDone k response \<Rightarrow> RunDone env th k response s
      | ActReturn k outcome \<Rightarrow> FinishCoroutine env th k outcome s
      | ActStop \<Rightarrow> Server_Stop env th s)"

section \<open>Requests\<close>

text \<open>A call is counted and handed to user code, which may complete it, or others, at once.\<close>

definition start_call :: "server_env \<Rightarrow> nat \<Rightarrow> RpcMeta \<Rightarrow> nat \<Rightarrow> bool \<Rightarrow> RpcServer \<Rightarrow> RpcServer" where
  "start_call env th meta sc coroutine s =
     (let k = next_call s;
          s1 = s\<lparr>in_flight := in_flight s + 1, next_call := k + 1,
                 calls := (k, \<lparr>call_request_id = meta_request_id meta, call_trace_id = meta_trace_id meta,
                               call_scope = sc, call_coroutine = coroutine\<rparr>) # calls s\<rparr>
      in fold (run_act env th) (srv_user env k s1) s1)"

definition HandleCoroutineRequest ::
  "server_env \<Rightarrow> nat \<Rightarrow> RpcFrame \<Rightarrow> CoroutineService \<Rightarrow> nat \<Rightarrow> RpcServer \<Rightarrow> RpcServer" where
  "HandleCoroutineRequest env th frame service sc s =
     (let meta = frame_meta frame;
          reject = (\<lambda>code text. SendError env th (meta_request_id meta) (meta_trace_id meta) code text sc s)
      in case FindMethod (meta_method_index meta) service of
           None \<Rightarrow> reject NotFound ''coroutine method not found''
         | Some method \<Rightarrow>
             if \<not> new_request env method \<or> \<not> parse_coroutine_request env method (frame_payload frame)
             then reject BadRequest ''request protobuf parse failed''
             else start_call env th meta sc True s)"

definition HandleRequest :: "server_env \<Rightarrow> nat \<Rightarrow> RpcFrame \<Rightarrow> nat \<Rightarrow> RpcServer \<Rightarrow> RpcServer" where
  "HandleRequest env th frame sc s =
     (let meta = frame_meta frame;
          reject = (\<lambda>code text. SendError env th (meta_request_id meta) (meta_trace_id meta) code text sc s)
      in case coroutine_services s (meta_service_name meta) of
           Some service \<Rightarrow> HandleCoroutineRequest env th frame service sc s
         | None \<Rightarrow>
             (case services s (meta_service_name meta) of
                None \<Rightarrow> reject NotFound ''service not found''
              | Some service \<Rightarrow>
                  if unat (meta_method_index meta) \<ge> method_count env service then reject NotFound ''method not found''
                  else if \<not> parse_request env service (unat (meta_method_index meta)) (frame_payload frame)
                  then reject BadRequest ''request protobuf parse failed''
                  else start_call env th meta sc False s))"

definition HandleServerFrame :: "server_env \<Rightarrow> nat \<Rightarrow> RpcFrame \<Rightarrow> nat \<Rightarrow> RpcServer \<Rightarrow> RpcServer" where
  "HandleServerFrame env th frame sc s0 =
     (let meta = frame_meta frame;
          s = srv_emit (EvFrame sc (meta_request_id meta) (meta_trace_id meta)) s0
      in if meta_type meta = HEARTBEAT then SendHeartbeatEcho env th meta sc s
         else if meta_type meta = REQUEST then HandleRequest env th frame sc s
         else SendError env th (meta_request_id meta) (meta_trace_id meta) BadRequest
                ''server received a non-request/heartbeat frame'' sc s)"

definition set_srv_input :: "nat \<Rightarrow> Buffer \<Rightarrow> RpcServer \<Rightarrow> RpcServer" where
  "set_srv_input conn b s =
     s\<lparr>tcp := (tcp s)\<lparr>srv_conns := (srv_conns (tcp s))(conn := (srv_conns (tcp s) conn)\<lparr>input_buffer := b\<rparr>)\<rparr>\<rparr>"

text \<open>The loop of \<open>OnMessage\<close> with its scope; \<^const>\<open>None\<close> is a failed assertion of the buffer, or a loop that does not end.\<close>

partial_function (option) message_loop :: "server_env \<Rightarrow> nat \<Rightarrow> nat \<Rightarrow> nat \<Rightarrow> RpcServer \<Rightarrow> RpcServer option" where
  "message_loop env th conn sc s =
     (case Decode (srv_pb env) (input_buffer (srv_conns (tcp s) conn)) of
        None \<Rightarrow> None
      | Some kNeedMore \<Rightarrow> Some (Scope_Close env th sc s)
      | Some (kError error) \<Rightarrow> Some (with_tcp env (srv_Shutdown (tcp_os env) th conn) (Scope_Close env th sc s))
      | Some (kOk frame) \<Rightarrow>
          (let s1 = HandleServerFrame env th frame sc s in
           case Retrieve (wire_size frame) (input_buffer (srv_conns (tcp s1) conn)) of
             None \<Rightarrow> None
           | Some b \<Rightarrow> message_loop env th conn sc (set_srv_input conn b s1)))"

definition Server_OnMessage :: "server_env \<Rightarrow> nat \<Rightarrow> nat \<Rightarrow> RpcServer \<Rightarrow> RpcServer option" where
  "Server_OnMessage env th conn s =
     (let sc = next_scope s
      in message_loop env th conn sc
           (s\<lparr>next_scope := sc + 1, scopes := (scopes s)(sc := ResponseFlushScope_new conn)\<rparr>))"

text \<open>\<open>TcpConnection::HandleRead\<close> on the loop of the connection, with the server as message callback.\<close>

definition Server_HandleRead :: "server_env \<Rightarrow> nat \<Rightarrow> (nat \<Rightarrow> int + bytes) \<Rightarrow> RpcServer \<Rightarrow> RpcServer option" where
  "Server_HandleRead env conn readv s =
     (case ReadFd readv (input_buffer (srv_conns (tcp s) conn)) of
        None \<Rightarrow> None
      | Some (r, b) \<Rightarrow>
          let s1 = set_srv_input conn b s in
          case r of
            Inr n \<Rightarrow>
              if n > 0
              then (case Server_OnMessage env (conn_loop (tcp s1) conn) conn s1 of
                      None \<Rightarrow> None
                    | Some s2 \<Rightarrow>
                        let c = srv_conns (tcp s2) conn in
                        if max_input_buffer_bytes c > 0 \<and> ReadableBytes (input_buffer c) > max_input_buffer_bytes c
                        then Some (with_tcp env (srv_in_loop conn
                                (\<lambda>c. Some (ForceCloseInLoop (c\<lparr>overload_close_count := overload_close_count c + 1\<rparr>)))) s2)
                        else Some s2)
              else Some (with_tcp env (srv_in_loop conn (\<lambda>c. Some (HandleClose c))) s1)
          | Inl errno \<Rightarrow>
              if errno \<noteq> EWOULDBLOCK then Some (with_tcp env (srv_in_loop conn (\<lambda>c. Some (HandleError c))) s1) else Some s1)"

definition Server_Start :: "server_env \<Rightarrow> bool \<Rightarrow> nat \<Rightarrow> RpcServer \<Rightarrow> string + RpcServer" where
  "Server_Start env threads_ok io_thread_count s =
     (case TcpServer_Start kBaseLoop threads_ok io_thread_count (tcp s) of
        Inl e \<Rightarrow> Inl e
      | Inr t \<Rightarrow> Inr (s\<lparr>tcp := t\<rparr>))"

definition SetShutdownCompleteCallback :: "bool \<Rightarrow> RpcServer \<Rightarrow> RpcServer" where
  "SetShutdownCompleteCallback cb s = s\<lparr>shutdown_complete_callback := cb\<rparr>"

section \<open>Runs of a server\<close>

definition run_srv_task :: "server_env \<Rightarrow> nat \<Rightarrow> srv_task \<Rightarrow> RpcServer \<Rightarrow> RpcServer" where
  "run_srv_task env l t s =
     (case t of
        TaskScopeWrite sc data finish_call \<Rightarrow> Scope_WriteInLoop env l sc data finish_call s
      | TaskServerStop \<Rightarrow> StopInLoop env s
      | TaskCloseConnections \<Rightarrow> CloseConnectionsInLoop env s)"

definition run_next_task :: "server_env \<Rightarrow> nat \<Rightarrow> RpcServer \<Rightarrow> RpcServer" where
  "run_next_task env i s =
     (case next_task i (srv_queue (tcp s)) of
        None \<Rightarrow> s
      | Some ((l, t), ts) \<Rightarrow>
          let s1 = s\<lparr>tcp := (tcp s)\<lparr>srv_queue := ts\<rparr>\<rparr>
          in case t of
               TaskUpper u \<Rightarrow> run_srv_task env l u s1
             | _ \<Rightarrow> with_tcp env (run_loop_task (tcp_os env) t) s1)"

text \<open>
  What can happen, in any order: configuration, start, accepted connections, events of the channel of a connection (as long as
  it is registered), any task of a loop, user code on any thread, and the grace timer.
\<close>

datatype srv_op =
    SrvRegister "(bytes \<times> nat) option"
  | SrvRegisterCoroutine "CoroutineService option"
  | SrvShutdownCallback bool
  | SrvStart bool nat
  | SrvAccept "(int + int) list"
  | SrvEvent nat chan_callback "nat \<Rightarrow> int + bytes"
  | SrvTask nat
  | SrvUser nat user_act
  | SrvGraceTimer

definition channel_event :: "server_env \<Rightarrow> nat \<Rightarrow> chan_callback \<Rightarrow> (nat \<Rightarrow> int + bytes) \<Rightarrow> RpcServer \<Rightarrow> RpcServer option" where
  "channel_event env conn cb readv s =
     (if IsNoneEvent (conn_channel (srv_conns (tcp s) conn)) then Some s
      else case cb of
        CloseCallback \<Rightarrow> Some (with_tcp env (srv_in_loop conn (\<lambda>c. Some (HandleClose c))) s)
      | ErrorCallback \<Rightarrow> Some (with_tcp env (srv_in_loop conn (\<lambda>c. Some (HandleError c))) s)
      | WriteCallback \<Rightarrow> Some (with_tcp env (srv_in_loop conn (HandleWrite (srv_send (tcp_os env) (tcp s) conn))) s)
      | ReadCallback \<Rightarrow> Server_HandleRead env conn readv s)"

definition srv_apply :: "server_env \<Rightarrow> srv_op \<Rightarrow> RpcServer \<Rightarrow> RpcServer option" where
  "srv_apply env op s =
     (case op of
        SrvRegister service \<Rightarrow> Some (RegisterService service s)
      | SrvRegisterCoroutine service \<Rightarrow> Some (RegisterCoroutineService service s)
      | SrvShutdownCallback cb \<Rightarrow> Some (SetShutdownCompleteCallback cb s)
      | SrvStart threads_ok n \<Rightarrow> (case Server_Start env threads_ok n s of Inl e \<Rightarrow> Some s | Inr s1 \<Rightarrow> Some s1)
      | SrvAccept rs \<Rightarrow> Some (if listening (tcp s) then with_tcp env (Acceptor_HandleRead rs) s else s)
      | SrvEvent conn cb readv \<Rightarrow> channel_event env conn cb readv s
      | SrvTask i \<Rightarrow> Some (run_next_task env i s)
      | SrvUser th a \<Rightarrow> Some (run_act env th a s)
      | SrvGraceTimer \<Rightarrow> Some (if TimerId_Valid (grace_timer s) then OnGraceTimer env s else s))"

fun srv_run :: "server_env \<Rightarrow> srv_op list \<Rightarrow> RpcServer \<Rightarrow> RpcServer option" where
  "srv_run env [] s = Some s"
| "srv_run env (op # ops) s = (case srv_apply env op s of None \<Rightarrow> None | Some s1 \<Rightarrow> srv_run env ops s1)"

end
