(* ===== verification/Rpc_Replies.thy ===== *)
theory Rpc_Replies
  imports Rpc_Server Conn_Closing "HOL-Library.Multiset"
begin

text \<open>
  The books of the server: every frame that asks for an answer is answered once, or waits for user code, and
  \<open>in_flight\<close> is the number of calls that were handed to user code and whose end has not been recorded yet. The books are
  kept through every operation, with debts for the steps in between: \<open>d\<close> calls that are over but not
  recorded, \<open>R\<close> frames that are taken but not answered.
\<close>

section \<open>Tasks of the server in the queue\<close>

fun is_upper :: "nat \<times> 'u loop_task \<Rightarrow> bool" where
  "is_upper (l, TaskUpper u) = True"
| "is_upper (l, _) = False"

definition uppers :: "'u TcpServer \<Rightarrow> (nat \<times> 'u loop_task) list" where
  "uppers t = filter is_upper (srv_queue t)"

lemma uppers_fields [simp]:
  "uppers (t\<lparr>srv_conns := cs\<rparr>) = uppers t" "uppers (t\<lparr>connections := ns\<rparr>) = uppers t" "uppers (t\<lparr>srv_closing := b\<rparr>) = uppers t"
  "uppers (t\<lparr>all_closed_callback := b\<rparr>) = uppers t" "uppers (t\<lparr>srv_outs := es\<rparr>) = uppers t"
  "uppers (t\<lparr>iterator_lost := b\<rparr>) = uppers t" "uppers (t\<lparr>next_loop := n\<rparr>) = uppers t" "uppers (t\<lparr>loops := ls\<rparr>) = uppers t"
  "uppers (t\<lparr>pool_started := b\<rparr>) = uppers t" "uppers (t\<lparr>started := b\<rparr>) = uppers t" "uppers (t\<lparr>srv_stopping := b\<rparr>) = uppers t"
  "uppers (t\<lparr>listening := b\<rparr>) = uppers t" "uppers (t\<lparr>accept_channel := ch\<rparr>) = uppers t"
  "uppers (t\<lparr>srv_next_connection_id := n\<rparr>) = uppers t" "uppers (t\<lparr>conn_loop := cl\<rparr>) = uppers t"
  by (simp_all add: uppers_def)

lemma uppers_Queue [simp]:
  "uppers (srv_QueueInLoop l t s) = uppers s @ (if is_upper (l, t) then [(l, t)] else [])"
  by (simp add: uppers_def srv_QueueInLoop_def)

lemma uppers_CheckAllClosed [simp]: "uppers (CheckAllClosedInLoop s) = uppers s"
  by (simp add: CheckAllClosedInLoop_def Let_def)

lemma uppers_Remove [simp]: "uppers (RemoveConnectionInLoop conn s) = uppers s"
  by (simp add: RemoveConnectionInLoop_def Let_def)

lemma uppers_dispatch [simp]: "uppers (srv_dispatch th conn e s) = uppers s"
  by (simp add: srv_dispatch_def TcpServer_RemoveConnection_def srv_RunInLoop_def split: conn_out.split)

lemma uppers_fold: "(\<And>x s. uppers (f x s) = uppers s) \<Longrightarrow> uppers (fold f xs s) = uppers s"
  by (induction xs arbitrary: s) simp_all

lemma uppers_conn_call [simp]: "uppers (srv_conn_call th conn operation s) = uppers s"
  by (simp add: srv_conn_call_def uppers_fold split: option.split prod.split)

lemma uppers_conn_ops [simp]:
  "uppers (srv_Write env th conn data s) = uppers s" "uppers (srv_Flush env th conn s) = uppers s"
  "uppers (srv_Shutdown env th conn s) = uppers s" "uppers (srv_in_loop conn f s) = uppers s"
  by (simp_all add: srv_Write_def srv_Flush_def srv_Shutdown_def srv_in_loop_def)

lemma uppers_shutdown_one [simp]: "uppers (shutdown_one env th conn s) = uppers s"
  by (simp add: shutdown_one_def Let_def)

lemma uppers_CloseAll [simp]: "uppers (CloseAllConnectionsInLoop env s) = uppers s" "uppers (CloseAllConnections env th s) = uppers s"
  by (simp_all add: CloseAllConnectionsInLoop_def CloseAllConnections_def srv_RunInLoop_def Let_def uppers_fold)

lemma uppers_NewConnection [simp]: "uppers (TcpServer_NewConnection fd s) = uppers s"
  by (simp add: TcpServer_NewConnection_def GetNextLoop_def srv_RunInLoop_def Let_def)

lemma uppers_Accept [simp]: "uppers (Acceptor_HandleRead rs s) = uppers s"
  by (induction rs s rule: Acceptor_HandleRead.induct) simp_all

lemma uppers_stop [simp]: "uppers (TcpServer_StopInLoop s) = uppers s" "uppers (TcpServer_Stop th s) = uppers s"
  "uppers (ListenInLoop s) = uppers s"
  by (simp_all add: TcpServer_StopInLoop_def TcpServer_Stop_def srv_RunInLoop_def Acceptor_Stop_def ListenInLoop_def Acceptor_Listen_def)

lemma uppers_task [simp]: "uppers (run_loop_task env t s) = uppers s"
  by (simp add: run_loop_task_def split: loop_task.split)

lemma uppers_Start: "TcpServer_Start th ok n s = Inr s' \<Longrightarrow> uppers s' = uppers s"
  by (auto simp: TcpServer_Start_def EventLoopThreadPool_Start_def srv_RunInLoop_def Let_def split: if_splits sum.splits)

section \<open>Bytes received\<close>

text \<open>Only reading changes the input buffers.\<close>

definition inputs :: "'u TcpServer \<Rightarrow> nat \<Rightarrow> Buffer" where
  "inputs t conn = input_buffer (srv_conns t conn)"

lemma inputs_fields [simp]:
  "inputs (t\<lparr>connections := ns\<rparr>) = inputs t" "inputs (t\<lparr>srv_closing := b\<rparr>) = inputs t"
  "inputs (t\<lparr>all_closed_callback := b\<rparr>) = inputs t" "inputs (t\<lparr>srv_outs := es\<rparr>) = inputs t"
  "inputs (t\<lparr>iterator_lost := b\<rparr>) = inputs t" "inputs (t\<lparr>srv_stopping := b\<rparr>) = inputs t"
  "inputs (t\<lparr>listening := b\<rparr>) = inputs t" "inputs (t\<lparr>accept_channel := ch\<rparr>) = inputs t"
  "inputs (t\<lparr>srv_queue := q\<rparr>) = inputs t" "inputs (t\<lparr>next_loop := n\<rparr>) = inputs t" "inputs (t\<lparr>loops := ls\<rparr>) = inputs t"
  "inputs (t\<lparr>pool_started := b\<rparr>) = inputs t" "inputs (t\<lparr>started := b\<rparr>) = inputs t"
  by (simp_all add: inputs_def fun_eq_iff)

lemma inputs_closing [simp]: "closing (srv_conns t conn) c \<Longrightarrow> inputs (t\<lparr>srv_conns := (srv_conns t)(conn := c)\<rparr>) = inputs t"
  by (simp add: inputs_def closing_def fun_eq_iff)

lemma inputs_Queue [simp]: "inputs (srv_QueueInLoop l t s) = inputs s"
  by (simp add: srv_QueueInLoop_def)

lemma inputs_Remove [simp]: "inputs (CheckAllClosedInLoop s) = inputs s" "inputs (RemoveConnectionInLoop conn s) = inputs s"
  by (simp_all add: RemoveConnectionInLoop_def CheckAllClosedInLoop_def Let_def)

lemma inputs_dispatch [simp]: "inputs (srv_dispatch th conn e s) = inputs s"
  by (simp add: srv_dispatch_def TcpServer_RemoveConnection_def srv_RunInLoop_def split: conn_out.split)

lemma inputs_fold: "(\<And>x s. inputs (f x s) = inputs s) \<Longrightarrow> inputs (fold f xs s) = inputs s"
  by (induction xs arbitrary: s) simp_all

lemma inputs_conn_call:
  assumes "\<And>c ts. operation (th = conn_loop s conn) (srv_conns s conn) = Some (c, ts) \<Longrightarrow> input_buffer c = inputs s conn"
  shows "inputs (srv_conn_call th conn operation s) = inputs s"
proof (cases "operation (th = conn_loop s conn) (srv_conns s conn)")
  case (Some r)
  obtain c ts where r: "r = (c, ts)" by (cases r)
  have "inputs (s\<lparr>srv_conns := (srv_conns s)(conn := c)\<rparr>) = inputs s" using assms Some r by (simp add: inputs_def fun_eq_iff)
  with Some r show ?thesis by (simp add: srv_conn_call_def inputs_fold)
qed (simp add: srv_conn_call_def)

lemma closing_input: "closing c c' \<Longrightarrow> input_buffer c' = input_buffer c"
  by (simp add: closing_def)

lemma inputs_conn_ops [simp]:
  "inputs (srv_Write env th conn data s) = inputs s" "inputs (srv_Flush env th conn s) = inputs s"
  "inputs (srv_Shutdown env th conn s) = inputs s"
  unfolding srv_Write_def srv_Flush_def srv_Shutdown_def
  by (rule inputs_conn_call, auto simp: inputs_def dest: closing_entry closing_input)+

lemma inputs_in_loop:
  "(\<And>c. operation (srv_conns s conn) = Some c \<Longrightarrow> input_buffer c = input_buffer (srv_conns s conn)) \<Longrightarrow>
   inputs (srv_in_loop conn operation s) = inputs s"
  unfolding srv_in_loop_def by (rule inputs_conn_call) (auto simp: inputs_def)

lemma inputs_in_loop_ops [simp]:
  "inputs (srv_in_loop conn (\<lambda>c. Some (ConnectEstablished c)) s) = inputs s"
  "inputs (srv_in_loop conn (\<lambda>c. Some (ConnectDestroyed c)) s) = inputs s"
  "inputs (srv_in_loop conn (\<lambda>c. Some (HandleClose c)) s) = inputs s"
  "inputs (srv_in_loop conn (\<lambda>c. Some (HandleError c)) s) = inputs s"
  "inputs (srv_in_loop conn (\<lambda>c. Some (ForceCloseInLoop (c\<lparr>overload_close_count := overload_close_count c + 1\<rparr>))) s) = inputs s"
  "inputs (srv_in_loop conn (HandleWrite send) s) = inputs s" "inputs (srv_in_loop conn (run_conn_task send t) s) = inputs s"
  by (rule inputs_in_loop; auto simp: ConnectEstablished_def Let_def closing_input [OF closing_Destroyed]
      closing_input [OF closing_HandleClose] closing_input [OF closing_HandleError] closing_input [OF closing_ForceClose]
      dest: closing_input [OF closing_HandleWrite] closing_input [OF closing_run_conn_task])+

lemma inputs_shutdown_one [simp]: "inputs (shutdown_one env th conn s) = inputs s"
  by (simp add: shutdown_one_def Let_def)

lemma inputs_CloseAll [simp]: "inputs (CloseAllConnectionsInLoop env s) = inputs s" "inputs (CloseAllConnections env th s) = inputs s"
  by (simp_all add: CloseAllConnectionsInLoop_def CloseAllConnections_def srv_RunInLoop_def Let_def inputs_fold)

lemma inputs_stop [simp]: "inputs (TcpServer_StopInLoop s) = inputs s" "inputs (TcpServer_Stop th s) = inputs s"
  "inputs (ListenInLoop s) = inputs s"
  by (simp_all add: TcpServer_StopInLoop_def TcpServer_Stop_def srv_RunInLoop_def Acceptor_Stop_def ListenInLoop_def Acceptor_Listen_def)

lemma inputs_task [simp]: "inputs (run_loop_task env t s) = inputs s"
  by (simp add: run_loop_task_def split: loop_task.split)

lemma inputs_Start: "TcpServer_Start th ok n s = Inr s' \<Longrightarrow> inputs s' = inputs s"
  by (auto simp: TcpServer_Start_def EventLoopThreadPool_Start_def srv_RunInLoop_def Let_def split: if_splits sum.splits)

section \<open>The books\<close>

fun is_finish :: "nat \<times> srv_task loop_task \<Rightarrow> bool" where
  "is_finish (l, TaskUpper (TaskScopeWrite sc data finish_call)) = finish_call"
| "is_finish (l, _) = False"

definition queued_finishes :: "RpcServer \<Rightarrow> nat" where
  "queued_finishes s = length (filter is_finish (uppers (tcp s)))"

type_synonym frame_key = "nat \<times> u64 \<times> u64"

fun ev_asked :: "srv_event \<Rightarrow> frame_key multiset" where
  "ev_asked (EvFrame sc r t) = {#(sc, r, t)#}"
| "ev_asked _ = {#}"

fun ev_answered :: "srv_event \<Rightarrow> frame_key multiset" where
  "ev_answered (EvReply sc r t) = {#(sc, r, t)#}"
| "ev_answered (EvUnanswered sc r t) = {#(sc, r, t)#}"
| "ev_answered _ = {#}"

definition asked :: "RpcServer \<Rightarrow> frame_key multiset" where
  "asked s = sum_list (map ev_asked (srv_history s))"

definition answered :: "RpcServer \<Rightarrow> frame_key multiset" where
  "answered s = sum_list (map ev_answered (srv_history s))"

fun ev_unanswerable :: "srv_event \<Rightarrow> frame_key multiset" where
  "ev_unanswerable (EvUnanswered sc r t) = {#(sc, r, t)#}"
| "ev_unanswerable _ = {#}"

fun ev_replied :: "srv_event \<Rightarrow> frame_key multiset" where
  "ev_replied (EvReply sc r t) = {#(sc, r, t)#}"
| "ev_replied _ = {#}"

definition replied :: "RpcServer \<Rightarrow> frame_key multiset" where
  "replied s = sum_list (map ev_replied (srv_history s))"

definition unanswerable :: "RpcServer \<Rightarrow> frame_key multiset" where
  "unanswerable s = sum_list (map ev_unanswerable (srv_history s))"

lemma answered_split: "answered s = replied s + unanswerable s"
proof -
  have e: "ev_answered e = ev_replied e + ev_unanswerable e" for e by (cases e) simp_all
  have "sum_list (map ev_answered es) = sum_list (map ev_replied es) + sum_list (map ev_unanswerable es)" for es
    by (induction es) (simp_all add: e)
  then show ?thesis by (simp add: answered_def replied_def unanswerable_def)
qed

definition call_key :: "ServerCall \<Rightarrow> frame_key" where
  "call_key c = (call_scope c, call_request_id c, call_trace_id c)"

definition outstanding :: "RpcServer \<Rightarrow> frame_key multiset" where
  "outstanding s = mset (map (call_key \<circ> snd) (calls s))"

definition book_ok :: "nat option \<Rightarrow> nat \<Rightarrow> frame_key multiset \<Rightarrow> RpcServer \<Rightarrow> bool" where
  "book_ok cur d R s \<longleftrightarrow>
     (\<exists>n. (case cur of None \<Rightarrow> n = 0 | Some sc \<Rightarrow> finished_calls (scopes s sc) = of_nat n)
        \<and> in_flight s = of_nat (length (calls s) + queued_finishes s + d + n)
        \<and> length (calls s) + queued_finishes s + d + n \<le> next_call s)
     \<and> (\<forall>sc. collecting (scopes s sc) \<longleftrightarrow> cur = Some sc)
     \<and> (\<forall>sc. cur \<noteq> Some sc \<longrightarrow> finished_calls (scopes s sc) = 0)
     \<and> distinct (map fst (calls s)) \<and> (\<forall>k \<in> fst ` set (calls s). k < next_call s)
     \<and> asked s = answered s + outstanding s + R"

text \<open>The books of two states differ in the counter only, by \<open>n\<close>.\<close>

definition same_books :: "u64 \<Rightarrow> RpcServer \<Rightarrow> RpcServer \<Rightarrow> bool" where
  "same_books n s s' \<longleftrightarrow> in_flight s' = in_flight s - n \<and> scopes s' = scopes s \<and> calls s' = calls s \<and> next_call s' = next_call s
     \<and> filter is_finish (uppers (tcp s')) = filter is_finish (uppers (tcp s))
     \<and> asked s' = asked s \<and> answered s' = answered s"

lemma same_books_refl [simp]: "same_books 0 s s"
  by (simp add: same_books_def)

lemma same_books_trans: "same_books m s s1 \<Longrightarrow> same_books n s1 s2 \<Longrightarrow> same_books (m + n) s s2"
  by (simp add: same_books_def)

lemmas same_books_trans0 = same_books_trans [of 0 _ _ 0, simplified]

lemma same_books_ok: "same_books 0 s s' \<Longrightarrow> book_ok cur d R s \<Longrightarrow> book_ok cur d R s'"
  by (cases cur) (simp_all add: same_books_def book_ok_def queued_finishes_def outstanding_def)

lemma same_books_emit [simp]:
  "ev_asked e = {#} \<Longrightarrow> ev_answered e = {#} \<Longrightarrow> same_books 0 s (srv_emit e s)"
  by (simp add: same_books_def srv_emit_def asked_def answered_def)

lemma same_books_Finish [simp]: "same_books 0 s (FinishShutdownInLoop env s)"
  by (simp add: FinishShutdownInLoop_def Let_def same_books_def srv_emit_def asked_def answered_def
      split: prod.split option.split)

lemma same_books_dispatch: "same_books 0 s (fold (dispatch_server_out env) es s)"
proof (induction es arbitrary: s)
  case (Cons e es)
  have "same_books 0 s (dispatch_server_out env e s)" by (simp add: dispatch_server_out_def split: server_out.split)
  with Cons show ?case by (auto intro: same_books_trans0)
qed simp

lemma same_books_with_tcp:
  assumes "uppers (f (tcp s)) = uppers (tcp s)"
  shows "same_books 0 s (with_tcp env f s)"
proof -
  have "same_books 0 s (s\<lparr>tcp := f (tcp s)\<rparr>)" using assms by (simp add: same_books_def asked_def answered_def)
  then show ?thesis unfolding with_tcp_def Let_def using same_books_dispatch by (rule same_books_trans0)
qed

lemma same_books_Run:
  assumes "th = l \<Longrightarrow> same_books 0 s (f s)" "\<not> is_finish (l, TaskUpper t)"
  shows "same_books 0 s (rs_RunInLoop th l f t s)"
  using assms by (simp add: rs_RunInLoop_def same_books_def asked_def answered_def)

lemma same_books_CloseConnections [simp]: "same_books 0 s (CloseConnectionsInLoop env s)"
proof -
  let ?s = "srv_emit (EvClosing (in_flight s)) (s\<lparr>connections_closed := True\<rparr>)"
  have "same_books 0 s ?s" by (simp add: same_books_def srv_emit_def asked_def answered_def)
  from same_books_trans0 [OF this same_books_with_tcp] show ?thesis by (simp add: CloseConnectionsInLoop_def)
qed

lemma same_books_timers:
  "same_books 0 s (s\<lparr>srv_timers := q, srv_clock_reads := n, srv_raised := r\<rparr>)"
  "same_books 0 s (s\<lparr>srv_timers := q, srv_clock_reads := n, grace_timer := g\<rparr>)"
  by (simp_all add: same_books_def asked_def answered_def)

lemma same_books_Stop [simp]: "same_books 0 s (StopInLoop env s)"
proof -
  let ?s1 = "with_tcp env (TcpServer_Stop kBaseLoop) (s\<lparr>stopping := True\<rparr>)"
  have "same_books 0 s (s\<lparr>stopping := True\<rparr>)" by (simp add: same_books_def asked_def answered_def)
  from same_books_trans0 [OF this same_books_with_tcp] have s1: "same_books 0 s ?s1" by simp
  have "same_books 0 ?s1 (StopInLoop env s)" if "\<not> stopping s"
    using that
    by (auto simp: StopInLoop_def Let_def same_books_timers intro: same_books_trans0 [OF same_books_timers(2) same_books_CloseConnections] split: prod.split sum.split)
  with s1 show ?thesis by (cases "stopping s") (auto simp: StopInLoop_def intro: same_books_trans0)
qed

lemma same_books_Server_Stop [simp]: "same_books 0 s (Server_Stop env th s)"
  unfolding Server_Stop_def by (rule same_books_Run) simp_all

lemma OnCallsFinished_books: "same_books n s (OnCallsFinished env th n s)"
proof -
  have "same_books n s (s\<lparr>in_flight := in_flight s - n\<rparr>)" by (simp add: same_books_def asked_def answered_def)
  from same_books_trans [OF this, of 0] show ?thesis
    by (auto simp: OnCallsFinished_def Let_def same_books_Run)
qed

section \<open>Completing calls\<close>

lemma book_okD:
  assumes "book_ok cur d R s"
  shows "\<And>sc. collecting (scopes s sc) \<longleftrightarrow> cur = Some sc" "\<And>sc. cur \<noteq> Some sc \<Longrightarrow> finished_calls (scopes s sc) = 0"
    "distinct (map fst (calls s))" "\<And>k. k \<in> fst ` set (calls s) \<Longrightarrow> k < next_call s"
    "asked s = answered s + outstanding s + R"
  using assms by (auto simp: book_ok_def)

lemma book_ok_count:
  assumes "book_ok cur d R s"
  obtains n where "case cur of None \<Rightarrow> n = 0 | Some sc \<Rightarrow> finished_calls (scopes s sc) = of_nat n"
    "in_flight s = of_nat (length (calls s) + queued_finishes s + d + n)" "length (calls s) + queued_finishes s + d + n \<le> next_call s"
  using assms by (auto simp: book_ok_def)

text \<open>A call is recorded as over: by the counter itself, or by the open scope.\<close>

lemma book_ok_finished:
  assumes "book_ok cur (Suc d) R s" "same_books 1 s s'"
  shows "book_ok cur d R s'"
proof -
  obtain n where "case cur of None \<Rightarrow> n = 0 | Some sc \<Rightarrow> finished_calls (scopes s sc) = of_nat n"
    "in_flight s = of_nat (length (calls s) + queued_finishes s + Suc d + n)"
    "length (calls s) + queued_finishes s + Suc d + n \<le> next_call s"
    using book_ok_count [OF assms(1)] by auto
  with assms show ?thesis
    by (cases cur) (auto simp: same_books_def book_ok_def queued_finishes_def outstanding_def intro!: exI [of _ n])
qed

lemma book_ok_collected:
  assumes "book_ok (Some sc) (Suc d) R s"
  shows "book_ok (Some sc) d R (upd_scope sc (\<lambda>f. f\<lparr>finished_calls := finished_calls f + 1\<rparr>) s)"
proof -
  obtain n where "finished_calls (scopes s sc) = of_nat n" "in_flight s = of_nat (length (calls s) + queued_finishes s + Suc d + n)"
    "length (calls s) + queued_finishes s + Suc d + n \<le> next_call s"
    using book_ok_count [OF assms] by auto
  with assms show ?thesis
    by (auto simp: book_ok_def upd_scope_def queued_finishes_def outstanding_def asked_def answered_def intro!: exI [of _ "Suc n"])
qed

lemma book_ok_queued:
  "book_ok cur (if fin then Suc d else d) R s \<Longrightarrow>
   book_ok cur d R (s\<lparr>tcp := srv_QueueInLoop l (TaskUpper (TaskScopeWrite sc data fin)) (tcp s)\<rparr>)"
  by (cases cur) (auto simp: book_ok_def queued_finishes_def outstanding_def asked_def answered_def)

lemma WriteInLoop_books:
  assumes "book_ok cur (if fin then Suc d else d) R s"
  shows "book_ok cur d R (Scope_WriteInLoop env th sc data fin s)"
proof -
  let ?conn = "scope_conn (scopes s sc)"
  define s1 where "s1 = (if data \<noteq> [] then with_tcp env (srv_Write (tcp_os env) th ?conn data) s else s)"
  define s2 where "s2 = with_tcp env (srv_Flush (tcp_os env) th ?conn) s1"
  have "same_books 0 s s1" by (simp add: s1_def same_books_with_tcp)
  then have ok1: "book_ok cur (if fin then Suc d else d) R s1" using assms by (rule same_books_ok)
  have "same_books 0 s1 s2" by (simp add: s2_def same_books_with_tcp)
  then have ok2: "book_ok cur (if fin then Suc d else d) R s2" using ok1 by (rule same_books_ok)
  have eq: "Scope_WriteInLoop env th sc data fin s =
      (if collecting (scopes s1 sc) then if fin then upd_scope sc (\<lambda>f. f\<lparr>finished_calls := finished_calls f + 1\<rparr>) s1 else s1
       else if fin then OnCallsFinished env th 1 s2 else s2)"
    by (simp add: Scope_WriteInLoop_def Let_def s1_def s2_def)
  show ?thesis
  proof (cases "collecting (scopes s1 sc)")
    case True
    then have "cur = Some sc" using book_okD(1) [OF ok1] by simp
    with True ok1 book_ok_collected [of sc d R s1] eq show ?thesis by (cases fin) auto
  next
    case False
    with ok2 book_ok_finished [OF _ OnCallsFinished_books, of cur d R s2 env th] eq show ?thesis by (cases fin) auto
  qed
qed

lemma Write_books:
  "book_ok cur (if fin then Suc d else d) R s \<Longrightarrow> book_ok cur d R (Scope_Write env th sc data fin s)"
  unfolding Scope_Write_def rs_RunInLoop_def by (simp add: WriteInLoop_books book_ok_queued del: if_split)

lemmas Write_books_rules = Write_books [of _ True, simplified] Write_books [of _ False, simplified]

lemma book_ok_answer:
  assumes "book_ok cur d (add_mset (sc, r, t) R) s" "e = EvReply sc r t \<or> e = EvUnanswered sc r t"
  shows "book_ok cur d R (srv_emit e s)"
  using assms by (cases cur) (auto simp: book_ok_def srv_emit_def queued_finishes_def outstanding_def asked_def answered_def)

lemma SendError_books:
  "book_ok cur d (add_mset (sc, r, t) R) s \<Longrightarrow> book_ok cur d R (SendError env th r t code text sc s)"
  by (simp add: SendError_def Let_def Write_books_rules book_ok_answer)

lemma Echo_books:
  "book_ok cur d (add_mset (sc, meta_request_id m, meta_trace_id m) R) s \<Longrightarrow> book_ok cur d R (SendHeartbeatEcho env th m sc s)"
  by (simp add: SendHeartbeatEcho_def Let_def Write_books_rules book_ok_answer)

lemma FailCall_books:
  "book_ok cur (Suc d) (add_mset (sc, r, t) R) s \<Longrightarrow> book_ok cur d R (FailCall env th r t code text sc s)"
  by (simp add: FailCall_def Write_books_rules SendError_books)

lemma SendResponse_books:
  "book_ok cur (Suc d) (add_mset (sc, r, t) R) s \<Longrightarrow> book_ok cur d R (SendResponse env th r t response sc s)"
  by (simp add: SendResponse_def Let_def Write_books_rules FailCall_books book_ok_answer split: option.split)

lemma mset_take_key:
  "distinct (map fst xs) \<Longrightarrow> map_of xs k = Some c \<Longrightarrow> mset xs = add_mset (k, c) (mset (filter (\<lambda>e. fst e \<noteq> k) xs))"
proof (induction xs)
  case (Cons x xs)
  show ?case
  proof (cases "fst x = k")
    case True
    with Cons.prems have "filter (\<lambda>e. fst e \<noteq> k) xs = xs" by (auto simp: filter_id_conv rev_image_eqI)
    with True Cons.prems(2) show ?thesis by (cases x) (simp del: mset_filter)
  next
    case False
    with Cons show ?thesis by (cases x) auto
  qed
qed simp

lemma take_call_books:
  assumes "book_ok cur d R s" "map_of (calls s) k = Some c"
  shows "book_ok cur (Suc d) (add_mset (call_key c) R) (take_call k s)"
proof -
  let ?cs = "filter (\<lambda>e. fst e \<noteq> k) (calls s)"
  have m: "mset (calls s) = add_mset (k, c) (mset ?cs)"
    using mset_take_key [OF book_okD(3) [OF assms(1)] assms(2)] .
  from arg_cong [OF this, of size] have "length (calls s) = Suc (length ?cs)" by (simp del: mset_filter)
  moreover from m have "outstanding s = add_mset (call_key c) (mset (map (call_key \<circ> snd) ?cs))"
    by (simp add: outstanding_def del: mset_filter)
  moreover have "distinct (map fst ?cs)" using book_okD(3) [OF assms(1)] by (simp add: distinct_map_filter)
  ultimately show ?thesis using assms(1)
    by (cases cur) (auto simp: book_ok_def take_call_def queued_finishes_def outstanding_def asked_def answered_def simp del: mset_filter)
qed

lemma RunDone_books: "book_ok cur d R s \<Longrightarrow> book_ok cur d R (RunDone env th k response s)"
  using take_call_books [of cur d R s k]
  by (auto simp: RunDone_def call_key_def intro!: SendResponse_books split: option.split)

lemma FinishCoroutine_books: "book_ok cur d R s \<Longrightarrow> book_ok cur d R (FinishCoroutine env th k outcome s)"
  using take_call_books [of cur d R s k]
  by (auto simp: FinishCoroutine_def Let_def call_key_def intro!: SendResponse_books FailCall_books
      split: option.split coroutine_outcome.split)

lemma run_act_books: "book_ok cur d R s \<Longrightarrow> book_ok cur d R (run_act env th a s)"
  using same_books_ok [OF same_books_Server_Stop, of cur d R s env th]
  by (simp add: run_act_def RunDone_books FinishCoroutine_books split: user_act.split)

lemma run_acts_books: "book_ok cur d R s \<Longrightarrow> book_ok cur d R (fold (run_act env th) as s)"
  by (induction as arbitrary: s) (simp_all add: run_act_books)

section \<open>Requests\<close>

lemma start_call_books:
  assumes "book_ok cur d (add_mset (sc, meta_request_id m, meta_trace_id m) R) s"
  shows "book_ok cur d R (start_call env th m sc coroutine s)"
  unfolding start_call_def Let_def
proof (rule run_acts_books)
  let ?c = "\<lparr>call_request_id = meta_request_id m, call_trace_id = meta_trace_id m, call_scope = sc, call_coroutine = coroutine\<rparr>"
  have "next_call s \<notin> fst ` set (calls s)" using book_okD(4) [OF assms] by blast
  with assms show "book_ok cur d R (s\<lparr>in_flight := in_flight s + 1, next_call := next_call s + 1, calls := (next_call s, ?c) # calls s\<rparr>)"
    by (cases cur) (auto simp: book_ok_def queued_finishes_def outstanding_def asked_def answered_def call_key_def)
qed

lemma HandleRequest_books:
  assumes "book_ok cur d (add_mset (sc, meta_request_id (frame_meta f), meta_trace_id (frame_meta f)) R) s"
  shows "book_ok cur d R (HandleRequest env th f sc s)"
  using assms by (simp add: HandleRequest_def HandleCoroutineRequest_def Let_def start_call_books SendError_books split: option.split)

lemma frame_asked_books:
  "book_ok cur d R s \<Longrightarrow> book_ok cur d (add_mset (sc, r, t) R) (srv_emit (EvFrame sc r t) s)"
  by (cases cur) (auto simp: book_ok_def srv_emit_def queued_finishes_def outstanding_def asked_def answered_def)

lemma HandleFrame_books: "book_ok cur d R s \<Longrightarrow> book_ok cur d R (HandleServerFrame env th f sc s)"
  by (simp add: HandleServerFrame_def Let_def Echo_books HandleRequest_books SendError_books frame_asked_books)

text \<open>A scope is opened, and closed with the calls it collected.\<close>

lemma open_scope_books:
  "book_ok None d R s \<Longrightarrow> book_ok (Some (next_scope s)) d R
     (s\<lparr>next_scope := next_scope s + 1, scopes := (scopes s)(next_scope s := ResponseFlushScope_new conn)\<rparr>)"
  by (auto simp: book_ok_def ResponseFlushScope_new_def queued_finishes_def outstanding_def asked_def answered_def intro!: exI [of _ 0])

lemma Close_books:
  assumes "book_ok (Some sc) d R s"
  shows "book_ok None d R (Scope_Close env th sc s)"
proof -
  define s1 where "s1 = upd_scope sc (\<lambda>f. f\<lparr>collecting := False\<rparr>) s"
  define s2 where "s2 = with_tcp env (srv_Flush (tcp_os env) th (scope_conn (scopes s1 sc))) s1"
  define n where "n = finished_calls (scopes s2 sc)"
  define s3 where "s3 = OnCallsFinished env th n s2"
  have c: "collecting (scopes s sc)" using book_okD(1) [OF assms] by simp
  have b2: "same_books 0 s1 s2" by (simp add: s2_def same_books_with_tcp)
  have b3: "same_books n s1 s3" using same_books_trans [OF b2 OnCallsFinished_books [of n s2 env th]] by (simp add: s3_def)
  have n: "n = finished_calls (scopes s sc)" using b2 by (simp add: n_def same_books_def s1_def upd_scope_def)
  have eq: "Scope_Close env th sc s = (if n \<noteq> 0 then upd_scope sc (\<lambda>f. f\<lparr>finished_calls := 0\<rparr>) s3 else s2)"
    using c by (simp add: Scope_Close_def Let_def s1_def s2_def s3_def n_def)
  show ?thesis
  proof (cases "n = 0")
    case True
    with assms b2 n have "book_ok None d R s2"
      by (auto simp: book_ok_def same_books_def s1_def upd_scope_def queued_finishes_def outstanding_def asked_def answered_def)
    with eq True show ?thesis by simp
  next
    case False
    have "book_ok None d R (upd_scope sc (\<lambda>f. f\<lparr>finished_calls := 0\<rparr>) s3)"
      using assms b3 n
      by (auto simp: book_ok_def same_books_def s1_def upd_scope_def queued_finishes_def outstanding_def asked_def answered_def)
    with eq False show ?thesis by simp
  qed
qed

section \<open>Messages\<close>

lemma tcp_emit [simp]: "tcp (srv_emit e s) = tcp s"
  by (simp add: srv_emit_def)

lemma tcp_Finish [simp]: "tcp (FinishShutdownInLoop env s) = tcp s"
  by (simp add: FinishShutdownInLoop_def Let_def split: prod.split option.split)

lemma tcp_dispatch [simp]: "tcp (fold (dispatch_server_out env) es s) = tcp s"
  by (induction es arbitrary: s) (simp_all add: dispatch_server_out_def split: server_out.split)

lemma tcp_with_tcp [simp]: "tcp (with_tcp env f s) = f (tcp s)"
  by (simp add: with_tcp_def Let_def)

lemma tcp_upd_scope [simp]: "tcp (upd_scope sc f s) = tcp s"
  by (simp add: upd_scope_def)

lemma inputs_Run: "inputs (tcp (f s)) = inputs (tcp s) \<Longrightarrow> inputs (tcp (rs_RunInLoop th l f t s)) = inputs (tcp s)"
  by (simp add: rs_RunInLoop_def)

lemma inputs_shutdown [simp]:
  "inputs (tcp (CloseConnectionsInLoop env s)) = inputs (tcp s)" "inputs (tcp (StopInLoop env s)) = inputs (tcp s)"
  "inputs (tcp (OnGraceTimer env s)) = inputs (tcp s)"
proof -
  show c: "inputs (tcp (CloseConnectionsInLoop env s)) = inputs (tcp s)" for s
    by (simp add: CloseConnectionsInLoop_def Let_def)
  show "inputs (tcp (StopInLoop env s)) = inputs (tcp s)" by (simp add: StopInLoop_def Let_def c split: prod.split sum.split)
  show "inputs (tcp (OnGraceTimer env s)) = inputs (tcp s)" by (simp add: OnGraceTimer_def c)
qed

lemma inputs_finished [simp]: "inputs (tcp (OnCallsFinished env th n s)) = inputs (tcp s)"
  by (simp add: OnCallsFinished_def Let_def inputs_Run)

lemma inputs_scope [simp]:
  "inputs (tcp (Scope_WriteInLoop env th sc data fin s)) = inputs (tcp s)" "inputs (tcp (Scope_Write env th sc data fin s)) = inputs (tcp s)"
  "inputs (tcp (Scope_Close env th sc s)) = inputs (tcp s)"
proof -
  show w: "inputs (tcp (Scope_WriteInLoop env th sc data fin s)) = inputs (tcp s)" by (simp add: Scope_WriteInLoop_def Let_def)
  show "inputs (tcp (Scope_Write env th sc data fin s)) = inputs (tcp s)" unfolding Scope_Write_def by (rule inputs_Run) (rule w)
  show "inputs (tcp (Scope_Close env th sc s)) = inputs (tcp s)" by (simp add: Scope_Close_def Let_def)
qed

lemma inputs_send [simp]:
  "inputs (tcp (SendError env th r t code text sc s)) = inputs (tcp s)"
  "inputs (tcp (FailCall env th r t code text sc s)) = inputs (tcp s)"
  "inputs (tcp (SendResponse env th r t response sc s)) = inputs (tcp s)"
  "inputs (tcp (SendHeartbeatEcho env th m sc s)) = inputs (tcp s)"
  by (simp_all add: SendError_def FailCall_def SendResponse_def SendHeartbeatEcho_def Let_def split: option.split)

lemma inputs_act [simp]: "inputs (tcp (run_act env th a s)) = inputs (tcp s)"
  by (simp add: run_act_def RunDone_def FinishCoroutine_def Server_Stop_def inputs_Run take_call_def Let_def
      split: user_act.split option.split coroutine_outcome.split)

lemma inputs_acts: "inputs (tcp (fold (run_act env th) as s)) = inputs (tcp s)"
  by (induction as arbitrary: s) simp_all

lemma inputs_frame [simp]: "inputs (tcp (HandleServerFrame env th f sc s)) = inputs (tcp s)"
  by (simp add: HandleServerFrame_def HandleRequest_def HandleCoroutineRequest_def start_call_def Let_def inputs_acts split: option.split)

lemma set_input_books: "book_ok cur d R s \<Longrightarrow> book_ok cur d R (set_srv_input conn b s)"
  by (rule same_books_ok) (simp_all add: same_books_def set_srv_input_def asked_def answered_def)

text \<open>The loop over the input buffer ends, takes the complete frames and leaves the rest.\<close>

lemma message_loop_total:
  assumes "buf_inv (inputs (tcp s) conn)" "book_ok (Some sc) d R s"
    and "decode_all (srv_pb env) (buf_content (inputs (tcp s) conn)) = (fs, remaining, err)"
  shows "\<exists>s'. message_loop env th conn sc s = Some s' \<and> book_ok None d R s'
    \<and> buf_inv (inputs (tcp s') conn) \<and> buf_content (inputs (tcp s') conn) = remaining
    \<and> (\<forall>c. c \<noteq> conn \<longrightarrow> inputs (tcp s') c = inputs (tcp s) c)"
  using assms
proof (induction "length (buf_content (inputs (tcp s) conn))" arbitrary: s fs rule: less_induct)
  case less
  let ?b = "inputs (tcp s) conn"
  let ?c = "buf_content ?b"
  have dec: "Decode (srv_pb env) (input_buffer (srv_conns (tcp s) conn)) = Some (decode_bytes (srv_pb env) ?c)"
    using Decode_content [OF less.prems(1)] by (simp add: inputs_def)
  note cl = Close_books [OF less.prems(2)]
  show ?case
  proof (cases "decode_bytes (srv_pb env) ?c")
    case kNeedMore
    with dec cl less.prems(1,3) show ?thesis by (simp add: message_loop.simps [of env th conn sc s])
  next
    case (kError e)
    have "book_ok None d R (with_tcp env (srv_Shutdown (tcp_os env) th conn) (Scope_Close env th sc s))"
      by (rule same_books_ok [OF same_books_with_tcp cl]) simp
    with kError dec less.prems(1,3) show ?thesis by (simp add: message_loop.simps [of env th conn sc s])
  next
    case (kOk f)
    let ?s = "HandleServerFrame env th f sc s"
    have w: "8 \<le> wire_size f" "wire_size f \<le> length ?c" using decode_bytes_size [OF kOk] by blast+
    obtain b where b: "Retrieve (wire_size f) ?b = Some b" "buf_inv b" "buf_content b = drop (wire_size f) ?c"
      using Retrieve_spec [OF less.prems(1)] w length_buf_content [OF less.prems(1)] by auto
    let ?t = "set_srv_input conn b ?s"
    have in_eq: "input_buffer (srv_conns (tcp ?s) c) = input_buffer (srv_conns (tcp s) c)" for c
      using fun_cong [OF inputs_frame [of env th f sc s], of c] unfolding inputs_def .
    have t: "inputs (tcp ?t) = (inputs (tcp s))(conn := b)" by (auto simp: set_srv_input_def inputs_def fun_eq_iff in_eq)
    have bt: "book_ok (Some sc) d R ?t" by (rule set_input_books [OF HandleFrame_books [OF less.prems(2)]])
    have "input_buffer (srv_conns (tcp ?s) conn) = ?b" by (simp add: inputs_def in_eq)
    then have om: "message_loop env th conn sc s = message_loop env th conn sc ?t"
      using dec kOk b(1) by (simp add: message_loop.simps [of env th conn sc s] Let_def)
    have gs: "\<exists>gs. decode_all (srv_pb env) (buf_content b) = (gs, remaining, err)"
      using less.prems(3) kOk b(3) by (auto split: prod.splits)
    have "length (buf_content (inputs (tcp ?t) conn)) < length ?c" using b(3) w t by simp
    from less.hyps [OF this _ bt] gs b(2) t om show ?thesis by auto
  qed
qed

lemma OnMessage_total:
  assumes "buf_inv (inputs (tcp s) conn)" "book_ok None d R s"
  shows "\<exists>s'. Server_OnMessage env th conn s = Some s' \<and> book_ok None d R s'
    \<and> buf_inv (inputs (tcp s') conn) \<and> (\<forall>c. c \<noteq> conn \<longrightarrow> inputs (tcp s') c = inputs (tcp s) c)"
proof -
  obtain fs remaining err where d: "decode_all (srv_pb env) (buf_content (inputs (tcp s) conn)) = (fs, remaining, err)"
    by (cases "decode_all (srv_pb env) (buf_content (inputs (tcp s) conn))") auto
  from message_loop_total [OF _ open_scope_books [OF assms(2), of conn], simplified, OF assms(1) d, of th] show ?thesis
    by (auto simp: Server_OnMessage_def Let_def)
qed

section \<open>Runs\<close>

definition srv_ok :: "RpcServer \<Rightarrow> bool" where
  "srv_ok s \<longleftrightarrow> book_ok None 0 {#} s \<and> (\<forall>conn. buf_inv (inputs (tcp s) conn))"

lemma srv_ok_same: "same_books 0 s s' \<Longrightarrow> inputs (tcp s') = inputs (tcp s) \<Longrightarrow> srv_ok s \<Longrightarrow> srv_ok s'"
  by (simp add: srv_ok_def same_books_ok)

lemma srv_ok_with_tcp:
  "uppers (f (tcp s)) = uppers (tcp s) \<Longrightarrow> inputs (f (tcp s)) = inputs (tcp s) \<Longrightarrow> srv_ok s \<Longrightarrow> srv_ok (with_tcp env f s)"
  by (rule srv_ok_same [OF same_books_with_tcp]) simp_all

lemma Server_HandleRead_total:
  assumes "srv_ok s" "readv_ok readv"
  shows "\<exists>s'. Server_HandleRead env conn readv s = Some s' \<and> srv_ok s'"
proof -
  obtain r b where rb: "ReadFd readv (input_buffer (srv_conns (tcp s) conn)) = Some (r, b)" "buf_inv b"
    using ReadFd_ok [OF _ assms(2), of "input_buffer (srv_conns (tcp s) conn)"] assms(1) by (auto simp: srv_ok_def inputs_def)
  let ?s = "set_srv_input conn b s"
  have ok: "srv_ok ?s" using assms(1) rb(2) set_input_books [of None 0 "{#}" s conn b]
    by (auto simp: srv_ok_def set_srv_input_def inputs_def)
  obtain s2 where s2: "Server_OnMessage env (conn_loop (tcp ?s) conn) conn ?s = Some s2" "book_ok None 0 {#} s2"
      "buf_inv (inputs (tcp s2) conn)" "\<And>c. c \<noteq> conn \<Longrightarrow> inputs (tcp s2) c = inputs (tcp ?s) c"
    using OnMessage_total [of ?s conn 0 "{#}" env "conn_loop (tcp ?s) conn"] ok by (auto simp: srv_ok_def)
  have ok2: "srv_ok s2" using s2 ok unfolding srv_ok_def by metis
  show ?thesis using rb(1) s2(1) ok ok2
    by (auto simp: Server_HandleRead_def Let_def intro!: srv_ok_with_tcp split: sum.split)
qed

lemma is_finish_upper: "is_finish x \<Longrightarrow> is_upper x"
  by (cases x rule: is_finish.cases) auto

lemma next_task_split: "next_task i q = Some (t, ts) \<Longrightarrow> \<exists>q1 q2. q = q1 @ t # q2 \<and> ts = q1 @ q2"
  by (metis next_task_def id_take_nth_drop option.discI option.inject prod.inject)

lemma next_task_finishes:
  "next_task i q = Some (t, ts) \<Longrightarrow>
   length (filter is_finish (filter is_upper q)) = (if is_finish t then 1 else 0) + length (filter is_finish (filter is_upper ts))"
  by (auto dest!: next_task_split dest: is_finish_upper)

lemma task_taken_books:
  assumes "book_ok None 0 {#} s" "next_task i (srv_queue (tcp s)) = Some (t, ts)"
  shows "book_ok None (if is_finish t then 1 else 0) {#} (s\<lparr>tcp := (tcp s)\<lparr>srv_queue := ts\<rparr>\<rparr>)"
  using assms(1) next_task_finishes [OF assms(2)]
  by (auto simp: book_ok_def queued_finishes_def uppers_def outstanding_def asked_def answered_def)

lemma run_next_task_ok: "srv_ok s \<Longrightarrow> srv_ok (run_next_task env i s)"
proof (cases "next_task i (srv_queue (tcp s))")
  case (Some r)
  assume ok: "srv_ok s"
  obtain l t ts where r: "r = ((l, t), ts)" by (metis prod.collapse)
  let ?s = "s\<lparr>tcp := (tcp s)\<lparr>srv_queue := ts\<rparr>\<rparr>"
  have b: "book_ok None (if is_finish (l, t) then 1 else 0) {#} ?s"
    using task_taken_books [of s i "(l, t)" ts] ok Some r by (simp add: srv_ok_def)
  have i: "inputs (tcp ?s) = inputs (tcp s)" by simp
  have run: "run_next_task env i s = (case t of TaskUpper u \<Rightarrow> run_srv_task env l u ?s | _ \<Rightarrow> with_tcp env (run_loop_task (tcp_os env) t) ?s)"
    using Some r by (simp add: run_next_task_def Let_def)
  show ?thesis
  proof (cases "\<exists>u. t = TaskUpper u")
    case True
    then obtain u where u: "t = TaskUpper u" ..
    have "book_ok None 0 {#} (run_srv_task env l u ?s)"
    proof (cases u)
      case (TaskScopeWrite sc data fin)
      with b u show ?thesis by (auto simp: run_srv_task_def intro!: WriteInLoop_books split: if_splits)
    next
      case TaskServerStop
      with b u same_books_ok [OF same_books_Stop] show ?thesis by (simp add: run_srv_task_def)
    next
      case TaskCloseConnections
      with b u same_books_ok [OF same_books_CloseConnections] show ?thesis by (simp add: run_srv_task_def)
    qed
    moreover have "inputs (tcp (run_srv_task env l u ?s)) = inputs (tcp s)"
      by (simp add: run_srv_task_def split: srv_task.split)
    ultimately show ?thesis using ok u by (simp add: run srv_ok_def)
  next
    case False
    then have "is_finish (l, t) = False" by (cases t) auto
    with b ok i have "srv_ok ?s" by (simp add: srv_ok_def)
    then have "srv_ok (with_tcp env (run_loop_task (tcp_os env) t) ?s)" by (rule srv_ok_with_tcp [rotated 2]) simp_all
    with False show ?thesis by (auto simp: run split: loop_task.split)
  qed
qed (simp add: run_next_task_def)

lemma accept_inputs: "(\<forall>c. buf_inv (inputs t c)) \<Longrightarrow> \<forall>c. buf_inv (inputs (Acceptor_HandleRead rs t) c)"
proof (induction rs t rule: Acceptor_HandleRead.induct)
  case (2 fd rs t)
  obtain l t1 where g: "GetNextLoop t = (l, t1)" by (cases "GetNextLoop t")
  have t1: "inputs t1 = inputs t" using g by (auto simp: GetNextLoop_def split: if_splits)
  have "inputs (TcpServer_NewConnection fd t) = (inputs t)(srv_next_connection_id t1 := Buffer_new kInitialSize)"
    using t1 g by (auto simp: TcpServer_NewConnection_def srv_RunInLoop_def Let_def TcpConnection_new_def) (auto simp: inputs_def fun_eq_iff)
  with 2 show ?case by (simp add: Buffer_new_inv)
qed simp_all

fun srv_op_ok :: "srv_op \<Rightarrow> bool" where
  "srv_op_ok (SrvEvent conn cb readv) = readv_ok readv"
| "srv_op_ok _ = True"

lemma srv_new_ok: "srv_ok (RpcServer_new fd epoch)"
  by (simp add: srv_ok_def book_ok_def RpcServer_new_def TcpServer_new_def inputs_def TcpConnection_new_def queued_finishes_def
      uppers_def asked_def answered_def outstanding_def)

lemma srv_apply_ok:
  assumes ok: "srv_ok s" and op: "srv_op_ok op"
  shows "\<exists>s'. srv_apply env op s = Some s' \<and> srv_ok s'"
proof (cases op)
  case (SrvStart threads n)
  have "srv_ok (s\<lparr>tcp := t\<rparr>)" if "TcpServer_Start kBaseLoop threads n (tcp s) = Inr t" for t
    by (rule srv_ok_same [OF _ _ ok]) (simp_all add: same_books_def asked_def answered_def uppers_Start [OF that] inputs_Start [OF that])
  with SrvStart ok show ?thesis by (auto simp: srv_apply_def Server_Start_def split: sum.split)
next
  case (SrvAccept rs)
  have "srv_ok (with_tcp env (Acceptor_HandleRead rs) s)"
    using ok same_books_ok [OF same_books_with_tcp, of "Acceptor_HandleRead rs" s] accept_inputs [of "tcp s" rs] by (auto simp: srv_ok_def)
  with SrvAccept ok show ?thesis by (simp add: srv_apply_def)
next
  case (SrvEvent conn cb readv)
  have w: "srv_ok (with_tcp env (srv_in_loop conn (\<lambda>c. Some (HandleClose c))) s)"
    "srv_ok (with_tcp env (srv_in_loop conn (\<lambda>c. Some (HandleError c))) s)"
    "srv_ok (with_tcp env (srv_in_loop conn (HandleWrite send)) s)" for send
    by (rule srv_ok_with_tcp [OF _ _ ok]; simp)+
  from Server_HandleRead_total [OF ok, of readv env conn] op SrvEvent ok w show ?thesis
    by (cases cb) (auto simp: srv_apply_def channel_event_def)
next
  case (SrvTask l)
  with run_next_task_ok [OF ok] show ?thesis by (simp add: srv_apply_def)
next
  case (SrvUser th a)
  with ok run_act_books [of None 0 "{#}" s env th a] show ?thesis by (simp add: srv_apply_def srv_ok_def)
next
  case SrvGraceTimer
  have "same_books 0 s (OnGraceTimer env s)" unfolding OnGraceTimer_def
    by (rule same_books_trans0 [OF same_books_trans0 [OF _ same_books_CloseConnections] same_books_Finish]) simp
  from srv_ok_same [OF this _ ok] SrvGraceTimer ok show ?thesis by (simp add: srv_apply_def)
qed (use ok in \<open>auto simp: srv_apply_def RegisterService_def RegisterCoroutineService_def SetShutdownCompleteCallback_def
  same_books_def asked_def answered_def intro!: srv_ok_same [OF _ _ ok] split: option.split\<close>)

lemma srv_run_ok: "srv_ok s \<Longrightarrow> list_all srv_op_ok ops \<Longrightarrow> \<exists>s'. srv_run env ops s = Some s' \<and> srv_ok s'"
proof (induction ops arbitrary: s)
  case (Cons op ops)
  from srv_apply_ok [OF Cons.prems(1), of op env] Cons.prems(2) obtain s1 where "srv_apply env op s = Some s1" "srv_ok s1" by auto
  with Cons.IH [of s1] Cons.prems(2) show ?case by simp
qed simp

section \<open>Property\<close>

text \<open>A concrete environment: \<open>send\<close> takes everything, handlers answer later.\<close>

definition demo_srv_env :: server_env where
  "demo_srv_env = \<lparr>srv_pb = demo_codec, tcp_os = \<lparr>srv_send = (\<lambda>s conn d. Inr (length d)), srv_order = (\<lambda>ns. ns)\<rparr>,
     method_count = (\<lambda>_. 1), parse_request = (\<lambda>_ _ _. True), new_request = (\<lambda>_. True), parse_coroutine_request = (\<lambda>_ _. True),
     srv_now = (\<lambda>n. int n), srv_settime_succeeds = (\<lambda>_. True), srv_user = (\<lambda>k s. [])\<rparr>"

definition demo_readv :: "nat \<Rightarrow> int + bytes" where
  "demo_readv n = Inr (take n (Encode demo_codec RpcMeta_default []))"

definition demo_requests :: "srv_op list" where
  "demo_requests = [SrvRegister (Some ([], 7)), SrvStart True 1, SrvAccept [Inr 5, Inl 11], SrvTask 0,
     SrvEvent 1 ReadCallback demo_readv, SrvUser 1 (ActDone 0 (Some ''ok'')), SrvUser 9 ActStop, SrvTask 0]"



end
