(* ===== verification/Rpc_Exchange.thy ===== *)
theory Rpc_Exchange
  imports Rpc_Outcomes Rpc_Replies
begin

text \<open>
  One call through both ends: the client channel, the codec, and the server with a handler that answers at once. What the
  client appends to its output is what the server receives; what the server sends is what the client receives.
\<close>

section \<open>The server answers a request\<close>

text \<open>A write and a flush on the thread of a healthy connection touch only this connection.\<close>

definition healthy :: "TcpConnection \<Rightarrow> bool" where
  "healthy c \<longleftrightarrow> conn_state c = kConnected \<and> max_output_buffer_bytes c = 0 \<and> high_watermark c = 0 \<and> \<not> write_complete_callback c
     \<and> \<not> IsWriting (conn_channel c) \<and> buf_inv (input_buffer c) \<and> buf_inv (output_buffer c)"

definition set_conn :: "nat \<Rightarrow> TcpConnection \<Rightarrow> RpcServer \<Rightarrow> RpcServer" where
  "set_conn conn c s = s\<lparr>tcp := (tcp s)\<lparr>srv_conns := (srv_conns (tcp s))(conn := c)\<rparr>\<rparr>"

lemma set_conn_simps [simp]:
  "srv_conns (tcp (set_conn conn c s)) = (srv_conns (tcp s))(conn := c)" "conn_loop (tcp (set_conn conn c s)) = conn_loop (tcp s)"
  "srv_outs (tcp (set_conn conn c s)) = srv_outs (tcp s)" "scopes (set_conn conn c s) = scopes s" "calls (set_conn conn c s) = calls s"
  "in_flight (set_conn conn c s) = in_flight s" "stopping (set_conn conn c s) = stopping s" "next_call (set_conn conn c s) = next_call s"
  "set_conn conn c' (set_conn conn c s) = set_conn conn c' s" "next_scope (set_conn conn c s) = next_scope s"
  by (simp_all add: set_conn_def)

lemma server_write:
  assumes "healthy (srv_conns (tcp s) conn)" "data \<noteq> []"
  shows "\<exists>b. with_tcp env (srv_Write (tcp_os env) (conn_loop (tcp s) conn) conn data) s
      = set_conn conn ((srv_conns (tcp s) conn)\<lparr>output_buffer := b\<rparr>) s
    \<and> buf_inv b \<and> buf_content b = buf_content (output_buffer (srv_conns (tcp s) conn)) @ data"
proof -
  let ?c = "srv_conns (tcp s) conn"
  obtain b where b: "Append data (output_buffer ?c) = Some b" "buf_inv b" "buf_content b = buf_content (output_buffer ?c) @ data"
    using Append_spec assms(1) by (auto simp: healthy_def)
  have "Conn_Write True data ?c = Some (?c\<lparr>output_buffer := b\<rparr>, [])"
    using assms b(1) by (simp add: Conn_Write_def WriteInLoop_def Connected_def NotifyHighWatermark_def healthy_def Let_def)
  then have "srv_Write (tcp_os env) (conn_loop (tcp s) conn) conn data (tcp s) = (tcp s)\<lparr>srv_conns := (srv_conns (tcp s))(conn := ?c\<lparr>output_buffer := b\<rparr>)\<rparr>"
    by (simp add: srv_Write_def srv_conn_call_def)
  with b show ?thesis by (auto simp: with_tcp_def set_conn_def)
qed

text \<open>A flush hands the buffered bytes to a socket that takes them.\<close>

lemma server_flush:
  assumes c: "healthy (srv_conns (tcp s) conn)" and data: "buf_content (output_buffer (srv_conns (tcp s) conn)) = data" "data \<noteq> []"
    and send: "srv_send (tcp_os env) (tcp s) conn data = Inr (length data)"
  shows "\<exists>b. with_tcp env (srv_Flush (tcp_os env) (conn_loop (tcp s) conn) conn) s
      = set_conn conn ((srv_conns (tcp s) conn)\<lparr>output_buffer := b, outs := outs (srv_conns (tcp s) conn) @ [OutSend data]\<rparr>) s"
proof -
  let ?c = "srv_conns (tcp s) conn"
  have inv: "buf_inv (output_buffer ?c)" using c by (simp add: healthy_def)
  have len: "ReadableBytes (output_buffer ?c) = length data" using length_buf_content [OF inv] data(1) by simp
  have peek: "Peek (ReadableBytes (output_buffer ?c)) (output_buffer ?c) = data"
    using data(1) inv by (simp add: Peek_def buf_content_def ReadableBytes_def buf_inv_def)
  obtain b where b: "Retrieve (length data) (output_buffer ?c) = Some b" "buf_inv b" "buf_content b = []"
    using Retrieve_spec [OF inv, of "length data"] len data(1) by auto
  have "ReadableBytes b = 0" using length_buf_content [OF b(2)] b(3) by simp
  then have "Conn_Flush True (srv_send (tcp_os env) (tcp s) conn) ?c = Some (?c\<lparr>output_buffer := b, outs := outs ?c @ [OutSend data]\<rparr>, [])"
    using c data(2) b(1) send peek len
    by (simp add: Conn_Flush_def FlushInLoop_def WriteOutputBufferInLoop_def Connected_def healthy_def OutputDrained_def emit_def Let_def)
  then have "srv_Flush (tcp_os env) (conn_loop (tcp s) conn) conn (tcp s)
      = (tcp s)\<lparr>srv_conns := (srv_conns (tcp s))(conn := ?c\<lparr>output_buffer := b, outs := outs ?c @ [OutSend data]\<rparr>)\<rparr>"
    by (simp add: srv_Flush_def srv_conn_call_def srv_dispatch_def)
  then show ?thesis by (auto simp: with_tcp_def set_conn_def)
qed

definition response_meta :: "RpcMeta \<Rightarrow> RpcMeta" where
  "response_meta meta = RpcMeta_default\<lparr>meta_type := RESPONSE, meta_request_id := meta_request_id meta, meta_trace_id := meta_trace_id meta\<rparr>"

text \<open>The environment of the exchange: the service is registered, its handler answers at once, the socket takes every byte.\<close>

definition answers_with :: "server_env \<Rightarrow> nat \<Rightarrow> RpcMeta \<Rightarrow> bytes \<Rightarrow> bytes \<Rightarrow> RpcServer \<Rightarrow> bool" where
  "answers_with env conn meta body answer s \<longleftrightarrow>
     coroutine_services s (meta_service_name meta) = None
     \<and> (\<exists>sv. services s (meta_service_name meta) = Some sv \<and> unat (meta_method_index meta) < method_count env sv
          \<and> parse_request env sv (unat (meta_method_index meta)) body)
     \<and> srv_user env (next_call s) = (\<lambda>_. [ActDone (next_call s) (Some answer)])
     \<and> (\<forall>t data. srv_send (tcp_os env) t conn data = Inr (length data)) \<and> \<not> stopping s"

text \<open>The handler runs while the responses are collected: the answer goes to the output buffer and the call is counted as finished.\<close>

lemma request_answered:
  assumes h: "healthy (srv_conns (tcp s) conn)" and env: "answers_with env conn meta body answer s"
    and sc: "scopes s sc = ResponseFlushScope_new conn" and req: "meta_type meta = REQUEST" "Encode (srv_pb env) (response_meta meta) answer \<noteq> []"
    and f: "frame_meta f = meta" "frame_payload f = body"
  shows "\<exists>s' b. HandleServerFrame env (conn_loop (tcp s) conn) f sc s = s'
    \<and> srv_conns (tcp s') = (srv_conns (tcp s))(conn := (srv_conns (tcp s) conn)\<lparr>output_buffer := b\<rparr>) \<and> buf_inv b
    \<and> buf_content b = buf_content (output_buffer (srv_conns (tcp s) conn)) @ Encode (srv_pb env) (response_meta meta) answer
    \<and> scopes s' sc = (ResponseFlushScope_new conn)\<lparr>finished_calls := 1\<rparr> \<and> in_flight s' = in_flight s + 1 \<and> stopping s' = stopping s
    \<and> conn_loop (tcp s') = conn_loop (tcp s)"
proof -
  let ?th = "conn_loop (tcp s) conn" and ?data = "Encode (srv_pb env) (response_meta meta) answer"
  let ?call = "\<lparr>call_request_id = meta_request_id meta, call_trace_id = meta_trace_id meta, call_scope = sc, call_coroutine = False\<rparr>"
  define s1 where "s1 = srv_emit (EvFrame sc (meta_request_id meta) (meta_trace_id meta)) s"
  define s2 where "s2 = s1\<lparr>in_flight := in_flight s1 + 1, next_call := next_call s + 1, calls := (next_call s, ?call) # calls s1\<rparr>"
  define s3 where "s3 = srv_emit (EvReply sc (meta_request_id meta) (meta_trace_id meta)) (take_call (next_call s) s2)"
  have s3: "tcp s3 = tcp s" "scopes s3 = scopes s" "in_flight s3 = in_flight s + 1" "stopping s3 = stopping s"
    by (simp_all add: s3_def s2_def s1_def srv_emit_def take_call_def)
  obtain b where b: "with_tcp env (srv_Write (tcp_os env) ?th conn ?data) s3 = set_conn conn ((srv_conns (tcp s) conn)\<lparr>output_buffer := b\<rparr>) s3"
      "buf_inv b" "buf_content b = buf_content (output_buffer (srv_conns (tcp s) conn)) @ ?data"
    using server_write [of s3 conn ?data env] h req(2) s3(1) by auto
  have "HandleServerFrame env ?th f sc s = start_call env ?th meta sc False s1"
    using env req(1) f unfolding answers_with_def
    by (auto simp: HandleServerFrame_def HandleRequest_def Let_def s1_def srv_emit_def)
  also have "\<dots> = RunDone env ?th (next_call s) (Some answer) s2"
    using env by (simp add: start_call_def Let_def answers_with_def s2_def s1_def srv_emit_def run_act_def)
  also have "\<dots> = SendResponse env ?th (meta_request_id meta) (meta_trace_id meta) (Some answer) sc (take_call (next_call s) s2)"
    by (simp add: RunDone_def s2_def)
  also have "\<dots> = Scope_Write env ?th sc ?data True s3"
    using req(2) by (simp add: SendResponse_def Let_def response_meta_def s3_def)
  also have "\<dots> = Scope_WriteInLoop env ?th sc ?data True s3"
    using sc by (simp add: Scope_Write_def rs_RunInLoop_def s3 ResponseFlushScope_new_def)
  finally have s': "HandleServerFrame env ?th f sc s = upd_scope sc (\<lambda>x. x\<lparr>finished_calls := finished_calls x + 1\<rparr>)
      (set_conn conn ((srv_conns (tcp s) conn)\<lparr>output_buffer := b\<rparr>) s3)" (is "_ = ?s'")
    using b(1) req(2) sc by (simp add: Scope_WriteInLoop_def Let_def s3(2) ResponseFlushScope_new_def)
  show ?thesis using b sc unfolding s'
    by (intro exI [of _ "?s'"] exI [of _ b]) (simp add: upd_scope_def s3 ResponseFlushScope_new_def)
qed

text \<open>At the end of the message the collected answers are sent and the finished calls counted.\<close>

lemma scope_closed:
  assumes h: "healthy (srv_conns (tcp s) conn)" and data: "buf_content (output_buffer (srv_conns (tcp s) conn)) = data" "data \<noteq> []"
    and sc: "scopes s sc = (ResponseFlushScope_new conn)\<lparr>finished_calls := 1\<rparr>" and "\<not> stopping s"
    and send: "\<forall>t data. srv_send (tcp_os env) t conn data = Inr (length data)"
  shows "in_flight (Scope_Close env (conn_loop (tcp s) conn) sc s) = in_flight s - 1
    \<and> outs (srv_conns (tcp (Scope_Close env (conn_loop (tcp s) conn) sc s)) conn) = outs (srv_conns (tcp s) conn) @ [OutSend data]
    \<and> input_buffer (srv_conns (tcp (Scope_Close env (conn_loop (tcp s) conn) sc s)) conn) = input_buffer (srv_conns (tcp s) conn)"
proof -
  define s1 where "s1 = upd_scope sc (\<lambda>x. x\<lparr>collecting := False\<rparr>) s"
  have s1: "tcp s1 = tcp s" "scopes s1 sc = \<lparr>scope_conn = conn, finished_calls = 1, collecting = False\<rparr>" "stopping s1 = stopping s" "in_flight s1 = in_flight s"
    using sc by (simp_all add: s1_def upd_scope_def ResponseFlushScope_new_def)
  obtain b where f: "with_tcp env (srv_Flush (tcp_os env) (conn_loop (tcp s) conn) conn) s1
      = set_conn conn ((srv_conns (tcp s) conn)\<lparr>output_buffer := b, outs := outs (srv_conns (tcp s) conn) @ [OutSend data]\<rparr>) s1"
    using server_flush [of s1 conn data env] h data send s1(1) by auto
  have "Scope_Close env (conn_loop (tcp s) conn) sc s = upd_scope sc (\<lambda>x. x\<lparr>finished_calls := 0\<rparr>)
      ((set_conn conn ((srv_conns (tcp s) conn)\<lparr>output_buffer := b, outs := outs (srv_conns (tcp s) conn) @ [OutSend data]\<rparr>) s1)\<lparr>in_flight := in_flight s - 1\<rparr>)"
    using sc f s1 assms(5) by (simp add: Scope_Close_def Let_def s1_def [symmetric] OnCallsFinished_def ResponseFlushScope_new_def)
  then show ?thesis by (simp add: upd_scope_def s1)
qed

lemma request_served:
  assumes h: "healthy (srv_conns (tcp s) conn)" and env: "answers_with env conn meta body answer s"
    and pb: "protobuf_meta (srv_pb env)" "meta_ok (srv_pb env) meta" "Encode (srv_pb env) meta body \<noteq> []"
    and req: "meta_type meta = REQUEST" "Encode (srv_pb env) (response_meta meta) answer \<noteq> []"
    and io: "buf_content (input_buffer (srv_conns (tcp s) conn)) = Encode (srv_pb env) meta body"
      "buf_content (output_buffer (srv_conns (tcp s) conn)) = []"
  shows "\<exists>s'. Server_OnMessage env (conn_loop (tcp s) conn) conn s = Some s' \<and> in_flight s' = in_flight s
    \<and> outs (srv_conns (tcp s') conn) = outs (srv_conns (tcp s) conn) @ [OutSend (Encode (srv_pb env) (response_meta meta) answer)]
    \<and> buf_content (input_buffer (srv_conns (tcp s') conn)) = []"
proof -
  let ?th = "conn_loop (tcp s) conn" and ?c = "srv_conns (tcp s) conn" and ?data = "Encode (srv_pb env) (response_meta meta) answer"
  define sc where "sc = next_scope s"
  define s0 where "s0 = s\<lparr>next_scope := sc + 1, scopes := (scopes s)(sc := ResponseFlushScope_new conn)\<rparr>"
  have s0: "tcp s0 = tcp s" "scopes s0 sc = ResponseFlushScope_new conn" "answers_with env conn meta body answer s0" "in_flight s0 = in_flight s" "stopping s0 = stopping s"
    using env by (simp_all add: s0_def answers_with_def)
  have ib: "buf_inv (input_buffer ?c)" using h by (simp add: healthy_def)
  define f where "f = \<lparr>frame_meta = meta\<lparr>meta_payload_size := of_nat (length body)\<rparr>, frame_payload = body, wire_size = length (Encode (srv_pb env) meta body)\<rparr>"
  have dec: "Decode (srv_pb env) (input_buffer ?c) = Some (kOk f)"
    using Decode_content [OF ib] decode_bytes_Encode [OF pb, of "[]"] io(1) by (simp add: sent_frame_def f_def)
  have resp: "response_meta (meta\<lparr>meta_payload_size := n\<rparr>) = response_meta meta" for n by (simp add: response_meta_def)
  obtain s1 b where s1: "HandleServerFrame env ?th f sc s0 = s1" "srv_conns (tcp s1) = (srv_conns (tcp s))(conn := ?c\<lparr>output_buffer := b\<rparr>)" "buf_inv b"
      "buf_content b = ?data" "scopes s1 sc = (ResponseFlushScope_new conn)\<lparr>finished_calls := 1\<rparr>" "in_flight s1 = in_flight s + 1" "stopping s1 = stopping s"
      "conn_loop (tcp s1) = conn_loop (tcp s)"
    using request_answered [of s0 conn env "meta\<lparr>meta_payload_size := of_nat (length body)\<rparr>" body answer sc f] h s0 req io(2)
    by (auto simp: resp f_def answers_with_def)
  obtain bi where bi: "Retrieve (wire_size f) (input_buffer ?c) = Some bi" "buf_inv bi" "buf_content bi = []"
    using Retrieve_spec [OF ib, of "wire_size f"] io(1) length_buf_content [OF ib] by (auto simp: f_def)
  define s2 where "s2 = set_srv_input conn bi s1"
  have s2: "srv_conns (tcp s2) conn = ?c\<lparr>output_buffer := b, input_buffer := bi\<rparr>" "conn_loop (tcp s2) = conn_loop (tcp s)" "scopes s2 = scopes s1"
      "in_flight s2 = in_flight s + 1" "stopping s2 = stopping s"
    using s1 by (simp_all add: s2_def set_srv_input_def)
  have "Decode (srv_pb env) (input_buffer (srv_conns (tcp s2) conn)) = Some kNeedMore"
    using Decode_content [OF bi(2)] bi(3) s2(1) by (simp add: decode_bytes_def)
  then have loop: "message_loop env ?th conn sc s2 = Some (Scope_Close env ?th sc s2)" by (simp add: message_loop.simps [of env ?th conn sc s2])
  have "Server_OnMessage env ?th conn s = message_loop env ?th conn sc s0" by (simp add: Server_OnMessage_def sc_def s0_def Let_def)
  also have "\<dots> = Some (Scope_Close env ?th sc s2)"
    using dec s0(1) s1(1,2) bi(1) loop by (simp add: message_loop.simps [of env ?th conn sc s0] s2_def Let_def)
  finally have run: "Server_OnMessage env ?th conn s = Some (Scope_Close env ?th sc s2)" .
  have "healthy (srv_conns (tcp s2) conn)" "buf_content (output_buffer (srv_conns (tcp s2) conn)) = ?data" "scopes s2 sc = (ResponseFlushScope_new conn)\<lparr>finished_calls := 1\<rparr>"
      "\<not> stopping s2" "\<forall>t data. srv_send (tcp_os env) t conn data = Inr (length data)"
    using h s1(3,4,5) s2 bi(2) env by (simp_all add: healthy_def answers_with_def)
  from scope_closed [OF this(1,2) req(2) this(3-)] s2 bi(3) have "\<exists>s'. Scope_Close env ?th sc s2 = s' \<and> in_flight s' = in_flight s
      \<and> outs (srv_conns (tcp s') conn) = outs ?c @ [OutSend ?data] \<and> buf_content (input_buffer (srv_conns (tcp s') conn)) = []"
    by simp
  with run show ?thesis by auto
qed

section \<open>The client sends the request\<close>

definition request_meta :: "rpc_env \<Rightarrow> method_ptr \<Rightarrow> RpcChannel \<Rightarrow> RpcMeta" where
  "request_meta env m s = RpcMeta_default\<lparr>meta_type := REQUEST, meta_request_id := of_nat (next_request_id s),
     meta_service_name := service_full_name env m, meta_method_index := method_index env m,
     meta_trace_id := fst (GenerateTraceId env s)\<rparr>"

text \<open>A connected channel with room in its table, and a fresh controller without deadline.\<close>

definition can_call :: "nat \<Rightarrow> nat \<Rightarrow> RpcChannel \<Rightarrow> bool" where
  "can_call conn k s \<longleftrightarrow> connection_state s = ChConnected \<and> connection s = Some conn \<and> Connected (conns s conn)
     \<and> (max_pending_calls s = 0 \<or> length (pending_calls s) < max_pending_calls s)
     \<and> ctrl_deadline (controllers s k) = None \<and> timeout (controllers s k) = None \<and> \<not> cancel_requested (controllers s k)
     \<and> map_of (pending_calls s) (of_nat (next_request_id s)) = None \<and> buf_inv (output_buffer (conns s conn))
     \<and> max_output_buffer_bytes (conns s conn) = 0 \<and> high_watermark (conns s conn) = 0"

lemma call_sent:
  assumes can: "can_call conn k s" and ne: "EncodeMessage (pb env) (request_meta env m s) req \<noteq> []"
    and s': "s' = CallMethod env True (Some m) (RpcControllerAt k) (Some req) (Some resp) (Some d) s"
  shows "buf_content (output_buffer (conns s' conn)) = buf_content (output_buffer (conns s conn)) @ EncodeMessage (pb env) (request_meta env m s) req
    \<and> (\<exists>p. map_of (pending_calls s') (of_nat (next_request_id s)) = Some p \<and> pc_call p = Pending \<and> pc_controller p = RpcControllerAt k
        \<and> pc_response p = resp \<and> pc_done p = Some d)"
proof -
  let ?r = "of_nat (next_request_id s) :: u64" and ?data = "EncodeMessage (pb env) (request_meta env m s) req"
  define e where "e = emit_event (EvBegin (ByClosure d)) s"
  obtain t s2 where t: "GenerateTraceId env (e\<lparr>next_request_id := Suc (next_request_id s)\<rparr>) = (t, s2)" by (cases "GenerateTraceId env (e\<lparr>next_request_id := Suc (next_request_id s)\<rparr>)")
  have t_eq: "t = fst (GenerateTraceId env s)" using t by (auto simp: GenerateTraceId_def Now_def e_def emit_event_def Let_def)
  define p where "p = \<lparr>pc_response = resp, pc_controller = RpcControllerAt k, pc_done = Some d, pc_completion = None, pc_method = m, pc_deadline = None,
      pc_sent_at = fst (Now env s2), pc_trace_id = t, pc_timeout_timer = 0, pc_cancel_token = -1, pc_call = Pending\<rparr>"
  define s4 where "s4 = snd (Now env s2)"
  have same: "connection_state s4 = connection_state s" "connection s4 = connection s" "conns s4 = conns s" "max_pending_calls s4 = max_pending_calls s"
      "pending_calls s4 = pending_calls s" "controllers s4 = controllers s"
    using t by (auto simp: s4_def GenerateTraceId_def Now_def e_def emit_event_def Let_def)
  have no_deadline: "ResolveDeadline env (RpcControllerAt k) e = (None, e)"
    using can by (simp add: ResolveDeadline_def can_call_def e_def emit_event_def)
  have e: "next_request_id e = next_request_id s" by (simp add: e_def emit_event_def)
  have "s' = RegisterAndSend env ?r ?data p s4"
    using ne unfolding s' CallMethod_def BeginCall_def
    by (simp add: notification_of_def e_def [symmetric] no_deadline e t upd_completion_def Let_def case_prod_unfold request_meta_def t_eq p_def s4_def)
  from RegisterAndSend_admitted [OF _ _ _ _ _ _ _ _ _ ne _ _ _ this, of conn k] can show ?thesis
    by (simp add: same can_call_def p_def)
qed

section \<open>The exchange\<close>


definition demo_client_env :: rpc_env where
  "demo_client_env = demo_rpc\<lparr>process_id := 0, steady_now := (\<lambda>_. 0)\<rparr>"

definition demo_client :: RpcChannel where
  "demo_client = demo_connected\<lparr>trace_counter := 0\<rparr>"

definition demo_echo_env :: server_env where
  "demo_echo_env = demo_srv_env\<lparr>srv_user := (\<lambda>k s. [ActDone k (Some ''pong'')])\<rparr>"

definition demo_echo :: "Buffer \<Rightarrow> RpcServer" where
  "demo_echo b = (RpcServer_new 3 0)\<lparr>services := [''Echo'' \<mapsto> 7],
     tcp := (TcpServer_new 3)\<lparr>srv_conns := (\<lambda>_. (TcpConnection_new 5)\<lparr>conn_state := kConnected, input_buffer := b\<rparr>)\<rparr>\<rparr>"


end
