(* ===== verification/Rpc_Awaiter.thy ===== *)
theory Rpc_Awaiter
  imports Rpc_Outcomes
begin

text \<open>
  The coroutine client: \<open>nebula/rpc/rpc_awaiter.h\<close>, \<open>nebula/rpc/rpc_result.h\<close> and
  \<open>nebula/rpc/rpc_coroutine_client.h\<close>. An awaiter owns the request, the response, the controller and a share of the completion
  of one call; here it holds their addresses in the tables of the channel. It hands the coroutine to the channel when the
  coroutine suspends, and takes it back when it is destroyed before the call is over. The theorems state that a
  coroutine is resumed at most once, never after its awaiter is gone, and relate the two ways of reading the result.
\<close>

section \<open>Options and results\<close>

record RpcCallOptions =
  opt_timeout :: int
  opt_deadline :: "int option"
  opt_flush :: bool

definition RpcCallOptions_default :: RpcCallOptions where
  "RpcCallOptions_default = \<lparr>opt_timeout = 0, opt_deadline = None, opt_flush = True\<rparr>"

record RpcResult =
  result_response :: "bytes option"
  result_state :: RpcCallState
  result_error_text :: string
  result_cancelled :: bool
  result_request_id :: u64
  result_trace_id :: u64
  result_latency :: int
  result_remote_error_code :: int

definition RpcResult_Ok :: "RpcResult \<Rightarrow> bool" where
  "RpcResult_Ok r \<longleftrightarrow> result_state r = Completed \<and> \<not> result_cancelled r \<and> result_error_text r = []"

text \<open>The exception \<open>RpcError\<close>.\<close>

datatype RpcError = RpcError RpcCallState string

section \<open>The storage of an awaiter\<close>

text \<open>\<open>channel_\<close> is the channel whose state the operations take; \<open>response_\<close> and \<open>controller_\<close> are members, known here by their addresses.\<close>

record RpcAwaiterStorage =
  st_method :: "method_ptr option"
  st_request :: MessageLite
  st_response :: nat
  st_controller :: nat
  st_options :: RpcCallOptions
  st_completion :: "nat option"

text \<open>The constructor, at the addresses of the two members it default-constructs.\<close>

definition RpcAwaiterStorage_new ::
  "method_ptr option \<Rightarrow> MessageLite \<Rightarrow> RpcCallOptions \<Rightarrow> nat \<Rightarrow> nat \<Rightarrow> RpcChannel \<Rightarrow> RpcAwaiterStorage \<times> RpcChannel" where
  "RpcAwaiterStorage_new method request options resp c s =
     (\<lparr>st_method = method, st_request = request, st_response = resp, st_controller = c, st_options = options, st_completion = None\<rparr>,
      s\<lparr>controllers := (controllers s)(c := RpcController_new), responses := (responses s)(resp := None)\<rparr>)"

definition Ready :: "RpcAwaiterStorage \<Rightarrow> bool" where
  "Ready w = False"

definition RpcCoroutineCompletion_new :: RpcCoroutineCompletion where
  "RpcCoroutineCompletion_new =
     \<lparr>coro_handle = False, coro_request_id = 0, coro_trace_id = 0, coro_latency = 0, coro_remote_error_code = 0\<rparr>"

text \<open>\<open>k\<close> is the address of the new completion. Runs on the thread of the loop, which the code asserts.\<close>

definition Suspend :: "rpc_env \<Rightarrow> nat \<Rightarrow> RpcAwaiterStorage \<Rightarrow> RpcChannel \<Rightarrow> RpcAwaiterStorage \<times> RpcChannel" where
  "Suspend env k w s =
     (let w1 = w\<lparr>st_completion := Some k\<rparr>;
          s1 = s\<lparr>completions := (completions s)(k := RpcCoroutineCompletion_new\<lparr>coro_handle := True\<rparr>)\<rparr>;
          s2 = (case opt_deadline (st_options w) of
                  Some d \<Rightarrow> upd_controller (st_controller w) (SetDeadline d) s1
                | None \<Rightarrow>
                    if opt_timeout (st_options w) > 0
                    then upd_controller (st_controller w) (SetTimeout (opt_timeout (st_options w))) s1 else s1);
          s3 = StartCoroutineCall env (st_method w) (RpcControllerAt (st_controller w)) (Some (st_request w))
                 (Some (st_response w)) (st_completion w1) s2;
          s4 = (if opt_flush (st_options w) then Flush env True s3 else s3)
      in (w1, s4))"

text \<open>
  The body of the destructor; the members, among them the controller, are destroyed after it. The call of
  \<open>CancelCoroutineCall\<close> goes through \<open>channel_\<close>, which the awaiter does not own.
\<close>

definition RpcAwaiterStorage_destroy :: "rpc_env \<Rightarrow> bool \<Rightarrow> RpcAwaiterStorage \<Rightarrow> RpcChannel \<Rightarrow> RpcChannel" where
  "RpcAwaiterStorage_destroy env in_loop w s =
     (case st_completion w of
        None \<Rightarrow> s
      | Some k \<Rightarrow>
          if \<not> coro_handle (completions s k) then s
          else let s1 = upd_completion (Some k) (\<lambda>c. c\<lparr>coro_handle := False\<rparr>) s;
                   request_id = coro_request_id (completions s1 k)
            in if request_id \<noteq> 0 then on_channel (CancelCoroutineCall env in_loop request_id) s1 else s1)"

section \<open>The awaiters\<close>

definition RpcAwaiter_new ::
  "method_ptr option \<Rightarrow> MessageLite \<Rightarrow> int \<Rightarrow> nat \<Rightarrow> nat \<Rightarrow> RpcChannel \<Rightarrow> RpcAwaiterStorage \<times> RpcChannel" where
  "RpcAwaiter_new method request t resp c s =
     RpcAwaiterStorage_new method request \<lparr>opt_timeout = t, opt_deadline = None, opt_flush = False\<rparr> resp c s"

definition RpcAwaiter_await_resume :: "RpcAwaiterStorage \<Rightarrow> RpcChannel \<Rightarrow> RpcError + bytes option" where
  "RpcAwaiter_await_resume w s =
     (let controller = controllers s (st_controller w);
          state = call_state controller
      in if state = Cancelled then Inl (RpcError state ''RPC cancelled'')
         else if state = Timeout \<or> state = Failed \<or> state = Invalid then Inl (RpcError state (error_text controller))
         else if failed controller then Inl (RpcError Failed (error_text controller))
         else Inr (responses s (st_response w)))"

definition RpcResultAwaiter_await_resume :: "RpcAwaiterStorage \<Rightarrow> RpcChannel \<Rightarrow> RpcResult" where
  "RpcResultAwaiter_await_resume w s =
     (let controller = controllers s (st_controller w);
          completion = map_option (completions s) (st_completion w)
      in \<lparr>result_response = responses s (st_response w), result_state = call_state controller,
          result_error_text = error_text controller, result_cancelled = canceled controller,
          result_request_id = (case completion of Some c \<Rightarrow> coro_request_id c | None \<Rightarrow> 0),
          result_trace_id = (case completion of Some c \<Rightarrow> coro_trace_id c | None \<Rightarrow> 0),
          result_latency = (case completion of Some c \<Rightarrow> coro_latency c | None \<Rightarrow> 0),
          result_remote_error_code = (case completion of Some c \<Rightarrow> coro_remote_error_code c | None \<Rightarrow> 0)\<rparr>)"

text \<open>\<open>CoCall\<close> constructs an \<open>RpcResultAwaiter\<close>.\<close>

definition CoCall ::
  "method_ptr option \<Rightarrow> MessageLite \<Rightarrow> RpcCallOptions \<Rightarrow> nat \<Rightarrow> nat \<Rightarrow> RpcChannel \<Rightarrow> RpcAwaiterStorage \<times> RpcChannel" where
  "CoCall method request options resp c s = RpcAwaiterStorage_new method request options resp c s"

section \<open>The stub\<close>

datatype stub_exn = StubNullChannel | MethodNotFound string

text \<open>\<open>descriptor\<close> is the method table of the protobuf service: \<open>FindMethodByName\<close> of a service, or no service at all.\<close>

definition FindServiceMethod :: "(string \<Rightarrow> method_ptr option) option \<Rightarrow> string \<Rightarrow> method_ptr option" where
  "FindServiceMethod service method_name = (case service of None \<Rightarrow> None | Some FindMethodByName \<Rightarrow> FindMethodByName method_name)"

definition CoroutineStub_new :: "'c option \<Rightarrow> stub_exn + 'c" where
  "CoroutineStub_new channel = (case channel of None \<Rightarrow> Inl StubNullChannel | Some c \<Rightarrow> Inr c)"

definition ResolveMethod :: "(string \<Rightarrow> method_ptr option) option \<Rightarrow> string \<Rightarrow> stub_exn + method_ptr" where
  "ResolveMethod descriptor method_name =
     (case FindServiceMethod descriptor method_name of None \<Rightarrow> Inl (MethodNotFound method_name) | Some m \<Rightarrow> Inr m)"

definition Stub_Call ::
  "method_ptr option \<Rightarrow> MessageLite \<Rightarrow> RpcCallOptions \<Rightarrow> nat \<Rightarrow> nat \<Rightarrow> RpcChannel \<Rightarrow> RpcAwaiterStorage \<times> RpcChannel" where
  "Stub_Call method request options resp c s = CoCall method request options resp c s"

definition CallByName ::
  "(string \<Rightarrow> method_ptr option) option \<Rightarrow> string \<Rightarrow> MessageLite \<Rightarrow> RpcCallOptions \<Rightarrow> nat \<Rightarrow> nat \<Rightarrow> RpcChannel \<Rightarrow>
   stub_exn + RpcAwaiterStorage \<times> RpcChannel" where
  "CallByName descriptor method_name request options resp c s =
     (case ResolveMethod descriptor method_name of
        Inl e \<Rightarrow> Inl e
      | Inr m \<Rightarrow> Inr (Stub_Call (Some m) request options resp c s))"

definition Stub_Flush :: "rpc_env \<Rightarrow> bool \<Rightarrow> RpcChannel \<Rightarrow> RpcChannel" where
  "Stub_Flush env in_loop s = Flush env in_loop s"

section \<open>Resumption\<close>

definition resumptions :: "nat \<Rightarrow> RpcChannel \<Rightarrow> nat" where
  "resumptions k s = length (filter (\<lambda>e. e = EvResumed k) (history s))"

lemma resumptions_bound: "resumptions k s \<le> resumable k s"
  by (simp add: resumptions_def resumable_def)

lemma resumable_cleared: "resumable k (upd_completion (Some k) (\<lambda>c. c\<lparr>coro_handle := False\<rparr>) s) = resumptions k s"
  by (simp add: resumptions_def resumable_def upd_completion_def)

lemma keep_resumable: "keep s s' \<Longrightarrow> resumable k s' \<le> resumable k s"
  by (simp add: step_def chan_mono_def)

lemma conserves_resumable: "conserves s s' \<Longrightarrow> resumable k s' \<le> resumable k s"
  by (simp add: conserves_def)

text \<open>Everything that \<^const>\<open>Suspend\<close> does before it starts the call: the ledger of calls is as before, and one more resumption is possible.\<close>

lemma suspend_prepared:
  assumes "s2 = (case d of Some x \<Rightarrow> upd_controller c (SetDeadline x) s1 | None \<Rightarrow> if b then upd_controller c (SetTimeout t) s1 else s1)"
    and "s1 = s\<lparr>completions := (completions s)(k := RpcCoroutineCompletion_new\<lparr>coro_handle := True\<rparr>)\<rparr>"
  shows "resumable k s2 = resumptions k s + 1" "chan_wf s \<Longrightarrow> chan_wf s2" "sane s2 \<longleftrightarrow> sane s" "owed s X \<Longrightarrow> owed s2 X"
  unfolding assms
  by (auto simp: resumable_def resumptions_def upd_controller_def chan_wf_def queued_ids_def sane_def owed_def waiting_def begun_def
    notified_def split: option.splits)

context user_code
begin

lemma Suspend_keeps:
  assumes "Suspend env k w s = (w1, s1)"
  shows "st_completion w1 = Some k" "resumable k s1 \<le> resumptions k s + 1" "sane s1 \<Longrightarrow> chan_wf s \<Longrightarrow> chan_wf s1"
proof -
  define s' where "s' = s\<lparr>completions := (completions s)(k := RpcCoroutineCompletion_new\<lparr>coro_handle := True\<rparr>)\<rparr>"
  define s2 where "s2 = (case opt_deadline (st_options w) of Some d \<Rightarrow> upd_controller (st_controller w) (SetDeadline d) s'
    | None \<Rightarrow> if opt_timeout (st_options w) > 0 then upd_controller (st_controller w) (SetTimeout (opt_timeout (st_options w))) s' else s')"
  define s3 where "s3 = StartCoroutineCall env (st_method w) (RpcControllerAt (st_controller w)) (Some (st_request w))
    (Some (st_response w)) (Some k) s2"
  have eq: "w1 = w\<lparr>st_completion := Some k\<rparr>" "s1 = (if opt_flush (st_options w) then Flush env True s3 else s3)"
    using assms unfolding s3_def s2_def s'_def by (auto simp: Suspend_def Let_def)
  note pr = suspend_prepared [OF s2_def s'_def]
  have "keep s2 s3" unfolding s3_def by (rule StartCoroutine_keep)
  then have k: "keep s2 s1" unfolding eq using step_trans [OF _ Flush_keep] by simp
  show "st_completion w1 = Some k" by (simp add: eq(1))
  show "resumable k s1 \<le> resumptions k s + 1" using keep_resumable [OF k, of k] pr(1) by simp
  show "sane s1 \<Longrightarrow> chan_wf s \<Longrightarrow> chan_wf s1" using k pr(2) by (simp add: step_def)
qed

lemma awaiter_destroy_resumable:
  assumes "st_completion w = Some k"
  shows "resumable k (RpcAwaiterStorage_destroy env in_loop w s) \<le> resumptions k s"
proof (cases "coro_handle (completions s k)")
  case True
  let ?s1 = "upd_completion (Some k) (\<lambda>c. c\<lparr>coro_handle := False\<rparr>) s"
  have "resumable k (on_channel (CancelCoroutineCall env in_loop r) ?s1) \<le> resumable k ?s1" for r
    using keep_resumable [OF CancelCoroutine_keep] by (simp add: on_channel_def)
  then show ?thesis using True assms resumable_cleared by (simp add: RpcAwaiterStorage_destroy_def Let_def)
qed (use assms in \<open>simp add: RpcAwaiterStorage_destroy_def resumable_def resumptions_def\<close>)

end

text \<open>Cancelling a call that a coroutine waits for takes it out of the table; no user code runs on the way.\<close>

lemma cancel_coroutine_call:
  assumes "map_of (pending_calls s) r = Some pc" "pc_call pc = Pending" "pc_completion pc = Some k"
  shows "map_of (pending_calls (CompleteCallWithCancel env r s)) r = None"
proof -
  obtain s1 where c: "ClaimCall env r Cancelled s = (Some (pc\<lparr>pc_call := Cancelled\<rparr>), s1)" and rel: "released env r pc s s1"
    using Claim_released [OF assms(1,2)] by blast
  have "pending_calls (CompleteCallWithCancel env r s) = pending_calls s1"
    using assms(3) by (simp add: CompleteCallWithCancel_def c case_prod_unfold Let_def NotifyCompletion_def QueueCoroutineResume_def
      QueueInLoop_def emit_event_def upd_controller_def split: controller_ref.splits)
  with rel show ?thesis by (auto simp: released_def map_of_eq_None_iff)
qed

lemma awaiter_destroy_cancels:
  assumes "st_completion w = Some k" "coro_handle (completions s k)" "r = coro_request_id (completions s k)" "r \<noteq> 0"
    and "alive_guard s" "chan_wf s" "\<forall>pc. map_of (pending_calls s) r = Some pc \<longrightarrow> pc_completion pc = Some k"
  shows "map_of (pending_calls (RpcAwaiterStorage_destroy env True w s)) r = None"
proof -
  let ?s1 = "upd_completion (Some k) (\<lambda>c. c\<lparr>coro_handle := False\<rparr>) s"
  have g: "alive_guard ?s1" using assms(5) by (simp add: upd_completion_def)
  have "coro_request_id (completions ?s1 k) = r" using assms(3) by (simp add: upd_completion_def)
  then have eq: "RpcAwaiterStorage_destroy env True w s = CompleteCallWithCancel env r ?s1"
    using assms(1,2,4,5) g by (simp add: RpcAwaiterStorage_destroy_def Let_def on_channel_def CancelCoroutineCall_def)
  show ?thesis
  proof (cases "map_of (pending_calls s) r")
    case None
    then show ?thesis unfolding eq by (simp add: CompleteCallWithCancel_def ClaimCall_def)
  next
    case (Some pc)
    then have "pc_call pc = Pending" using assms(6) map_of_SomeD [OF Some] by (force simp: chan_wf_def)
    with cancel_coroutine_call [of ?s1 r pc k env] Some assms(7) show ?thesis unfolding eq by simp
  qed
qed

text \<open>C16: A coroutine is resumed at most once for one \<open>co_await\<close>, whatever the network, other calls and user
  callbacks do in between and however its call ends; once its awaiter is destroyed it is never resumed again, and when the
  destruction happens on the loop before the resumption, the call it waited for is no longer pending.\<close>

theorem coroutine_resumed_at_most_once:
  assumes "Suspend (user_env os p n) k w s = (w1, s1)" "chan_run (user_env os p n) ops s1 = Some s2"
    and "s3 = RpcAwaiterStorage_destroy (user_env os p n) in_loop w1 s2" "chan_run (user_env os p n) ops' s3 = Some s4"
  shows "resumptions k s2 \<le> resumptions k s + 1 \<and> resumptions k s4 \<le> resumptions k s2
    \<and> (\<forall>r. r = coro_request_id (completions s2 k) \<and> r \<noteq> 0 \<and> coro_handle (completions s2 k) \<and> in_loop \<and> alive_guard s2
         \<and> chan_wf s \<and> sane s2 \<and> (\<forall>pc. map_of (pending_calls s2) r = Some pc \<longrightarrow> pc_completion pc = Some k)
         \<longrightarrow> map_of (pending_calls s3) r = None)"
proof -
  note sus = uc.Suspend_keeps [OF assms(1)]
  have c: "conserves s1 s2" "conserves s3 s4" by (rule uc.run_conserves [OF assms(2)], rule uc.run_conserves [OF assms(4)])
  have 1: "resumptions k s2 \<le> resumptions k s + 1"
    using resumptions_bound [of k s2] conserves_resumable [OF c(1), of k] sus(2) by linarith
  have 2: "resumptions k s4 \<le> resumptions k s2"
    using resumptions_bound [of k s4] conserves_resumable [OF c(2), of k]
      uc.awaiter_destroy_resumable [OF sus(1), of os p n in_loop s2] unfolding assms(3) by linarith
  have "chan_wf s2" if "chan_wf s" "sane s2" using c(1) sus(3) that by (simp add: conserves_def)
  then have "\<forall>r. r = coro_request_id (completions s2 k) \<and> r \<noteq> 0 \<and> coro_handle (completions s2 k) \<and> in_loop \<and> alive_guard s2
         \<and> chan_wf s \<and> sane s2 \<and> (\<forall>pc. map_of (pending_calls s2) r = Some pc \<longrightarrow> pc_completion pc = Some k)
         \<longrightarrow> map_of (pending_calls s3) r = None"
    using awaiter_destroy_cancels [OF sus(1)] unfolding assms(3) by (cases in_loop) simp_all
  with 1 2 show ?thesis by blast
qed

definition demo_storage :: RpcAwaiterStorage where
  "demo_storage = \<lparr>st_method = Some 0, st_request = \<lparr>msg_ByteSizeLong = 1, msg_Serialize = ''x''\<rparr>, st_response = 0,
     st_controller = 0, st_options = RpcCallOptions_default, st_completion = None\<rparr>"

theorem coroutine_resumed_at_most_once_witness:
  "\<exists>w1 s1 s4. Suspend (user_env demo_rpc demo_program 0) 7 demo_storage (RpcChannel_new 0) = (w1, s1)
    \<and> chan_run (user_env demo_rpc demo_program 0) [OpTask 0] (RpcAwaiterStorage_destroy (user_env demo_rpc demo_program 0) True w1 s1) = Some s4
    \<and> resumptions 7 s4 \<le> resumptions 7 s1 \<and> resumptions 7 s1 \<le> 1"
proof -
  let ?env = "user_env demo_rpc demo_program 0"
  obtain w1 s1 where su: "Suspend ?env 7 demo_storage (RpcChannel_new 0) = (w1, s1)"
    by (cases "Suspend ?env 7 demo_storage (RpcChannel_new 0)")
  obtain s4 where r: "chan_run ?env [OpTask 0] (RpcAwaiterStorage_destroy ?env True w1 s1) = Some s4" by (simp add: chan_apply_def)
  have z: "resumptions 7 (RpcChannel_new 0) = 0" by (simp add: resumptions_def RpcChannel_new_def)
  have e: "chan_run ?env [] s1 = Some s1" by simp
  from coroutine_resumed_at_most_once [OF su e refl r] su r z show ?thesis by auto
qed

section \<open>Reading the result\<close>

text \<open>What the two awaiters read of a call that is over. They agree on success when the controller has an error text exactly if it
  has failed.\<close>

theorem awaiters_agree:
  fixes s :: RpcChannel and w :: RpcAwaiterStorage
  defines "c \<equiv> controllers s (st_controller w)"
  assumes "call_state c \<noteq> Pending" "canceled c \<longrightarrow> call_state c = Cancelled" "failed c \<longleftrightarrow> error_text c \<noteq> []"
  shows "(\<exists>resp. RpcAwaiter_await_resume w s = Inr resp) \<longleftrightarrow> RpcResult_Ok (RpcResultAwaiter_await_resume w s)"
  using assms by (cases "call_state c") (auto simp: RpcAwaiter_await_resume_def RpcResultAwaiter_await_resume_def RpcResult_Ok_def Let_def)

text \<open>A server that fails a call with an empty text: the exception is thrown, and the result object says \<open>Ok\<close>.\<close>

lemma empty_error_text_is_ok:
  assumes "map_of (pending_calls s) r = Some pc" "pc_call pc = Pending" "pc_controller pc = RpcControllerAt (st_controller w)"
    and "pc_completion pc = Some k" "meta_type (frame_meta f) = ERROR" "meta_error_text (frame_meta f) = []"
    and "\<not> canceled (controllers s (st_controller w))" "s' = CompleteCallWithFrame env r f s"
  shows "RpcResult_Ok (RpcResultAwaiter_await_resume w s')" "RpcAwaiter_await_resume w s' = Inl (RpcError Failed [])"
proof -
  obtain s2 where s2: "s' = NotifyCompletion env (pc\<lparr>pc_call := Completed\<rparr>) s2"
    "outcome_of (controllers s2 (st_controller w)) = (outcome_of (controllers s (st_controller w)))\<lparr>out_state := Completed, out_failed := True, out_error := []\<rparr>"
    using CompleteCall_released [OF assms(1,2,3), of env f] assms(5,6,8) by auto
  have "controllers s' = controllers s2"
    using assms(4) s2(1) by (simp add: NotifyCompletion_def QueueCoroutineResume_def QueueInLoop_def emit_event_def)
  with s2(2) assms(7) show "RpcResult_Ok (RpcResultAwaiter_await_resume w s')" "RpcAwaiter_await_resume w s' = Inl (RpcError Failed [])"
    by (simp_all add: outcome_of_def RpcResultAwaiter_await_resume_def RpcAwaiter_await_resume_def RpcResult_Ok_def Let_def)
qed

text \<open>An awaiter must not outlive its channel: a coroutine whose resumption is still queued makes the destructor use it.\<close>

lemma awaiter_outlives_channel:
  assumes "st_completion w = Some k" "coro_handle (completions s k)" "coro_request_id (completions s k) \<noteq> 0" "\<not> alive_guard s"
  shows "dangling (RpcAwaiterStorage_destroy env in_loop w s)"
  using assms by (simp add: RpcAwaiterStorage_destroy_def on_channel_def upd_completion_def Let_def)

end
