(* ===== verification/Coro_Task.thy ===== *)
theory Coro_Task
  imports Prelude
begin

text \<open>
  \<open>nebula/coro/task.h\<close>: lazy coroutine tasks. A coroutine frame is a cell of a heap: the promise (\<open>TaskPromiseBase\<close> and the
  value of \<open>Task<T>::promise_type\<close>) together with the point at which the body is suspended. A body is what is left to execute,
  from one suspension to the next: return, throw, await another coroutine, or suspend in an awaiter of the event loop,
  which resumes it with a value. Transferring control from one coroutine to another (\<open>await_suspend\<close> and the final
  awaiter return a handle) changes the active frame. The theorems show that this implements ordinary calls: the awaiting
  coroutine gets the value or the exception of the awaited one, and every frame is freed exactly once.
\<close>

section \<open>Frames\<close>

datatype coro_exn = UserExn nat | LogicError string

text \<open>
  \<open>CoCall\<close> awaits the task of a newly called coroutine function; what follows may catch the exception it
  receives. \<open>CoAwaitEmpty\<close> awaits a task without a frame.
\<close>

datatype 'v body =
    CoReturn 'v
  | CoThrow coro_exn
  | CoCall "'v body" "coro_exn + 'v \<Rightarrow> 'v body"
  | CoAwaitEmpty "coro_exn + 'v \<Rightarrow> 'v body"
  | CoSuspend "'v \<Rightarrow> 'v body"

text \<open>Where a frame is suspended. A frame in \<open>Awaits\<close> holds the \<open>TaskAwaiter\<close>, which owns the frame of the awaited coroutine.\<close>

datatype 'v code =
    Runs "'v body"
  | Awaits nat "coro_exn + 'v \<Rightarrow> 'v body"
  | Parks "'v \<Rightarrow> 'v body"
  | Finished

record 'v frame =
  fr_code :: "'v code"
  fr_detached :: bool
  continuation :: "nat option"
  exception_ptr :: "coro_exn option"
  fr_value :: "'v option"

definition SetContinuation :: "nat option \<Rightarrow> 'v frame \<Rightarrow> 'v frame" where
  "SetContinuation c fr = fr\<lparr>continuation := c\<rparr>"

definition unhandled_exception :: "coro_exn \<Rightarrow> 'v frame \<Rightarrow> 'v frame" where
  "unhandled_exception e fr = fr\<lparr>exception_ptr := Some e\<rparr>"

definition return_value :: "'v \<Rightarrow> 'v frame \<Rightarrow> 'v frame" where
  "return_value v fr = fr\<lparr>fr_value := Some v\<rparr>"

text \<open>The outcome and the promise afterwards.\<close>

definition FinalizeResult :: "'v frame \<Rightarrow> (coro_exn + 'v) \<times> 'v frame" where
  "FinalizeResult fr =
     (case exception_ptr fr of
        Some e \<Rightarrow> (Inl e, fr)
      | None \<Rightarrow>
          (case fr_value fr of
             None \<Rightarrow> (Inl (LogicError ''Task result is unavailable or already consumed''), fr)
           | Some v \<Rightarrow> (Inr v, fr\<lparr>fr_value := None\<rparr>)))"

text \<open>\<open>waiter\<close> is the handle that the awaiter of the event loop keeps.\<close>

record 'v coro_state =
  frames :: "nat \<Rightarrow> 'v frame option"
  next_frame :: nat
  active :: "nat option"
  waiter :: "nat option"

text \<open>Using the handle of a destroyed or finished coroutine is undefined; an exception that leaves a detached coroutine terminates the program.\<close>

datatype coro_fault = UndefinedBehaviour | Terminated

text \<open>Calling a coroutine function: \<open>initial_suspend\<close> suspends a \<open>Task\<close> before its first statement.\<close>

definition new_frame :: "bool \<Rightarrow> 'v body \<Rightarrow> 'v frame" where
  "new_frame detached b = \<lparr>fr_code = Runs b, fr_detached = detached, continuation = None, exception_ptr = None, fr_value = None\<rparr>"

definition create_frame :: "bool \<Rightarrow> 'v body \<Rightarrow> 'v coro_state \<Rightarrow> nat \<times> 'v coro_state" where
  "create_frame detached b st =
     (next_frame st, st\<lparr>frames := (frames st)(next_frame st := Some (new_frame detached b)), next_frame := next_frame st + 1\<rparr>)"

definition set_frame :: "nat \<Rightarrow> 'v frame \<Rightarrow> 'v coro_state \<Rightarrow> 'v coro_state" where
  "set_frame h fr st = st\<lparr>frames := (frames st)(h := Some fr)\<rparr>"

text \<open>\<open>coroutine_handle::destroy\<close>: the objects of a suspended frame are destroyed, among them an awaiter and with it the frame it owns.\<close>

partial_function (option) destroy :: "nat \<Rightarrow> (nat \<Rightarrow> 'v frame option) \<Rightarrow> (nat \<Rightarrow> 'v frame option) option" where
  "destroy h hp =
     (case hp h of
        None \<Rightarrow> None
      | Some fr \<Rightarrow>
          (case fr_code fr of
             Awaits c k \<Rightarrow> Option.bind (destroy c hp) (\<lambda>hp1. Some (hp1(h := None)))
           | _ \<Rightarrow> Some (hp(h := None))))"

definition frame_done :: "nat \<Rightarrow> 'v coro_state \<Rightarrow> bool" where
  "frame_done h st = (case frames st h of Some fr \<Rightarrow> fr_code fr = Finished | None \<Rightarrow> False)"

section \<open>Task objects\<close>

record Task =
  task_handle :: "nat option"
  task_started :: bool

definition Task_empty :: Task where
  "Task_empty = \<lparr>task_handle = None, task_started = False\<rparr>"

definition Task_of :: "nat \<Rightarrow> Task" where
  "Task_of h = \<lparr>task_handle = Some h, task_started = False\<rparr>"

text \<open>The new task and what is left of the old one.\<close>

definition Task_move :: "Task \<Rightarrow> Task \<times> Task" where
  "Task_move other = (other, \<lparr>task_handle = None, task_started = False\<rparr>)"

definition Task_Reset :: "Task \<Rightarrow> 'v coro_state \<Rightarrow> (Task \<times> 'v coro_state) option" where
  "Task_Reset t st =
     (case task_handle t of
        None \<Rightarrow> Some (t\<lparr>task_started := False\<rparr>, st)
      | Some h \<Rightarrow>
          (case destroy h (frames st) of
             None \<Rightarrow> None
           | Some hp \<Rightarrow> Some (Task_empty, st\<lparr>frames := hp\<rparr>)))"

text \<open>Assignment of another task; the assignment of a task to itself does nothing.\<close>

definition Task_assign :: "bool \<Rightarrow> Task \<Rightarrow> Task \<Rightarrow> 'v coro_state \<Rightarrow> (Task \<times> Task \<times> 'v coro_state) option" where
  "Task_assign same this other st =
     (if same then Some (this, this, st)
      else case Task_Reset this st of
             None \<Rightarrow> None
           | Some (_, st1) \<Rightarrow> Some (fst (Task_move other), snd (Task_move other), st1))"

definition Task_Done :: "Task \<Rightarrow> 'v coro_state \<Rightarrow> bool" where
  "Task_Done t st = (case task_handle t of None \<Rightarrow> True | Some h \<Rightarrow> frame_done h st)"

definition Task_Result :: "Task \<Rightarrow> 'v coro_state \<Rightarrow> (coro_exn + 'v) \<times> 'v coro_state" where
  "Task_Result t st =
     (case task_handle t of
        None \<Rightarrow> (Inl (LogicError ''Task::Result called on an empty task''), st)
      | Some h \<Rightarrow>
          if \<not> frame_done h st then (Inl (LogicError ''Task::Result called before the task finished''), st)
          else let (r, fr) = FinalizeResult (the (frames st h)) in (r, set_frame h fr st))"

text \<open>\<open>Task<void>\<close> has no value to consume.\<close>

definition FinalizeResult_void :: "unit frame \<Rightarrow> coro_exn + unit" where
  "FinalizeResult_void fr = (case exception_ptr fr of Some e \<Rightarrow> Inl e | None \<Rightarrow> Inr ())"

definition Task_Result_void :: "Task \<Rightarrow> unit coro_state \<Rightarrow> coro_exn + unit" where
  "Task_Result_void t st =
     (case task_handle t of
        None \<Rightarrow> Inl (LogicError ''Task::Result called on an empty task'')
      | Some h \<Rightarrow>
          if \<not> frame_done h st then Inl (LogicError ''Task::Result called before the task finished'')
          else FinalizeResult_void (the (frames st h)))"

text \<open>The handle of the awaiter, and the task that was awaited.\<close>

definition Task_co_await :: "Task \<Rightarrow> coro_exn + nat option \<times> Task" where
  "Task_co_await t =
     (if task_started t then Inl (LogicError ''cannot co_await a Task that was already started'')
      else Inr (task_handle t, \<lparr>task_handle = None, task_started = True\<rparr>))"

section \<open>Awaiting a task\<close>

definition TaskAwaiter_await_ready :: "nat option \<Rightarrow> 'v coro_state \<Rightarrow> bool" where
  "TaskAwaiter_await_ready a st = (case a of None \<Rightarrow> True | Some c \<Rightarrow> frame_done c st)"

text \<open>\<open>h\<close> is the coroutine that awaits; control goes to the awaited one.\<close>

definition TaskAwaiter_await_suspend :: "nat \<Rightarrow> nat \<Rightarrow> 'v coro_state \<Rightarrow> coro_fault + 'v coro_state" where
  "TaskAwaiter_await_suspend c h st =
     (case frames st c of
        None \<Rightarrow> Inl UndefinedBehaviour
      | Some fr \<Rightarrow> Inr ((set_frame c (SetContinuation (Some h) fr) st)\<lparr>active := Some c\<rparr>))"

text \<open>The result, and the state after the awaiter with the frame it owns is destroyed.\<close>

definition TaskAwaiter_await_resume :: "nat option \<Rightarrow> 'v coro_state \<Rightarrow> coro_fault + (coro_exn + 'v) \<times> 'v coro_state" where
  "TaskAwaiter_await_resume a st =
     (case a of
        None \<Rightarrow> Inr (Inl (LogicError ''co_await on an empty Task''), st)
      | Some c \<Rightarrow>
          (case frames st c of
             None \<Rightarrow> Inl UndefinedBehaviour
           | Some fr \<Rightarrow>
               (case FinalizeResult fr of
                  (r, fr1) \<Rightarrow>
                    (case destroy c (frames (set_frame c fr1 st)) of
                       None \<Rightarrow> Inl UndefinedBehaviour
                     | Some hp \<Rightarrow> Inr (r, st\<lparr>frames := hp\<rparr>)))))"

text \<open>The body of frame \<open>h\<close> goes on with the result of the awaited task.\<close>

definition continue_with :: "nat \<Rightarrow> (coro_exn + 'v \<Rightarrow> 'v body) \<Rightarrow> coro_fault + (coro_exn + 'v) \<times> 'v coro_state \<Rightarrow> coro_fault + 'v coro_state" where
  "continue_with h k res =
     (case res of
        Inl e \<Rightarrow> Inl e
      | Inr (r, st) \<Rightarrow>
          (case frames st h of
             None \<Rightarrow> Inl UndefinedBehaviour
           | Some fr \<Rightarrow> Inr (set_frame h (fr\<lparr>fr_code := Runs (k r)\<rparr>) st)))"

text \<open>\<open>co_await\<close> of a task in frame \<open>h\<close>.\<close>

definition await_task :: "nat \<Rightarrow> 'v frame \<Rightarrow> Task \<Rightarrow> (coro_exn + 'v \<Rightarrow> 'v body) \<Rightarrow> 'v coro_state \<Rightarrow> coro_fault + 'v coro_state" where
  "await_task h fr t k st =
     (case Task_co_await t of
        Inl e \<Rightarrow> continue_with h k (Inr (Inl e, st))
      | Inr (a, _) \<Rightarrow>
          if TaskAwaiter_await_ready a st then continue_with h k (TaskAwaiter_await_resume a st)
          else TaskAwaiter_await_suspend (the a) h (set_frame h (fr\<lparr>fr_code := Awaits (the a) k\<rparr>) st))"

section \<open>Execution\<close>

text \<open>
  The end of a body. \<open>Task\<close> suspends finally and transfers control to the continuation, or returns to the
  caller of \<open>resume\<close> when there is none; a detached coroutine does not suspend finally and its frame is freed.
\<close>

definition final_suspend :: "nat \<Rightarrow> 'v frame \<Rightarrow> 'v coro_state \<Rightarrow> 'v coro_state" where
  "final_suspend h fr st =
     (if fr_detached fr then st\<lparr>frames := (frames st)(h := None), active := None\<rparr>
      else (set_frame h (fr\<lparr>fr_code := Finished\<rparr>) st)\<lparr>active := continuation fr\<rparr>)"

text \<open>One step of the active coroutine \<open>h\<close>, up to its next transfer of control or the next statement after an await.\<close>

definition coro_step :: "nat \<Rightarrow> 'v coro_state \<Rightarrow> coro_fault + 'v coro_state" where
  "coro_step h st =
     (case frames st h of
        None \<Rightarrow> Inl UndefinedBehaviour
      | Some fr \<Rightarrow>
          (case fr_code fr of
             Runs (CoReturn v) \<Rightarrow> Inr (final_suspend h (return_value v fr) st)
           | Runs (CoThrow e) \<Rightarrow>
               if fr_detached fr then Inl Terminated else Inr (final_suspend h (unhandled_exception e fr) st)
           | Runs (CoCall b k) \<Rightarrow> (let (c, st1) = create_frame False b st in await_task h fr (Task_of c) k st1)
           | Runs (CoAwaitEmpty k) \<Rightarrow> await_task h fr Task_empty k st
           | Runs (CoSuspend k) \<Rightarrow> Inr ((set_frame h (fr\<lparr>fr_code := Parks k\<rparr>) st)\<lparr>active := None, waiter := Some h\<rparr>)
           | Awaits c k \<Rightarrow> continue_with h k (TaskAwaiter_await_resume (Some c) st)
           | Parks k \<Rightarrow> Inl UndefinedBehaviour
           | Finished \<Rightarrow> Inl UndefinedBehaviour))"

text \<open>\<open>coroutine_handle::resume\<close> returns when no coroutine is active. Bodies may run for ever only by awaiting for ever; that the
  loop returns is part of the theorems.\<close>

partial_function (option) resume_loop :: "'v coro_state \<Rightarrow> (coro_fault + 'v coro_state) option" where
  "resume_loop st =
     (case active st of
        None \<Rightarrow> Some (Inr st)
      | Some h \<Rightarrow> (case coro_step h st of Inl e \<Rightarrow> Some (Inl e) | Inr st1 \<Rightarrow> resume_loop st1))"

definition Task_Start :: "Task \<Rightarrow> 'v coro_state \<Rightarrow> Task \<times> (coro_fault + 'v coro_state) option" where
  "Task_Start t st =
     (case task_handle t of
        None \<Rightarrow> (t, Some (Inr st))
      | Some h \<Rightarrow>
          if task_started t \<or> frame_done h st then (t, Some (Inr st))
          else (t\<lparr>task_started := True\<rparr>, resume_loop (st\<lparr>active := Some h\<rparr>)))"

text \<open>\<open>initial_suspend\<close> of a detached coroutine does not suspend.\<close>

definition DetachedTask_call :: "'v body \<Rightarrow> 'v coro_state \<Rightarrow> (coro_fault + 'v coro_state) option" where
  "DetachedTask_call b st = (let (h, st1) = create_frame True b st in resume_loop (st1\<lparr>active := Some h\<rparr>))"

text \<open>The event loop resumes the coroutine that waits, with the value its awaiter returns.\<close>

definition wake :: "'v \<Rightarrow> 'v coro_state \<Rightarrow> coro_fault + 'v coro_state" where
  "wake v st =
     (case waiter st of
        None \<Rightarrow> Inl UndefinedBehaviour
      | Some h \<Rightarrow>
          (case frames st h of
             Some fr \<Rightarrow>
               (case fr_code fr of
                  Parks k \<Rightarrow> Inr ((set_frame h (fr\<lparr>fr_code := Runs (k v)\<rparr>) st)\<lparr>active := Some h, waiter := None\<rparr>)
                | _ \<Rightarrow> Inl UndefinedBehaviour)
           | None \<Rightarrow> Inl UndefinedBehaviour))"

text \<open>Run the active coroutine, then resume it with the inputs as long as it waits for one; the inputs it did not use are left.\<close>

fun feed :: "'v list \<Rightarrow> 'v coro_state \<Rightarrow> (coro_fault + 'v coro_state \<times> 'v list) option" where
  "feed [] st =
     (case resume_loop st of None \<Rightarrow> None | Some (Inl e) \<Rightarrow> Some (Inl e) | Some (Inr st1) \<Rightarrow> Some (Inr (st1, [])))"
| "feed (v # vs) st =
     (case resume_loop st of
        None \<Rightarrow> None
      | Some (Inl e) \<Rightarrow> Some (Inl e)
      | Some (Inr st1) \<Rightarrow>
          if waiter st1 = None then Some (Inr (st1, v # vs))
          else (case wake v st1 of Inl e \<Rightarrow> Some (Inl e) | Inr st2 \<Rightarrow> feed vs st2))"

section \<open>The reference: calls\<close>

text \<open>A body as an ordinary computation on a stack of calls: its outcome and the inputs it leaves, or that it waits for more input.\<close>

primrec eval :: "'v body \<Rightarrow> 'v list \<Rightarrow> ((coro_exn + 'v) \<times> 'v list) option" where
  "eval (CoReturn v) ins = Some (Inr v, ins)"
| "eval (CoThrow e) ins = Some (Inl e, ins)"
| "eval (CoCall b k) ins = (case eval b ins of None \<Rightarrow> None | Some (r, ins1) \<Rightarrow> eval (k r) ins1)"
| "eval (CoAwaitEmpty k) ins = eval (k (Inl (LogicError ''co_await on an empty Task''))) ins"
| "eval (CoSuspend k) ins = (case ins of [] \<Rightarrow> None | v # vs \<Rightarrow> eval (k v) vs)"

lemma feed_step: "active st = Some h \<Longrightarrow> coro_step h st = Inr st1 \<Longrightarrow> feed ins st = feed ins st1"
  by (cases ins) (simp_all add: resume_loop.simps [of st])

lemma feed_idle: "active st = None \<Longrightarrow> resume_loop st = Some (Inr st)"
  by (simp add: resume_loop.simps)

lemma feed_wake: "active st = None \<Longrightarrow> waiter st \<noteq> None \<Longrightarrow> wake v st = Inr st1 \<Longrightarrow> feed (v # vs) st = feed vs st1"
  by (auto simp: feed_idle)

text \<open>A coroutine about to execute: its frame is in the heap, beyond the last frame nothing is allocated.\<close>

definition placed :: "nat \<Rightarrow> 'v frame \<Rightarrow> 'v coro_state \<Rightarrow> bool" where
  "placed h fr st \<longleftrightarrow> frames st h = Some fr \<and> h < next_frame st \<and> (\<forall>i \<ge> next_frame st. frames st i = None)
     \<and> active st = Some h \<and> waiter st = None \<and> exception_ptr fr = None \<and> fr_value fr = None"

fun ending :: "coro_exn + 'v \<Rightarrow> 'v body" where
  "ending (Inr v) = CoReturn v"
| "ending (Inl e) = CoThrow e"

definition at_code :: "nat \<Rightarrow> 'v frame \<Rightarrow> 'v code \<Rightarrow> nat \<Rightarrow> 'v coro_state \<Rightarrow> 'v coro_state" where
  "at_code h fr c n st = st\<lparr>frames := (frames st)(h := Some (fr\<lparr>fr_code := c\<rparr>)), next_frame := n\<rparr>"

lemma placed_at_code: "placed h fr st \<Longrightarrow> next_frame st \<le> n \<Longrightarrow> placed h (fr\<lparr>fr_code := c\<rparr>) (at_code h fr c n st)"
  by (simp add: placed_def at_code_def)

lemma at_code_twice: "at_code h (fr\<lparr>fr_code := c\<rparr>) c' n' (at_code h fr c n st) = at_code h fr c' n' st"
  by (simp add: at_code_def)

lemma at_code_same:
  assumes "placed h fr st" "fr_code fr = c"
  shows "at_code h fr c (next_frame st) st = st"
proof -
  have "fr\<lparr>fr_code := c\<rparr> = fr" using assms(2) by (cases fr) simp
  moreover have "(frames st)(h := Some fr) = frames st" using assms(1) by (simp add: placed_def fun_upd_idem)
  ultimately show ?thesis by (cases st) (simp add: at_code_def)
qed

text \<open>Awaiting a new coroutine: control goes to its frame.\<close>

definition called :: "nat \<Rightarrow> 'v frame \<Rightarrow> 'v body \<Rightarrow> (coro_exn + 'v \<Rightarrow> 'v body) \<Rightarrow> 'v coro_state \<Rightarrow> 'v coro_state" where
  "called h fr b k st = st\<lparr>frames := (frames st)(h := Some (fr\<lparr>fr_code := Awaits (next_frame st) k\<rparr>),
     next_frame st := Some (SetContinuation (Some h) (new_frame False b))), next_frame := next_frame st + 1, active := Some (next_frame st)\<rparr>"

lemma called_simps [simp]:
  "next_frame (called h fr b k st) = next_frame st + 1" "fr_code (SetContinuation c (new_frame d b)) = Runs b"
  "frames (called h fr b k st) (next_frame st) = Some (SetContinuation (Some h) (new_frame False b))"
  by (simp_all add: called_def SetContinuation_def new_frame_def)

lemma step_call:
  assumes "placed h fr st" "fr_code fr = Runs (CoCall b k)"
  shows "coro_step h st = Inr (called h fr b k st)"
  using assms by (auto simp: coro_step_def placed_def create_frame_def await_task_def Task_co_await_def Task_of_def
      TaskAwaiter_await_ready_def frame_done_def new_frame_def TaskAwaiter_await_suspend_def set_frame_def called_def fun_upd_twist)

lemma placed_called:
  "placed h fr st \<Longrightarrow> placed (next_frame st) (SetContinuation (Some h) (new_frame False b)) (called h fr b k st)"
  by (auto simp: placed_def called_def SetContinuation_def new_frame_def)

text \<open>The awaited coroutine ends: its result arrives and its frame is freed.\<close>

lemma child_returns:
  assumes "placed h fr st" "st1 = at_code (next_frame st) (SetContinuation (Some h) (new_frame False b)) (Runs (ending r)) n (called h fr b k st)"
    and "next_frame st < n"
  shows "feed ins st1 = feed ins (at_code h fr (Runs (k r)) n st)"
proof -
  let ?c = "next_frame st"
  let ?fr = "(SetContinuation (Some h) (new_frame False b))\<lparr>fr_code := Finished, exception_ptr := (case r of Inl e \<Rightarrow> Some e | Inr v \<Rightarrow> None),
    fr_value := (case r of Inl e \<Rightarrow> None | Inr v \<Rightarrow> Some v)\<rparr>"
  let ?st2 = "st1\<lparr>frames := (frames st1)(?c := Some ?fr), active := Some h\<rparr>"
  have ne: "h \<noteq> ?c" "frames st ?c = None" using assms(1) by (auto simp: placed_def)
  have st1: "active st1 = Some ?c" "frames st1 ?c = Some ((SetContinuation (Some h) (new_frame False b))\<lparr>fr_code := Runs (ending r)\<rparr>)"
    by (simp_all add: assms(2) at_code_def called_def)
  have a: "coro_step ?c st1 = Inr ?st2"
    using st1 by (cases r) (simp_all add: coro_step_def final_suspend_def set_frame_def return_value_def unhandled_exception_def
      SetContinuation_def new_frame_def)
  have h: "frames ?st2 h = Some (fr\<lparr>fr_code := Awaits ?c k\<rparr>)"
    using ne by (simp add: assms(2) at_code_def called_def)
  have f: "fst (FinalizeResult ?fr) = r" "fr_code (snd (FinalizeResult ?fr)) = Finished"
    by (cases r; simp add: FinalizeResult_def SetContinuation_def new_frame_def)+
  have d: "destroy ?c (frames (set_frame ?c (snd (FinalizeResult ?fr)) ?st2)) = Some ((frames ?st2)(?c := None))"
    using f(2) by (simp add: destroy.simps set_frame_def)
  have "coro_step h ?st2 = Inr (set_frame h (fr\<lparr>fr_code := Runs (k r)\<rparr>) (?st2\<lparr>frames := (frames ?st2)(?c := None)\<rparr>))"
    using h d f(1) ne(1) by (simp add: coro_step_def TaskAwaiter_await_resume_def continue_with_def case_prod_unfold)
  moreover have "set_frame h (fr\<lparr>fr_code := Runs (k r)\<rparr>) (?st2\<lparr>frames := (frames ?st2)(?c := None)\<rparr>) = at_code h fr (Runs (k r)) n st"
    using ne assms(1) by (auto simp: assms(2) at_code_def called_def set_frame_def placed_def fun_eq_iff)
  ultimately have "coro_step h ?st2 = Inr (at_code h fr (Runs (k r)) n st)" by simp
  from feed_step [OF st1(1) a] feed_step [OF _ this] show ?thesis by simp
qed

lemma feed_await_empty:
  assumes "placed h fr st" "fr_code fr = Runs (CoAwaitEmpty k)"
  shows "feed ins st = feed ins (at_code h fr (Runs (k (Inl (LogicError ''co_await on an empty Task'')))) (next_frame st) st)"
proof (rule feed_step)
  show "active st = Some h" using assms(1) by (simp add: placed_def)
  show "coro_step h st = Inr (at_code h fr (Runs (k (Inl (LogicError ''co_await on an empty Task'')))) (next_frame st) st)"
    using assms by (simp add: coro_step_def placed_def await_task_def Task_co_await_def Task_empty_def TaskAwaiter_await_ready_def
      TaskAwaiter_await_resume_def continue_with_def set_frame_def at_code_def)
qed

definition parked :: "nat \<Rightarrow> 'v frame \<Rightarrow> ('v \<Rightarrow> 'v body) \<Rightarrow> 'v coro_state \<Rightarrow> 'v coro_state" where
  "parked h fr k st = st\<lparr>frames := (frames st)(h := Some (fr\<lparr>fr_code := Parks k\<rparr>)), active := None, waiter := Some h\<rparr>"

lemma feed_suspend:
  assumes "placed h fr st" "fr_code fr = Runs (CoSuspend k)"
  shows "feed ins st = feed ins (parked h fr k st)"
    and "feed (v # vs) (parked h fr k st) = feed vs (at_code h fr (Runs (k v)) (next_frame st) st)"
proof -
  have "coro_step h st = Inr (parked h fr k st)" "active st = Some h"
    using assms by (simp_all add: coro_step_def placed_def set_frame_def parked_def)
  from feed_step [OF this(2,1)] show "feed ins st = feed ins (parked h fr k st)" .
  have "wake v (parked h fr k st) = Inr (at_code h fr (Runs (k v)) (next_frame st) st)"
    using assms by (simp add: wake_def parked_def set_frame_def at_code_def placed_def)
  from feed_wake [OF _ _ this] show "feed (v # vs) (parked h fr k st) = feed vs (at_code h fr (Runs (k v)) (next_frame st) st)"
    by (simp add: parked_def)
qed

lemma body_runs:
  "eval b ins = Some (r, ins') \<Longrightarrow> placed h fr st \<Longrightarrow> fr_code fr = Runs b \<Longrightarrow>
   \<exists>n \<ge> next_frame st. feed ins st = feed ins' (at_code h fr (Runs (ending r)) n st)"
proof (induction b arbitrary: ins r ins' h fr st)
  case (CoCall b k)
  obtain r1 ins1 where e: "eval b ins = Some (r1, ins1)" "eval (k r1) ins1 = Some (r, ins')"
    using CoCall.prems(1) by (auto split: option.splits)
  have "active st = Some h" using CoCall.prems(2) by (simp add: placed_def)
  note s1 = feed_step [OF this step_call [OF CoCall.prems(2,3)], of ins]
  let ?c = "SetContinuation (Some h) (new_frame False b)"
  obtain n where n: "next_frame st < n"
    "feed ins (called h fr b k st) = feed ins1 (at_code (next_frame st) ?c (Runs (ending r1)) n (called h fr b k st))"
    using CoCall.IH(1) [OF e(1) placed_called [OF CoCall.prems(2), of b k]] by (auto simp: Suc_le_eq)
  note s2 = child_returns [OF CoCall.prems(2) refl n(1), where b = b and r = r1 and k = k and ins = ins1]
  have "placed h (fr\<lparr>fr_code := Runs (k r1)\<rparr>) (at_code h fr (Runs (k r1)) n st)"
    by (rule placed_at_code [OF CoCall.prems(2)]) (use n(1) in simp)
  from CoCall.IH(2) [OF _ e(2) this] obtain n' where n': "n \<le> n'"
    "feed ins1 (at_code h fr (Runs (k r1)) n st) = feed ins' (at_code h fr (Runs (ending r)) n' st)"
    by (auto simp: at_code_twice) (auto simp: at_code_def)
  show ?case using s1 n s2 n' by (intro exI [of _ n']) simp
next
  case (CoAwaitEmpty k)
  let ?r = "Inl (LogicError ''co_await on an empty Task'')"
  have "placed h (fr\<lparr>fr_code := Runs (k ?r)\<rparr>) (at_code h fr (Runs (k ?r)) (next_frame st) st)"
    by (rule placed_at_code [OF CoAwaitEmpty.prems(2)]) simp
  from CoAwaitEmpty.IH [OF _ _ this] CoAwaitEmpty.prems(1)
  have "\<exists>n \<ge> next_frame st. feed ins (at_code h fr (Runs (k ?r)) (next_frame st) st) = feed ins' (at_code h fr (Runs (ending r)) n st)"
    by (auto simp: at_code_twice) (auto simp: at_code_def)
  then show ?case using feed_await_empty [OF CoAwaitEmpty.prems(2,3), of ins] by simp
next
  case (CoSuspend k)
  obtain v vs where v: "ins = v # vs" "eval (k v) vs = Some (r, ins')" using CoSuspend.prems(1) by (auto split: list.splits)
  have "placed h (fr\<lparr>fr_code := Runs (k v)\<rparr>) (at_code h fr (Runs (k v)) (next_frame st) st)"
    by (rule placed_at_code [OF CoSuspend.prems(2)]) simp
  from CoSuspend.IH [OF _ v(2) this]
  have "\<exists>n \<ge> next_frame st. feed vs (at_code h fr (Runs (k v)) (next_frame st) st) = feed ins' (at_code h fr (Runs (ending r)) n st)"
    by (auto simp: at_code_twice) (auto simp: at_code_def)
  then show ?case using feed_suspend [OF CoSuspend.prems(2,3)] v(1) by simp
next
  case (CoReturn v)
  then have "at_code h fr (Runs (ending r)) (next_frame st) st = st" by (intro at_code_same) auto
  with CoReturn.prems(1) show ?case by (intro exI [of _ "next_frame st"]) simp
next
  case (CoThrow e)
  then have "at_code h fr (Runs (ending r)) (next_frame st) st = st" by (intro at_code_same) auto
  with CoThrow.prems(1) show ?case by (intro exI [of _ "next_frame st"]) simp
qed

text \<open>A body that waits for more input is suspended, and destroying its frame frees the frames of all the coroutines it awaits.\<close>

definition suspended :: "nat \<Rightarrow> 'v coro_state \<Rightarrow> 'v coro_state \<Rightarrow> bool" where
  "suspended h st st' \<longleftrightarrow> active st' = None \<and> waiter st' \<noteq> None \<and> \<not> frame_done h st'
     \<and> (\<forall>i < next_frame st. i \<noteq> h \<longrightarrow> frames st' i = frames st i) \<and> destroy h (frames st') = Some ((frames st)(h := None))"

lemma suspended_at_code: "next_frame st \<le> n \<Longrightarrow> suspended h (at_code h fr c n st) st' \<Longrightarrow> suspended h st st'"
  by (simp add: suspended_def at_code_def)

lemma suspended_caller:
  assumes "placed h fr st" "suspended (next_frame st) (called h fr b k st) st'"
  shows "suspended h st st'"
proof -
  let ?c = "next_frame st"
  have ne: "h \<noteq> ?c" "h < ?c" "frames st ?c = None" using assms(1) by (auto simp: placed_def)
  have h: "frames st' h = Some (fr\<lparr>fr_code := Awaits ?c k\<rparr>)" using assms(2) ne by (simp add: suspended_def called_def)
  have d: "destroy ?c (frames st') = Some ((frames (called h fr b k st))(?c := None))" using assms(2) by (simp add: suspended_def)
  have "destroy h (frames st') = Some (((frames (called h fr b k st))(?c := None))(h := None))"
    by (subst destroy.simps) (simp add: h d)
  also have "((frames (called h fr b k st))(?c := None))(h := None) = (frames st)(h := None)"
    using ne by (auto simp: called_def fun_eq_iff)
  finally show ?thesis using assms(2) ne h by (auto simp: suspended_def called_def frame_done_def)
qed

lemma body_waits:
  "eval b ins = None \<Longrightarrow> placed h fr st \<Longrightarrow> fr_code fr = Runs b \<Longrightarrow> \<exists>st'. feed ins st = Some (Inr (st', [])) \<and> suspended h st st'"
proof (induction b arbitrary: ins h fr st)
  case (CoCall b k)
  have "active st = Some h" using CoCall.prems(2) by (simp add: placed_def)
  note s1 = feed_step [OF this step_call [OF CoCall.prems(2,3)], of ins]
  show ?case
  proof (cases "eval b ins")
    case None
    from CoCall.IH(1) [OF None placed_called [OF CoCall.prems(2), of b k]]
    obtain st' where st': "feed ins (called h fr b k st) = Some (Inr (st', []))" "suspended (next_frame st) (called h fr b k st) st'" by auto
    show ?thesis using st'(1) suspended_caller [OF CoCall.prems(2) st'(2)] s1 by auto
  next
    case (Some x)
    then obtain r1 ins1 where e: "eval b ins = Some (r1, ins1)" "eval (k r1) ins1 = None" using CoCall.prems(1) by (cases x) simp
    obtain n where n: "next_frame st < n" "feed ins (called h fr b k st) =
        feed ins1 (at_code (next_frame st) (SetContinuation (Some h) (new_frame False b)) (Runs (ending r1)) n (called h fr b k st))"
      using body_runs [OF e(1) placed_called [OF CoCall.prems(2), of b k]] by (auto simp: Suc_le_eq)
    have "placed h (fr\<lparr>fr_code := Runs (k r1)\<rparr>) (at_code h fr (Runs (k r1)) n st)"
      by (rule placed_at_code [OF CoCall.prems(2)]) (use n(1) in simp)
    from CoCall.IH(2) [OF _ e(2) this] obtain st' where st': "feed ins1 (at_code h fr (Runs (k r1)) n st) = Some (Inr (st', []))"
      "suspended h (at_code h fr (Runs (k r1)) n st) st'" by auto
    show ?thesis
      using st'(1) suspended_at_code [OF less_imp_le_nat [OF n(1)] st'(2)] s1 n(2)
        child_returns [OF CoCall.prems(2) refl n(1), where b = b and r = r1 and k = k and ins = ins1] by auto
  qed
next
  case (CoAwaitEmpty k)
  let ?r = "Inl (LogicError ''co_await on an empty Task'')"
  have "placed h (fr\<lparr>fr_code := Runs (k ?r)\<rparr>) (at_code h fr (Runs (k ?r)) (next_frame st) st)"
    by (rule placed_at_code [OF CoAwaitEmpty.prems(2)]) simp
  from CoAwaitEmpty.IH [OF _ _ this, where ins = ins] CoAwaitEmpty.prems(1)
  obtain st' where st': "feed ins (at_code h fr (Runs (k ?r)) (next_frame st) st) = Some (Inr (st', []))"
    "suspended h (at_code h fr (Runs (k ?r)) (next_frame st) st) st'" by auto
  show ?case using st'(1) suspended_at_code [OF order_refl st'(2)] feed_await_empty [OF CoAwaitEmpty.prems(2,3), of ins] by auto
next
  case (CoSuspend k)
  show ?case
  proof (cases ins)
    case Nil
    have "feed [] (parked h fr k st) = Some (Inr (parked h fr k st, []))" by (simp add: feed_idle parked_def)
    moreover have "suspended h st (parked h fr k st)" by (simp add: suspended_def parked_def frame_done_def destroy.simps)
    ultimately show ?thesis using Nil feed_suspend(1) [OF CoSuspend.prems(2,3), of ins] by auto
  next
    case (Cons v vs)
    have "placed h (fr\<lparr>fr_code := Runs (k v)\<rparr>) (at_code h fr (Runs (k v)) (next_frame st) st)"
      by (rule placed_at_code [OF CoSuspend.prems(2)]) simp
    from CoSuspend.IH [OF _ _ this, where ins = vs] CoSuspend.prems(1) Cons
    obtain st' where st': "feed vs (at_code h fr (Runs (k v)) (next_frame st) st) = Some (Inr (st', []))"
      "suspended h (at_code h fr (Runs (k v)) (next_frame st) st) st'" by auto
    show ?thesis using st'(1) suspended_at_code [OF order_refl st'(2)] feed_suspend [OF CoSuspend.prems(2,3)] Cons by auto
  qed
qed simp_all

section \<open>Tasks implement calls\<close>

text \<open>No coroutine is running, and beyond the last frame nothing is allocated.\<close>

definition quiet :: "'v coro_state \<Rightarrow> bool" where
  "quiet st \<longleftrightarrow> active st = None \<and> waiter st = None \<and> (\<forall>i \<ge> next_frame st. frames st i = None)"

lemma feed_end:
  assumes "placed h fr st" "\<not> fr_detached fr" "fr_code fr = Runs (ending r)" "continuation fr = None"
  shows "feed ins st = Some (Inr (st\<lparr>frames := (frames st)(h := Some (fr\<lparr>fr_code := Finished,
    exception_ptr := (case r of Inl e \<Rightarrow> Some e | Inr v \<Rightarrow> None), fr_value := (case r of Inl e \<Rightarrow> None | Inr v \<Rightarrow> Some v)\<rparr>)), active := None\<rparr>, ins))"
    (is "_ = Some (Inr (?st, _))")
proof -
  have a: "active st = Some h" "frames st h = Some fr" using assms(1) by (simp_all add: placed_def)
  have s: "coro_step h st = Inr ?st"
    using a assms by (cases r; cases fr) (simp_all add: coro_step_def final_suspend_def set_frame_def return_value_def unhandled_exception_def placed_def)
  have "waiter ?st = None" using assms(1) by (simp add: placed_def)
  then have "feed ins ?st = Some (Inr (?st, ins))" by (cases ins) (simp_all add: feed_idle)
  with feed_step [OF a(1) s] show ?thesis by simp
qed

lemma feed_resume_loop: "resume_loop st = Some (Inr st1) \<Longrightarrow> active st1 = None \<Longrightarrow> feed ins st1 = feed ins st"
  by (cases ins) (simp_all add: feed_idle)

text \<open>What \<^const>\<open>Task_Start\<close> leaves for the event loop.\<close>

definition start_and_feed :: "'v list \<Rightarrow> Task \<Rightarrow> 'v coro_state \<Rightarrow> (coro_fault + 'v coro_state \<times> 'v list) option" where
  "start_and_feed ins t st =
     (case snd (Task_Start t st) of None \<Rightarrow> None | Some (Inl e) \<Rightarrow> Some (Inl e) | Some (Inr st1) \<Rightarrow> feed ins st1)"

lemma resume_loop_idle: "resume_loop st = Some r \<Longrightarrow> r = Inr st1 \<Longrightarrow> active st1 = None"
proof (induction rule: resume_loop.raw_induct [rotated, consumes 1, case_names loop])
  case (loop continue st r)
  then show ?case by (auto split: option.splits sum.splits)
qed

lemma feed_resumed: "(case resume_loop st of None \<Rightarrow> None | Some (Inl e) \<Rightarrow> Some (Inl e) | Some (Inr st1) \<Rightarrow> feed ins st1) = feed ins st"
  using resume_loop_idle [of st] by (cases ins) (auto simp: feed_idle split: option.splits sum.splits)

lemma started_task:
  assumes "quiet st" "create_frame False b st = (h, st1)"
  shows "start_and_feed ins (Task_of h) st1 = feed ins (st1\<lparr>active := Some h\<rparr>)" "placed h (new_frame False b) (st1\<lparr>active := Some h\<rparr>)"
    "fst (Task_Start (Task_of h) st1) = \<lparr>task_handle = Some h, task_started = True\<rparr>" "(frames st1)(h := None) = frames st"
proof -
  have e: "h = next_frame st" "frames st1 = (frames st)(h := Some (new_frame False b))" "next_frame st1 = next_frame st + 1" "waiter st1 = None"
    using assms by (auto simp: create_frame_def quiet_def)
  have nd: "\<not> frame_done h st1" by (simp add: frame_done_def e(2) new_frame_def)
  then show "start_and_feed ins (Task_of h) st1 = feed ins (st1\<lparr>active := Some h\<rparr>)"
    using feed_resumed [where st = "st1\<lparr>active := Some h\<rparr>" and ins = ins] by (simp add: start_and_feed_def Task_Start_def Task_of_def)
  show "placed h (new_frame False b) (st1\<lparr>active := Some h\<rparr>)" using assms(1) e by (auto simp: placed_def new_frame_def quiet_def)
  show "fst (Task_Start (Task_of h) st1) = \<lparr>task_handle = Some h, task_started = True\<rparr>" using nd by (simp add: Task_Start_def Task_of_def)
  show "(frames st1)(h := None) = frames st" using assms(1) e by (auto simp: quiet_def fun_eq_iff)
qed

lemma finished_task:
  assumes "t = \<lparr>task_handle = Some h, task_started = True\<rparr>" "frames st h = Some fr" "fr_code fr = Finished"
    and "exception_ptr fr = (case r of Inl e \<Rightarrow> Some e | Inr v \<Rightarrow> None)" "fr_value fr = (case r of Inl e \<Rightarrow> None | Inr v \<Rightarrow> Some v)"
  shows "Task_Done t st \<and> (\<exists>st1. Task_Result t st = (r, st1)
    \<and> fst (Task_Result t st1) = (case r of Inl e \<Rightarrow> Inl e | Inr v \<Rightarrow> Inl (LogicError ''Task result is unavailable or already consumed''))
    \<and> (\<exists>st2. Task_Reset t st1 = Some (Task_empty, st2) \<and> frames st2 = (frames st)(h := None)))"
  using assms by (cases r) (simp_all add: Task_Done_def frame_done_def Task_Result_def FinalizeResult_def set_frame_def Task_Reset_def destroy.simps)

text \<open>C7: Tasks implement calls. Start the task of any coroutine and let the event loop resume whatever suspends: if the same body, read
  as an ordinary program, ends with a value or an exception, the task is done with exactly that outcome and the same inputs
  used, its value can be taken once, and destroying the task leaves the heap as it was before the call; if the body waits
  for input, so does the task, and destroying it then frees the frames of the whole chain of awaiting coroutines.\<close>

theorem task_implements_call:
  assumes "quiet st" "create_frame False b st = (h, st1)" "t = fst (Task_Start (Task_of h) st1)"
  shows "case eval b ins of
      Some (r, ins') \<Rightarrow> \<exists>st2. start_and_feed ins (Task_of h) st1 = Some (Inr (st2, ins')) \<and> active st2 = None \<and> waiter st2 = None
        \<and> Task_Done t st2 \<and> (\<exists>st3. Task_Result t st2 = (r, st3)
          \<and> fst (Task_Result t st3) = (case r of Inl e \<Rightarrow> Inl e | Inr v \<Rightarrow> Inl (LogicError ''Task result is unavailable or already consumed''))
          \<and> (\<exists>st4. Task_Reset t st3 = Some (Task_empty, st4) \<and> frames st4 = frames st))
    | None \<Rightarrow> \<exists>st2. start_and_feed ins (Task_of h) st1 = Some (Inr (st2, [])) \<and> active st2 = None \<and> waiter st2 \<noteq> None
        \<and> \<not> Task_Done t st2 \<and> (\<exists>st4. Task_Reset t st2 = Some (Task_empty, st4) \<and> frames st4 = frames st)"
proof (cases "eval b ins")
  case None
  let ?s = "st1\<lparr>active := Some h\<rparr>"
  note su = started_task [OF assms(1,2)]
  obtain st2 where f: "feed ins ?s = Some (Inr (st2, []))" and s: "suspended h ?s st2"
    using body_waits [OF None su(2)] by (auto simp: new_frame_def)
  have t: "t = \<lparr>task_handle = Some h, task_started = True\<rparr>" by (simp add: assms(3) su(3))
  have d: "destroy h (frames st2) = Some (frames st)" using s su(4) by (simp add: suspended_def)
  then have "\<exists>st4. Task_Reset t st2 = Some (Task_empty, st4) \<and> frames st4 = frames st" by (simp add: t Task_Reset_def)
  moreover have "active st2 = None" "waiter st2 \<noteq> None" "\<not> Task_Done t st2" using s by (simp_all add: suspended_def t Task_Done_def)
  ultimately show ?thesis using None su(1) f by simp
next
  case (Some x)
  let ?s = "st1\<lparr>active := Some h\<rparr>" and ?fr = "new_frame False b"
  obtain r ins' where x: "x = (r, ins')" by (cases x)
  note su = started_task [OF assms(1,2)]
  obtain n where n: "next_frame ?s \<le> n" "feed ins ?s = feed ins' (at_code h ?fr (Runs (ending r)) n ?s)"
    using body_runs [OF Some [unfolded x] su(2)] by (auto simp: new_frame_def)
  let ?e = "at_code h ?fr (Runs (ending r)) n ?s"
  let ?fr1 = "?fr\<lparr>fr_code := Finished, exception_ptr := (case r of Inl e \<Rightarrow> Some e | Inr v \<Rightarrow> None), fr_value := (case r of Inl e \<Rightarrow> None | Inr v \<Rightarrow> Some v)\<rparr>"
  let ?st2 = "?e\<lparr>frames := (frames ?e)(h := Some ?fr1), active := None\<rparr>"
  have "feed ins' ?e = Some (Inr (?st2, ins'))"
    using feed_end [OF placed_at_code [OF su(2) n(1), of "Runs (ending r)"], of r ins'] by (simp add: new_frame_def)
  then have f: "start_and_feed ins (Task_of h) st1 = Some (Inr (?st2, ins'))" using su(1) n(2) by simp
  have w: "waiter ?st2 = None" using su(2) by (simp add: at_code_def placed_def)
  have fr: "(frames ?st2)(h := None) = frames st" using su(4) by (simp add: at_code_def)
  have "Task_Done t ?st2 \<and> (\<exists>st3. Task_Result t ?st2 = (r, st3)
    \<and> fst (Task_Result t st3) = (case r of Inl e \<Rightarrow> Inl e | Inr v \<Rightarrow> Inl (LogicError ''Task result is unavailable or already consumed''))
    \<and> (\<exists>st4. Task_Reset t st3 = Some (Task_empty, st4) \<and> frames st4 = (frames ?st2)(h := None)))"
    by (rule finished_task [where fr = ?fr1]) (simp_all add: assms(3) su(3))
  with f w fr x Some show ?thesis by (simp del: fun_upd_apply)
qed

definition demo_body :: "int body" where
  "demo_body = CoCall (CoSuspend (\<lambda>v. CoReturn (v + 1))) (\<lambda>r. case r of Inr v \<Rightarrow> CoReturn (v * 2) | Inl e \<Rightarrow> CoThrow e)"

definition demo_coro_state :: "int coro_state" where
  "demo_coro_state = \<lparr>frames = (\<lambda>_. None), next_frame = 0, active = None, waiter = None\<rparr>"

theorem task_implements_call_witness:
  "\<exists>h st1 st2 st3. create_frame False demo_body demo_coro_state = (h, st1) \<and> start_and_feed [20] (Task_of h) st1 = Some (Inr (st2, []))
    \<and> Task_Result (fst (Task_Start (Task_of h) st1)) st2 = (Inr 42, st3)"
proof -
  obtain h st1 where c: "create_frame False demo_body demo_coro_state = (h, st1)" by (cases "create_frame False demo_body demo_coro_state")
  have q: "quiet demo_coro_state" by (simp add: quiet_def demo_coro_state_def)
  have "eval demo_body [20] = Some (Inr 42, [])" by (simp add: demo_body_def)
  with task_implements_call [OF q c refl, of "[20]"] c show ?thesis by auto
qed

text \<open>A detached coroutine frees its own frame when it returns, and an exception that leaves it terminates the program.\<close>

theorem detached_task_frees_itself:
  assumes "quiet st" "eval b ins = Some (r, ins')"
  shows "case create_frame True b st of (h, st1) \<Rightarrow>
    (case r of
       Inl e \<Rightarrow> feed ins (st1\<lparr>active := Some h\<rparr>) = Some (Inl Terminated)
     | Inr v \<Rightarrow> \<exists>st2. feed ins (st1\<lparr>active := Some h\<rparr>) = Some (Inr (st2, ins')) \<and> frames st2 = frames st)"
proof -
  obtain h st1 where c: "create_frame True b st = (h, st1)" by (cases "create_frame True b st")
  let ?s = "st1\<lparr>active := Some h\<rparr>" and ?fr = "new_frame True b"
  have e: "h = next_frame st" "frames st1 = (frames st)(h := Some ?fr)" "next_frame st1 = next_frame st + 1" "waiter st1 = None"
    using assms(1) c by (auto simp: create_frame_def quiet_def)
  have p: "placed h ?fr ?s" using assms(1) e by (auto simp: placed_def new_frame_def quiet_def)
  obtain n where n: "next_frame ?s \<le> n" "feed ins ?s = feed ins' (at_code h ?fr (Runs (ending r)) n ?s)"
    using body_runs [OF assms(2) p] by (auto simp: new_frame_def)
  let ?e = "at_code h ?fr (Runs (ending r)) n ?s"
  have ae: "active ?e = Some h" "frames ?e h = Some (?fr\<lparr>fr_code := Runs (ending r)\<rparr>)" "waiter ?e = None"
    using e(4) by (simp_all add: at_code_def)
  show ?thesis
  proof (cases r)
    case (Inl x)
    then have "coro_step h ?e = Inl Terminated" using ae by (simp add: coro_step_def new_frame_def)
    then have "resume_loop ?e = Some (Inl Terminated)" using ae(1) by (simp add: resume_loop.simps [of ?e])
    then have "feed ins' ?e = Some (Inl Terminated)" by (cases ins') simp_all
    with n(2) Inl c show ?thesis by simp
  next
    case (Inr v)
    let ?st2 = "?e\<lparr>frames := (frames ?e)(h := None), active := None\<rparr>"
    have "coro_step h ?e = Inr ?st2" using ae Inr by (simp add: coro_step_def new_frame_def final_suspend_def return_value_def)
    from feed_step [OF ae(1) this, of ins'] have "feed ins' ?e = feed ins' ?st2" .
    moreover have "feed ins' ?st2 = Some (Inr (?st2, ins'))" using ae(3) by (cases ins') (simp_all add: feed_idle)
    moreover have "frames ?st2 = frames st" using assms(1) e by (auto simp: at_code_def quiet_def fun_eq_iff)
    ultimately show ?thesis using n(2) Inr c by simp
  qed
qed

text \<open>A task is awaited at most once: \<open>co_await\<close> empties it and marks it as started.\<close>

lemma task_awaited_once: "Task_co_await t = Inr (a, t') \<Longrightarrow> task_handle t' = None \<and> (\<exists>e. Task_co_await t' = Inl e)"
  by (auto simp: Task_co_await_def split: if_splits)

text \<open>The first result of a \<open>Task<void>\<close> is the one a \<open>Task\<close> of a unit value has, and asking again gives it again.\<close>

lemma Task_Result_void_agrees:
  assumes "frames st h = Some fr" "task_handle t = Some h" "exception_ptr fr = None \<longrightarrow> fr_value fr \<noteq> None"
  shows "Task_Result_void t st = fst (Task_Result t st)" "Task_Result_void t (snd (Task_Result t st)) = Task_Result_void t st"
  using assms by (auto simp: Task_Result_void_def Task_Result_def FinalizeResult_def FinalizeResult_void_def frame_done_def set_frame_def
    split: option.splits)

end
