(* ===== verification/Coro_Awaiters.thy ===== *)
theory Coro_Awaiters
  imports Timer_Contract
begin

text \<open>
  \<open>nebula/net/coroutine_awaiters.h\<close>: coroutines that sleep on a timer of the loop, or yield to the other tasks of the loop. An awaiter
  shares a \<open>State\<close> with the closures it leaves in the loop: the functor of its timer holds a weak pointer, a queued
  resumption holds a shared one. States are cells addressed by numbers; the coroutine in a state has its address.
\<close>

record AwaiterState =
  as_timer :: TimerId
  as_handle :: bool

text \<open>\<open>aw_owned a\<close>: an awaiter still holds its share of state \<open>a\<close>. \<open>aw_resumed\<close> lists the resumptions.\<close>

record awaiter_loop =
  aw_timers :: TimerQueue
  aw_tasks :: "nat list"
  aw_states :: "nat \<Rightarrow> AwaiterState"
  aw_owned :: "nat \<Rightarrow> bool"
  aw_resumed :: "nat list"
  aw_raised :: "timer_exn option"

definition set_state :: "nat \<Rightarrow> AwaiterState \<Rightarrow> awaiter_loop \<Rightarrow> awaiter_loop" where
  "set_state a x w = w\<lparr>aw_states := (aw_states w)(a := x)\<rparr>"

text \<open>\<open>weak_ptr::lock\<close> succeeds while the awaiter or a queued resumption holds the state.\<close>

definition state_alive :: "nat \<Rightarrow> awaiter_loop \<Rightarrow> bool" where
  "state_alive a w \<longleftrightarrow> aw_owned w a \<or> a \<in> set (aw_tasks w)"

section \<open>Sleeping\<close>

definition SleepAwaiter_await_ready :: "int \<Rightarrow> bool" where
  "SleepAwaiter_await_ready delay \<longleftrightarrow> delay \<le> 0"

text \<open>\<open>now\<close> is the clock when \<open>RunAfter\<close> reads it. The callable of the timer is the address of the state.\<close>

definition SleepAwaiter_await_suspend :: "timer_os \<Rightarrow> int \<Rightarrow> int \<Rightarrow> nat \<Rightarrow> awaiter_loop \<Rightarrow> awaiter_loop" where
  "SleepAwaiter_await_suspend os now delay a w =
     (let w1 = (set_state a \<lparr>as_timer = 0, as_handle = True\<rparr> w)\<lparr>aw_owned := (aw_owned w)(a := True)\<rparr>
      in case AddTimer os True (now + delay * 1000000) (Functor (Some a)) (aw_timers w1) of
           (Inl e, ts, q) \<Rightarrow> w1\<lparr>aw_timers := q, aw_raised := Some e\<rparr>
         | (Inr tid, ts, q) \<Rightarrow> set_state a \<lparr>as_timer = tid, as_handle = True\<rparr> (w1\<lparr>aw_timers := q\<rparr>))"

text \<open>The functor of the timer.\<close>

definition sleep_fired :: "nat \<Rightarrow> awaiter_loop \<Rightarrow> awaiter_loop" where
  "sleep_fired a w = (if state_alive a w then w\<lparr>aw_tasks := aw_tasks w @ [a]\<rparr> else w)"

text \<open>The queued closure: whoever takes the handle resumes the coroutine.\<close>

definition resume_task :: "nat \<Rightarrow> awaiter_loop \<Rightarrow> awaiter_loop" where
  "resume_task a w =
     (if as_handle (aw_states w a)
      then (set_state a ((aw_states w a)\<lparr>as_handle := False\<rparr>) w)\<lparr>aw_resumed := aw_resumed w @ [a]\<rparr>
      else w)"

text \<open>\<open>Cancel\<close>, which is all the destructor does.\<close>

definition SleepAwaiter_Cancel :: "timer_os \<Rightarrow> bool \<Rightarrow> nat \<Rightarrow> awaiter_loop \<Rightarrow> awaiter_loop" where
  "SleepAwaiter_Cancel os in_loop a w =
     (if \<not> aw_owned w a then w
      else let pending = as_handle (aw_states w a);
               w1 = set_state a ((aw_states w a)\<lparr>as_handle := False\<rparr>) w;
               w2 = (if pending \<and> TimerId_Valid (as_timer (aw_states w1 a)) \<and> in_loop
                     then (case Cancel os True (as_timer (aw_states w1 a)) (aw_timers w1) of
                             (e, ts, q) \<Rightarrow> w1\<lparr>aw_timers := q, aw_raised := (case e of None \<Rightarrow> aw_raised w1 | Some x \<Rightarrow> Some x)\<rparr>)
                     else w1)
        in w2\<lparr>aw_owned := (aw_owned w2)(a := False)\<rparr>)"

section \<open>Yielding\<close>

definition YieldAwaiter_await_suspend :: "nat \<Rightarrow> awaiter_loop \<Rightarrow> awaiter_loop" where
  "YieldAwaiter_await_suspend a w =
     (let w1 = (set_state a \<lparr>as_timer = 0, as_handle = True\<rparr> w)\<lparr>aw_owned := (aw_owned w)(a := True)\<rparr>
      in w1\<lparr>aw_tasks := aw_tasks w1 @ [a]\<rparr>)"

definition YieldAwaiter_destroy :: "nat \<Rightarrow> awaiter_loop \<Rightarrow> awaiter_loop" where
  "YieldAwaiter_destroy a w =
     (if aw_owned w a
      then (set_state a ((aw_states w a)\<lparr>as_handle := False\<rparr>) w)\<lparr>aw_owned := (aw_owned w)(a := False)\<rparr> else w)"

section \<open>Runs\<close>

text \<open>What can happen: a coroutine suspends, a timer fires, the loop runs a queued task, an awaiter is destroyed.\<close>

datatype aw_op =
    AwSleep timer_os int int nat
  | AwYield nat
  | AwFired nat
  | AwTask nat
  | AwSleepDestroy timer_os bool nat
  | AwYieldDestroy nat

definition aw_apply :: "aw_op \<Rightarrow> awaiter_loop \<Rightarrow> awaiter_loop" where
  "aw_apply op w =
     (case op of
        AwSleep os now delay a \<Rightarrow> SleepAwaiter_await_suspend os now delay a w
      | AwYield a \<Rightarrow> YieldAwaiter_await_suspend a w
      | AwFired a \<Rightarrow> sleep_fired a w
      | AwTask i \<Rightarrow>
          (if i < length (aw_tasks w)
           then resume_task (aw_tasks w ! i) (w\<lparr>aw_tasks := take i (aw_tasks w) @ drop (Suc i) (aw_tasks w)\<rparr>) else w)
      | AwSleepDestroy os in_loop a \<Rightarrow> SleepAwaiter_Cancel os in_loop a w
      | AwYieldDestroy a \<Rightarrow> YieldAwaiter_destroy a w)"

definition aw_run :: "aw_op list \<Rightarrow> awaiter_loop \<Rightarrow> awaiter_loop" where
  "aw_run ops w = fold aw_apply ops w"

text \<open>The operations that put a coroutine into state \<open>a\<close>.\<close>

fun suspends_at :: "nat \<Rightarrow> aw_op \<Rightarrow> bool" where
  "suspends_at a (AwSleep os now delay b) = (a = b)"
| "suspends_at a (AwYield b) = (a = b)"
| "suspends_at a _ = False"

text \<open>Resumptions of the coroutine in state \<open>a\<close>, those that may still come included.\<close>

definition resumption_credit :: "nat \<Rightarrow> awaiter_loop \<Rightarrow> nat" where
  "resumption_credit a w = length (filter (\<lambda>x. x = a) (aw_resumed w)) + (if as_handle (aw_states w a) then 1 else 0)"

lemma credit_apply: "\<not> suspends_at a op \<Longrightarrow> resumption_credit a (aw_apply op w) \<le> resumption_credit a w"
  by (cases op) (auto simp: aw_apply_def resumption_credit_def SleepAwaiter_await_suspend_def YieldAwaiter_await_suspend_def
    sleep_fired_def resume_task_def SleepAwaiter_Cancel_def YieldAwaiter_destroy_def set_state_def Let_def split: prod.splits sum.splits)

lemma credit_run: "list_all (\<lambda>op. \<not> suspends_at a op) ops \<Longrightarrow> resumption_credit a (aw_run ops w) \<le> resumption_credit a w"
proof (induction ops arbitrary: w)
  case (Cons op ops)
  have "resumption_credit a (aw_run ops (aw_apply op w)) \<le> resumption_credit a (aw_apply op w)" using Cons by simp
  moreover have "resumption_credit a (aw_apply op w) \<le> resumption_credit a w" by (rule credit_apply) (use Cons.prems in simp)
  ultimately show ?case by (simp add: aw_run_def)
qed (simp add: aw_run_def)

lemma credit_suspend: "suspends_at a op \<Longrightarrow> resumption_credit a (aw_apply op w) \<le> length (filter (\<lambda>x. x = a) (aw_resumed w)) + 1"
  by (cases op) (auto simp: aw_apply_def resumption_credit_def SleepAwaiter_await_suspend_def YieldAwaiter_await_suspend_def set_state_def Let_def
    split: prod.splits sum.splits)

lemma credit_destroy:
  assumes "aw_owned w a" "op = AwSleepDestroy os in_loop a \<or> op = AwYieldDestroy a"
  shows "resumption_credit a (aw_apply op w) = length (filter (\<lambda>x. x = a) (aw_resumed w))"
  using assms by (auto simp: aw_apply_def resumption_credit_def SleepAwaiter_Cancel_def YieldAwaiter_destroy_def set_state_def Let_def
    split: prod.splits if_splits)

text \<open>A coroutine that sleeps or yields is resumed at most once, and not after its awaiter is destroyed, in whatever order the loop
  fires timers, runs tasks and destroys awaiters.\<close>

theorem loop_awaiter_resumes_once:
  assumes "suspends_at a op" "list_all (\<lambda>x. \<not> suspends_at a x) ops" "w1 = aw_run ops (aw_apply op w)"
    and "aw_owned w1 a" "destr = AwSleepDestroy os in_loop a \<or> destr = AwYieldDestroy a" "list_all (\<lambda>x. \<not> suspends_at a x) ops'"
  shows "length (filter (\<lambda>x. x = a) (aw_resumed w1)) \<le> length (filter (\<lambda>x. x = a) (aw_resumed w)) + 1
    \<and> length (filter (\<lambda>x. x = a) (aw_resumed (aw_run ops' (aw_apply destr w1)))) \<le> length (filter (\<lambda>x. x = a) (aw_resumed w1))"
proof -
  have b: "length (filter (\<lambda>x. x = a) (aw_resumed w)) \<le> resumption_credit a w" for w by (simp add: resumption_credit_def)
  have "resumption_credit a w1 \<le> length (filter (\<lambda>x. x = a) (aw_resumed w)) + 1"
    unfolding assms(3) using credit_run [OF assms(2)] credit_suspend [OF assms(1)] order_trans by blast
  moreover have "resumption_credit a (aw_run ops' (aw_apply destr w1)) \<le> length (filter (\<lambda>x. x = a) (aw_resumed w1))"
    using credit_run [OF assms(6), of "aw_apply destr w1"] credit_destroy [OF assms(4,5)] by simp
  ultimately show ?thesis using b order_trans by blast
qed

text \<open>An awaiter destroyed on the loop takes its timer with it: of the timers that were pending before, exactly its own is gone.\<close>

lemma sleep_cancel_removes_timer:
  assumes "aw_owned w a" "as_handle (aw_states w a)" "tq_inv (aw_timers w)" "TimerId_Valid (as_timer (aw_states w a))"
    and "cancel_target (aw_timers w) (as_timer (aw_states w a)) = Some slot" "aw_raised (SleepAwaiter_Cancel os True a w) = None"
  shows "timers (aw_timers (SleepAwaiter_Cancel os True a w)) = timers (aw_timers w) - {#timer_of (aw_timers w) slot#}"
proof -
  obtain e q where q: "CancelInLoop os (as_timer (aw_states w a)) (aw_timers w) = (e, q)"
    by (cases "CancelInLoop os (as_timer (aw_states w a)) (aw_timers w)")
  have c: "aw_timers (SleepAwaiter_Cancel os True a w) = q" "e = None"
    using assms q by (auto simp: SleepAwaiter_Cancel_def Cancel_def set_state_def Let_def split: option.splits)
  have "tq_ok (stable_pos (current_tick (aw_timers w))) (aw_timers w)" using assms(3) by (simp add: tq_inv_def)
  from Cancel_ok [OF this q] assms(5) c show ?thesis by auto
qed

end
