(* ===== verification/Rpc_Shutdown.thy ===== *)
theory Rpc_Shutdown
  imports Rpc_Replies Timer_Contract
begin

text \<open>
  Graceful shutdown of a server: after \<open>Stop\<close> the server waits until no call is in flight (or for ten seconds), shuts its connections
  down, and reports completion when the last one is gone. Shown here: it reports at most once, and it never
  waits for something that cannot happen.
\<close>

section \<open>What the operations of the TCP server do to a shutdown\<close>

text \<open>
  A server that waits for its last connection goes on waiting for one, or says that all are closed. \<open>TaskCloseAll\<close> is never queued: the
  server calls \<open>CloseAllConnections\<close> on the base loop only.
\<close>

definition waiting_close :: "'u TcpServer \<Rightarrow> bool" where
  "waiting_close t \<longleftrightarrow> srv_closing t \<and> all_closed_callback t"

definition close_step :: "'u TcpServer \<Rightarrow> 'u TcpServer \<Rightarrow> bool" where
  "close_step t t' \<longleftrightarrow> (\<exists>es. srv_outs t' = srv_outs t @ es
     \<and> (waiting_close t \<longrightarrow> OutAllClosed \<in> set es \<or> waiting_close t' \<and> (connections t \<noteq> [] \<longrightarrow> connections t' \<noteq> []))
     \<and> (\<not> srv_closing t \<longrightarrow> \<not> srv_closing t' \<and> OutAllClosed \<notin> set es))
     \<and> (\<forall>l. (l, TaskCloseAll) \<in> set (srv_queue t') \<longrightarrow> (l, TaskCloseAll) \<in> set (srv_queue t))"

lemma close_step_refl [simp]: "close_step t t"
  by (simp add: close_step_def)

lemma close_step_trans: "close_step t t1 \<Longrightarrow> close_step t1 t2 \<Longrightarrow> close_step t t2"
  unfolding close_step_def by (elim conjE exE) (auto intro!: exI)

lemma close_step_frame:
  assumes "srv_outs t' = srv_outs t" "srv_closing t' = srv_closing t" "all_closed_callback t' = all_closed_callback t"
    "connections t \<noteq> [] \<longrightarrow> connections t' \<noteq> []" "srv_queue t' = srv_queue t"
  shows "close_step t t'"
  using assms by (simp add: close_step_def waiting_close_def)

lemma close_step_Queue [simp]: "k \<noteq> TaskCloseAll \<Longrightarrow> close_step t (srv_QueueInLoop l k t)"
  by (auto simp: close_step_def waiting_close_def srv_QueueInLoop_def)

text \<open>A connection is removed: if it was the last one, the check that follows reports it.\<close>

lemma close_step_Remove [simp]: "close_step t (RemoveConnectionInLoop conn t)"
  by (auto simp: RemoveConnectionInLoop_def CheckAllClosedInLoop_def close_step_def waiting_close_def srv_QueueInLoop_def Let_def)

lemma close_step_dispatch [simp]: "close_step t (srv_dispatch th conn e t)"
  by (simp add: srv_dispatch_def TcpServer_RemoveConnection_def srv_RunInLoop_def split: conn_out.split)

lemma close_step_fold: "(\<And>x t. close_step t (f x t)) \<Longrightarrow> close_step t (fold f xs t)"
  by (induction xs arbitrary: t) (auto intro: close_step_trans)

lemma close_step_conn_call [simp]: "close_step t (srv_conn_call th conn operation t)"
proof (cases "operation (th = conn_loop t conn) (srv_conns t conn)")
  case (Some r)
  obtain c ts where r: "r = (c, ts)" by (cases r)
  have "close_step t (t\<lparr>srv_conns := (srv_conns t)(conn := c)\<rparr>)" by (rule close_step_frame) simp_all
  then have "close_step t (fold (srv_dispatch th conn) es (fold (\<lambda>t. srv_QueueInLoop l (TaskConn conn t)) ts
      (t\<lparr>srv_conns := (srv_conns t)(conn := c)\<rparr>)))" for es l
    by (intro close_step_trans [OF close_step_trans [OF _ close_step_fold] close_step_fold]) simp_all
  with Some r show ?thesis by (simp add: srv_conn_call_def)
qed (simp add: srv_conn_call_def)

lemma close_step_conn_ops [simp]:
  "close_step t (srv_Write env th conn data t)" "close_step t (srv_Flush env th conn t)" "close_step t (srv_Shutdown env th conn t)"
  "close_step t (srv_in_loop conn f t)"
  by (simp_all add: srv_Write_def srv_Flush_def srv_Shutdown_def srv_in_loop_def)

lemma close_step_shutdown_one: "close_step t (shutdown_one env th conn t)"
proof -
  have "close_step u (u\<lparr>iterator_lost := b\<rparr>)" for u :: "'a TcpServer" and b by (rule close_step_frame) simp_all
  from close_step_trans [OF close_step_conn_ops(3) this] show ?thesis by (auto simp: shutdown_one_def Let_def)
qed

lemma close_step_NewConnection [simp]: "close_step t (TcpServer_NewConnection fd t)"
proof -
  obtain l t1 where g: "GetNextLoop t = (l, t1)" by (cases "GetNextLoop t")
  have t1: "close_step t t1" using g by (intro close_step_frame) (auto simp: GetNextLoop_def split: if_splits)
  have "close_step t1 (t1\<lparr>srv_next_connection_id := n, connections := x # connections t1, srv_conns := cs, conn_loop := cl\<rparr>)" for n x cs cl
    by (rule close_step_frame) simp_all
  note t2 = close_step_trans [OF t1 this]
  show ?thesis using g
    by (auto simp: TcpServer_NewConnection_def srv_RunInLoop_def Let_def
        intro!: close_step_trans [OF t2 close_step_conn_ops(4)] close_step_trans [OF t2 close_step_Queue])
qed

lemma close_step_Accept [simp]: "close_step t (Acceptor_HandleRead rs t)"
  by (induction rs t rule: Acceptor_HandleRead.induct) (auto intro: close_step_trans [OF close_step_NewConnection])

lemma close_step_stop [simp]: "close_step t (TcpServer_StopInLoop t)" "close_step t (TcpServer_Stop th t)" "close_step t (ListenInLoop t)"
  by (auto simp: TcpServer_StopInLoop_def TcpServer_Stop_def srv_RunInLoop_def Acceptor_Stop_def ListenInLoop_def Acceptor_Listen_def
      intro!: close_step_frame close_step_Queue)

lemma close_step_Start: "TcpServer_Start th ok n t = Inr t' \<Longrightarrow> srv_closing t' = srv_closing t
    \<and> all_closed_callback t' = all_closed_callback t \<and> connections t' = connections t
    \<and> (\<forall>l. (l, TaskCloseAll) \<in> set (srv_queue t') \<longrightarrow> (l, TaskCloseAll) \<in> set (srv_queue t))"
  by (auto simp: TcpServer_Start_def EventLoopThreadPool_Start_def srv_RunInLoop_def Let_def ListenInLoop_def Acceptor_Listen_def srv_QueueInLoop_def
      split: if_splits sum.splits)

lemma close_step_task: "t \<noteq> TaskCloseAll \<Longrightarrow> close_step s (run_loop_task env t s)"
  by (simp add: run_loop_task_def split: loop_task.split)

text \<open>The call that starts closing: it waits for a connection, or reports at once.\<close>

lemma CloseAll_waits:
  assumes "\<not> srv_closing t" "t' = CloseAllConnectionsInLoop env t"
  shows "\<exists>es. srv_outs t' = srv_outs t @ es \<and> (OutAllClosed \<in> set es \<or> waiting_close t' \<and> connections t' \<noteq> [])"
    "(l, TaskCloseAll) \<in> set (srv_queue t') \<Longrightarrow> (l, TaskCloseAll) \<in> set (srv_queue t)"
proof -
  define t1 where "t1 = t\<lparr>srv_closing := True, all_closed_callback := True\<rparr>"
  define t2 where "t2 = fold (shutdown_one env kBaseLoop) (srv_order env (connections t1)) t1"
  have eq: "t' = CheckAllClosedInLoop t2" using assms by (simp add: CloseAllConnectionsInLoop_def Let_def t1_def t2_def)
  have "close_step t1 t2" unfolding t2_def by (rule close_step_fold) (rule close_step_shutdown_one)
  then obtain es where es: "srv_outs t2 = srv_outs t1 @ es" "OutAllClosed \<in> set es \<or> waiting_close t2"
      "(l, TaskCloseAll) \<in> set (srv_queue t2) \<Longrightarrow> (l, TaskCloseAll) \<in> set (srv_queue t1)"
    by (auto simp: close_step_def waiting_close_def t1_def)
  show "\<exists>es. srv_outs t' = srv_outs t @ es \<and> (OutAllClosed \<in> set es \<or> waiting_close t' \<and> connections t' \<noteq> [])"
    using es(1,2) by (auto simp: eq CheckAllClosedInLoop_def waiting_close_def Let_def t1_def)
  show "(l, TaskCloseAll) \<in> set (srv_queue t') \<Longrightarrow> (l, TaskCloseAll) \<in> set (srv_queue t)"
    using es(3) by (auto simp: eq CheckAllClosedInLoop_def Let_def t1_def split: if_splits)
qed

section \<open>The invariant of a shutdown\<close>

definition close_task :: "nat \<times> srv_task loop_task" where
  "close_task = (kBaseLoop, TaskUpper TaskCloseConnections)"

text \<open>A stopping server has a reason to wait: a call in flight, or the task that closes its connections.\<close>

definition wakes :: "RpcServer \<Rightarrow> bool" where
  "wakes s \<longleftrightarrow> (stopping s \<and> srv_raised s = None \<and> \<not> connections_closed s \<longrightarrow>
     in_flight s \<noteq> 0 \<or> close_task \<in> set (srv_queue (tcp s)))"

text \<open>Then it has one: a connection that is not gone.\<close>

definition stop_core :: "RpcServer \<Rightarrow> bool" where
  "stop_core s \<longleftrightarrow> (connections_closed s \<longrightarrow> shutdown_finished s \<or> waiting_close (tcp s) \<and> connections (tcp s) \<noteq> [])
     \<and> (\<not> connections_closed s \<longrightarrow> \<not> srv_closing (tcp s) \<and> \<not> shutdown_finished s)
     \<and> (\<forall>l. (l, TaskCloseAll) \<notin> set (srv_queue (tcp s)))
     \<and> count_list (srv_history s) EvShutdownComplete \<le> (if shutdown_finished s then 1 else 0)"

text \<open>What the end of a shutdown (if \<open>b\<close>) changes.\<close>

definition fin_step :: "bool \<Rightarrow> RpcServer \<Rightarrow> RpcServer \<Rightarrow> bool" where
  "fin_step b s s' \<longleftrightarrow> stopping s' = stopping s \<and> connections_closed s' = connections_closed s \<and> in_flight s' = in_flight s
     \<and> tcp s' = tcp s \<and> next_call s' = next_call s \<and> (srv_raised s' = None \<longrightarrow> srv_raised s = None)
     \<and> (shutdown_finished s' \<longleftrightarrow> shutdown_finished s \<or> b)
     \<and> (count_list (srv_history s) EvShutdownComplete \<le> (if shutdown_finished s then 1 else 0) \<longrightarrow>
          count_list (srv_history s') EvShutdownComplete \<le> (if shutdown_finished s' then 1 else 0))"

lemma fin_step_Finish: "fin_step True s (FinishShutdownInLoop env s)"
  by (auto simp: fin_step_def FinishShutdownInLoop_def Let_def srv_emit_def split: prod.split option.split)

lemma fin_step_trans: "fin_step a s s1 \<Longrightarrow> fin_step b s1 s2 \<Longrightarrow> fin_step (a \<or> b) s s2"
  unfolding fin_step_def by (elim conjE, intro conjI) (auto split: if_splits)

lemma fin_step_dispatch: "fin_step (OutAllClosed \<in> set es) s (fold (dispatch_server_out env) es s)"
proof (induction es arbitrary: s)
  case (Cons e es)
  have "fin_step (e = OutAllClosed) s (dispatch_server_out env e s)"
    by (cases e) (simp_all add: dispatch_server_out_def fin_step_Finish, simp add: fin_step_def)
  from fin_step_trans [OF this Cons.IH] show ?case by (simp add: eq_commute)
qed (simp add: fin_step_def)

lemma wakes_uppers:
  "uppers t = uppers t' \<Longrightarrow> (l, TaskUpper u) \<in> set (srv_queue t) \<longleftrightarrow> (l, TaskUpper u) \<in> set (srv_queue t')"
proof -
  assume "uppers t = uppers t'"
  moreover have "(l, TaskUpper u) \<in> set (srv_queue t) \<longleftrightarrow> (l, TaskUpper u) \<in> set (uppers t)" for t :: "'a TcpServer"
    by (simp add: uppers_def)
  ultimately show ?thesis by simp
qed

lemma with_tcp_fin:
  assumes "srv_outs (f (tcp s)) = srv_outs (tcp s) @ es"
  shows "fin_step (OutAllClosed \<in> set es) (s\<lparr>tcp := f (tcp s)\<rparr>) (with_tcp env f s)"
  using fin_step_dispatch [of es "s\<lparr>tcp := f (tcp s)\<rparr>" env] assms by (simp add: with_tcp_def Let_def)

lemma with_tcp_stop:
  assumes "close_step (tcp s) (f (tcp s))" "uppers (f (tcp s)) = uppers (tcp s)"
  shows "stop_core s \<Longrightarrow> stop_core (with_tcp env f s)" "wakes s \<Longrightarrow> wakes (with_tcp env f s)"
    "next_call (with_tcp env f s) = next_call s"
proof -
  obtain es where es: "srv_outs (f (tcp s)) = srv_outs (tcp s) @ es"
    "waiting_close (tcp s) \<Longrightarrow> OutAllClosed \<in> set es \<or> waiting_close (f (tcp s)) \<and> (connections (tcp s) \<noteq> [] \<longrightarrow> connections (f (tcp s)) \<noteq> [])"
    "\<not> srv_closing (tcp s) \<Longrightarrow> \<not> srv_closing (f (tcp s)) \<and> OutAllClosed \<notin> set es"
    "\<And>l. (l, TaskCloseAll) \<in> set (srv_queue (f (tcp s))) \<Longrightarrow> (l, TaskCloseAll) \<in> set (srv_queue (tcp s))"
    using assms(1) unfolding close_step_def by blast
  have q: "close_task \<in> set (srv_queue (f (tcp s))) \<longleftrightarrow> close_task \<in> set (srv_queue (tcp s))"
    unfolding close_task_def by (rule wakes_uppers [OF assms(2)])
  note fin = with_tcp_fin [of f s es env, OF es(1)]
  show "stop_core s \<Longrightarrow> stop_core (with_tcp env f s)"
    using fin es(2-4) by (auto simp: stop_core_def fin_step_def)
  show "wakes s \<Longrightarrow> wakes (with_tcp env f s)" using fin q by (auto simp: wakes_def fin_step_def)
  show "next_call (with_tcp env f s) = next_call s" using fin by (simp add: fin_step_def)
qed

definition stop_ok :: "RpcServer \<Rightarrow> bool" where
  "stop_ok s \<longleftrightarrow> (next_call s < 2 ^ 64 \<longrightarrow> wakes s \<and> stop_core s)"

lemma stop_ok_with_tcp:
  "close_step (tcp s) (f (tcp s)) \<Longrightarrow> uppers (f (tcp s)) = uppers (tcp s) \<Longrightarrow> stop_ok s \<Longrightarrow> stop_ok (with_tcp env f s)"
  using with_tcp_stop [of s f env] by (simp add: stop_ok_def)

text \<open>Closing the connections restores the invariant also from a state without reason to wait.\<close>

lemma CloseConnections_stop:
  assumes "stop_core s"
  shows "stop_core (CloseConnectionsInLoop env s) \<and> wakes (CloseConnectionsInLoop env s)
    \<and> next_call (CloseConnectionsInLoop env s) = next_call s \<and> connections_closed (CloseConnectionsInLoop env s)"
proof (cases "connections_closed s")
  case True
  with assms show ?thesis by (simp add: CloseConnectionsInLoop_def wakes_def)
next
  case False
  define s1 where "s1 = srv_emit (EvClosing (in_flight s)) (s\<lparr>connections_closed := True\<rparr>)"
  define t where "t = CloseAllConnectionsInLoop (tcp_os env) (tcp s)"
  have c: "\<not> srv_closing (tcp s)" using assms False by (simp add: stop_core_def)
  obtain es where es: "srv_outs t = srv_outs (tcp s) @ es" "OutAllClosed \<in> set es \<or> waiting_close t \<and> connections t \<noteq> []"
    using CloseAll_waits(1) [OF c t_def] by blast
  have q: "(l, TaskCloseAll) \<notin> set (srv_queue t)" for l
    using CloseAll_waits(2) [OF c t_def, of l] assms by (auto simp: stop_core_def)
  have eq: "CloseConnectionsInLoop env s = with_tcp env (CloseAllConnections (tcp_os env) kBaseLoop) s1"
    using False by (simp add: CloseConnectionsInLoop_def s1_def)
  have t: "CloseAllConnections (tcp_os env) kBaseLoop (tcp s1) = t"
    by (simp add: CloseAllConnections_def srv_RunInLoop_def t_def s1_def)
  have fin: "fin_step (OutAllClosed \<in> set es) (s1\<lparr>tcp := t\<rparr>) (CloseConnectionsInLoop env s)"
    unfolding eq using with_tcp_fin [of "CloseAllConnections (tcp_os env) kBaseLoop" s1 es env] es(1) t by (simp add: s1_def)
  have "count_list (srv_history s1) EvShutdownComplete = count_list (srv_history s) EvShutdownComplete" by (simp add: s1_def srv_emit_def)
  then show ?thesis using fin es(2) q assms
    by (auto simp: fin_step_def stop_core_def wakes_def s1_def srv_emit_def)
qed

lemma CloseConnections_ok: "stop_ok s \<Longrightarrow> stop_ok (CloseConnectionsInLoop env s)"
  using CloseConnections_stop [of s env] same_books_CloseConnections [of s env] by (auto simp: stop_ok_def same_books_def)

section \<open>Every operation keeps it\<close>

text \<open>Fields that the invariant does not mention.\<close>

lemma stop_ok_frame:
  assumes "stop_ok s" "next_call s' = next_call s" "in_flight s' = in_flight s" "stopping s' = stopping s"
    "srv_raised s' = None \<longrightarrow> srv_raised s = None" "connections_closed s' = connections_closed s"
    "shutdown_finished s' = shutdown_finished s" "tcp s' = tcp s"
    "count_list (srv_history s') EvShutdownComplete = count_list (srv_history s) EvShutdownComplete"
  shows "stop_ok s'"
  using assms by (auto simp: stop_ok_def wakes_def stop_core_def)

lemma Finish_closed_ok: "stop_ok s \<Longrightarrow> connections_closed s \<Longrightarrow> stop_ok (FinishShutdownInLoop env s)"
  using fin_step_Finish [of s env] by (auto simp: stop_ok_def wakes_def stop_core_def fin_step_def)

lemma StopInLoop_ok:
  assumes "stop_ok s"
  shows "stop_ok (StopInLoop env s)"
proof (cases "stopping s")
  case False
  define s1 where "s1 = with_tcp env (TcpServer_Stop kBaseLoop) (s\<lparr>stopping := True\<rparr>)"
  have core: "stop_core s1 \<and> next_call s1 = next_call s" if "next_call s < 2 ^ 64"
  proof -
    have "stop_core (s\<lparr>stopping := True\<rparr>)" using assms that by (simp add: stop_ok_def stop_core_def)
    with with_tcp_stop [of "s\<lparr>stopping := True\<rparr>" "TcpServer_Stop kBaseLoop" env] show ?thesis by (simp add: s1_def)
  qed
  have n1: "next_call s1 = next_call s" using same_books_with_tcp [of "TcpServer_Stop kBaseLoop" "s\<lparr>stopping := True\<rparr>" env]
    by (simp add: s1_def same_books_def)
  obtain r ts q where add: "AddTimer (srv_timer_os env (s1\<lparr>srv_clock_reads := srv_clock_reads s1 + 1\<rparr>)) True
      (srv_now env (srv_clock_reads s1) + kGracefulTimeoutNs) (Functor (Some kGraceFunctor)) (srv_timers s1) = (r, ts, q)"
    by (rule prod_cases3)
  define s2 where "s2 = s1\<lparr>srv_timers := q, srv_clock_reads := srv_clock_reads s1 + 3\<rparr>"
  have eq: "StopInLoop env s = (case r of Inl e \<Rightarrow> s2\<lparr>srv_raised := Some e\<rparr>
      | Inr g \<Rightarrow> if in_flight s1 = 0 then CloseConnectionsInLoop env (s2\<lparr>grace_timer := g\<rparr>) else s2\<lparr>grace_timer := g\<rparr>)"
    using False add by (simp add: StopInLoop_def Let_def s1_def [symmetric] s2_def split: sum.split)
  show ?thesis
  proof (cases r)
    case (Inl e)
    with core n1 eq show ?thesis by (auto simp: stop_ok_def s2_def wakes_def stop_core_def)
  next
    case (Inr g)
    let ?s = "s2\<lparr>grace_timer := g\<rparr>"
    have c: "stop_core ?s" if "next_call s < 2 ^ 64" using core that by (simp add: s2_def stop_core_def)
    have "next_call (CloseConnectionsInLoop env ?s) = next_call s"
      using same_books_CloseConnections [of ?s env] n1 by (simp add: same_books_def s2_def)
    with Inr eq c CloseConnections_stop [of ?s env] n1 show ?thesis by (auto simp: stop_ok_def s2_def wakes_def)
  qed
qed (use assms in \<open>simp add: StopInLoop_def\<close>)

lemma Queue_ok: "stop_ok s \<Longrightarrow> stop_ok (s\<lparr>tcp := srv_QueueInLoop l (TaskUpper t) (tcp s)\<rparr>)"
  by (auto simp: stop_ok_def wakes_def stop_core_def srv_QueueInLoop_def waiting_close_def)

lemma RunInLoop_ok: "stop_ok s \<Longrightarrow> (th = l \<Longrightarrow> stop_ok (f s)) \<Longrightarrow> stop_ok (rs_RunInLoop th l f t s)"
  by (simp add: rs_RunInLoop_def Queue_ok)

lemma Server_Stop_ok: "stop_ok s \<Longrightarrow> stop_ok (Server_Stop env th s)"
  unfolding Server_Stop_def by (rule RunInLoop_ok) (simp_all add: StopInLoop_ok)

text \<open>The end of the last call wakes the shutdown up.\<close>

lemma OnCallsFinished_ok:
  assumes "stop_ok s"
  shows "stop_ok (OnCallsFinished env th n s)"
proof -
  let ?s = "s\<lparr>in_flight := in_flight s - n\<rparr>"
  have c: "stop_core ?s" if "next_call s < 2 ^ 64" using assms that by (simp add: stop_ok_def stop_core_def)
  have close: "stop_ok (CloseConnectionsInLoop env ?s)"
    using CloseConnections_stop [of ?s env] c same_books_CloseConnections [of ?s env] by (auto simp: stop_ok_def same_books_def)
  have queue: "stop_ok (?s\<lparr>tcp := srv_QueueInLoop kBaseLoop (TaskUpper TaskCloseConnections) (tcp s)\<rparr>)"
    using c by (auto simp: stop_ok_def wakes_def stop_core_def srv_QueueInLoop_def waiting_close_def close_task_def)
  have "stop_ok ?s" if "in_flight s \<noteq> n \<or> \<not> stopping s"
    using that assms by (auto simp: stop_ok_def wakes_def stop_core_def)
  with assms close queue show ?thesis by (auto simp: OnCallsFinished_def Let_def rs_RunInLoop_def)
qed

lemma upd_scope_ok: "stop_ok s \<Longrightarrow> stop_ok (upd_scope sc f s)"
  by (rule stop_ok_frame) (simp_all add: upd_scope_def)

lemma emit_ok: "stop_ok s \<Longrightarrow> e \<noteq> EvShutdownComplete \<Longrightarrow> stop_ok (srv_emit e s)"
  by (rule stop_ok_frame) (simp_all add: srv_emit_def)

lemma Scope_WriteInLoop_ok: "stop_ok s \<Longrightarrow> stop_ok (Scope_WriteInLoop env th sc data fin s)"
  by (simp add: Scope_WriteInLoop_def Let_def upd_scope_ok OnCallsFinished_ok stop_ok_with_tcp)

lemma Scope_Write_ok: "stop_ok s \<Longrightarrow> stop_ok (Scope_Write env th sc data fin s)"
  unfolding Scope_Write_def by (rule RunInLoop_ok) (simp_all add: Scope_WriteInLoop_ok)

lemma Scope_Close_ok: "stop_ok s \<Longrightarrow> stop_ok (Scope_Close env th sc s)"
  by (simp add: Scope_Close_def Let_def upd_scope_ok OnCallsFinished_ok stop_ok_with_tcp)

lemma Send_ok:
  assumes "stop_ok s"
  shows "stop_ok (SendError env th r t code text sc s)" "stop_ok (FailCall env th r t code text sc s)"
    "stop_ok (SendResponse env th r t response sc s)" "stop_ok (SendHeartbeatEcho env th m sc s)"
  using assms
  by (simp_all add: SendError_def FailCall_def SendResponse_def SendHeartbeatEcho_def Let_def Scope_Write_ok emit_ok split: option.split)

lemma take_call_ok: "stop_ok s \<Longrightarrow> stop_ok (take_call k s)"
  by (rule stop_ok_frame) (simp_all add: take_call_def)

lemma run_act_ok: "stop_ok s \<Longrightarrow> stop_ok (run_act env th a s)"
  by (simp add: run_act_def RunDone_def FinishCoroutine_def Let_def Send_ok take_call_ok Server_Stop_ok
      split: user_act.split option.split coroutine_outcome.split)

lemma run_acts_ok: "stop_ok s \<Longrightarrow> stop_ok (fold (run_act env th) as s)"
  by (induction as arbitrary: s) (simp_all add: run_act_ok)

section \<open>Requests and runs\<close>

lemma in_flight_positive:
  assumes "book_ok cur d R s" "Suc (next_call s) < 2 ^ 64"
  shows "in_flight s + 1 \<noteq> 0"
proof -
  obtain n where n: "in_flight s = of_nat (length (calls s) + queued_finishes s + d + n)"
      "length (calls s) + queued_finishes s + d + n \<le> next_call s"
    using assms(1) by (rule book_ok_count)
  define m where "m = Suc (length (calls s) + queued_finishes s + d + n)"
  have "m < 2 ^ 64" using n(2) assms(2) by (simp add: m_def)
  then have "unat (of_nat m :: u64) = m" by (simp add: unat_of_nat take_bit_nat_eq_self)
  then have "(of_nat m :: u64) \<noteq> 0" by (metis Zero_not_Suc m_def unat_0)
  then show ?thesis using n(1) by (simp add: m_def add.commute)
qed

lemma start_call_ok:
  assumes "stop_ok s" "book_ok cur d R s"
  shows "stop_ok (start_call env th m sc coroutine s)"
  unfolding start_call_def Let_def
  by (rule run_acts_ok) (use assms in_flight_positive [OF assms(2)] in \<open>auto simp: stop_ok_def wakes_def stop_core_def\<close>)

lemma HandleServerFrame_ok:
  assumes "stop_ok s" "book_ok cur d R s"
  shows "stop_ok (HandleServerFrame env th f sc s)"
proof -
  let ?m = "frame_meta f"
  let ?s = "srv_emit (EvFrame sc (meta_request_id ?m) (meta_trace_id ?m)) s"
  have "stop_ok ?s" using assms(1) by (simp add: emit_ok)
  moreover have "book_ok cur d (add_mset (sc, meta_request_id ?m, meta_trace_id ?m) R) ?s" using assms(2) by (rule frame_asked_books)
  ultimately show ?thesis
    by (simp add: HandleServerFrame_def HandleRequest_def HandleCoroutineRequest_def Let_def Send_ok start_call_ok split: option.split)
qed

lemma set_input_ok: "stop_ok s \<Longrightarrow> stop_ok (set_srv_input conn b s)"
  by (simp add: stop_ok_def wakes_def stop_core_def set_srv_input_def waiting_close_def)

lemma message_loop_ok:
  assumes "message_loop env th conn sc s = Some s'" "stop_ok s" "book_ok (Some sc) d R s"
  shows "stop_ok s'"
  using assms
proof (induction rule: message_loop.raw_induct [rotated, consumes 1, case_names loop])
  case (loop continue env th conn sc s s')
  note close = Scope_Close_ok [OF loop.prems(1), of env th sc]
  show ?case
  proof (cases "Decode (srv_pb env) (input_buffer (srv_conns (tcp s) conn))")
    case (Some r)
    show ?thesis
    proof (cases r)
      case kNeedMore
      with loop.hyps Some close show ?thesis by auto
    next
      case (kError e)
      with loop.hyps Some close show ?thesis by (auto intro!: stop_ok_with_tcp)
    next
      case (kOk f)
      let ?s = "HandleServerFrame env th f sc s"
      obtain b where b: "continue env th conn sc (set_srv_input conn b ?s) = Some s'"
        using loop.hyps Some kOk by (auto simp: Let_def split: option.splits)
      show ?thesis
        by (rule loop.IH [OF b set_input_ok [OF HandleServerFrame_ok [OF loop.prems]] set_input_books [OF HandleFrame_books [OF loop.prems(2)]]])
    qed
  qed (use loop.hyps in simp)
qed

lemma OnMessage_ok:
  assumes "Server_OnMessage env th conn s = Some s'" "stop_ok s" "book_ok None d R s"
  shows "stop_ok s'"
proof (rule message_loop_ok [OF _ _ open_scope_books [OF assms(3), of conn]])
  show "message_loop env th conn (next_scope s)
      (s\<lparr>next_scope := next_scope s + 1, scopes := (scopes s)(next_scope s := ResponseFlushScope_new conn)\<rparr>) = Some s'"
    using assms(1) by (simp add: Server_OnMessage_def Let_def)
qed (rule stop_ok_frame [OF assms(2)]; simp)

lemma Server_HandleRead_ok:
  assumes "Server_HandleRead env conn readv s = Some s'" "stop_ok s" "book_ok None 0 {#} s"
  shows "stop_ok s'"
proof -
  obtain r b where rb: "ReadFd readv (input_buffer (srv_conns (tcp s) conn)) = Some (r, b)"
    using assms(1) by (auto simp: Server_HandleRead_def split: option.splits)
  let ?s = "set_srv_input conn b s"
  have ok: "stop_ok ?s" "book_ok None 0 {#} ?s" using assms(2,3) by (simp_all add: set_input_ok set_input_books)
  show ?thesis using assms(1) rb OnMessage_ok [OF _ ok] ok
    by (auto simp: Server_HandleRead_def Let_def intro!: stop_ok_with_tcp split: sum.splits option.splits if_splits)
qed

lemma next_task_set: "next_task i q = Some (t, ts) \<Longrightarrow> set q = insert t (set ts)"
  by (auto dest: next_task_split)

lemma run_next_task_stop:
  assumes "stop_ok s"
  shows "stop_ok (run_next_task env i s)"
proof (cases "next_task i (srv_queue (tcp s))")
  case (Some r)
  obtain l t ts where r: "r = ((l, t), ts)" by (metis prod.collapse)
  note q = next_task_set [OF Some [unfolded r]]
  let ?s = "s\<lparr>tcp := (tcp s)\<lparr>srv_queue := ts\<rparr>\<rparr>"
  have run: "run_next_task env i s = (case t of TaskUpper u \<Rightarrow> run_srv_task env l u ?s | _ \<Rightarrow> with_tcp env (run_loop_task (tcp_os env) t) ?s)"
    using Some r by (simp add: run_next_task_def Let_def)
  have core: "stop_core ?s" if "next_call s < 2 ^ 64"
    using assms that q by (auto simp: stop_ok_def stop_core_def waiting_close_def)
  show ?thesis
  proof (cases "t = TaskUpper TaskCloseConnections")
    case True
    have "stop_ok (CloseConnectionsInLoop env ?s)"
      using CloseConnections_stop [OF core, of env] same_books_CloseConnections [of ?s env] by (auto simp: stop_ok_def same_books_def)
    with True show ?thesis by (simp add: run run_srv_task_def)
  next
    case False
    have ok: "stop_ok ?s" using assms core q False by (auto simp: stop_ok_def wakes_def close_task_def)
    have "t \<noteq> TaskCloseAll" if "next_call s < 2 ^ 64" using assms that q by (auto simp: stop_ok_def stop_core_def)
    moreover have "next_call (with_tcp env (run_loop_task (tcp_os env) t) ?s) = next_call s"
      using same_books_with_tcp [of "run_loop_task (tcp_os env) t" ?s env] by (simp add: same_books_def)
    ultimately have "stop_ok (with_tcp env (run_loop_task (tcp_os env) t) ?s)"
      using stop_ok_with_tcp [of ?s "run_loop_task (tcp_os env) t" env] close_step_task ok by (cases "next_call s < 2 ^ 64") (auto simp: stop_ok_def)
    moreover have "stop_ok (run_srv_task env l u ?s)" if "t = TaskUpper u" for u
      using ok that False by (cases u) (auto simp: run_srv_task_def Scope_WriteInLoop_ok StopInLoop_ok)
    ultimately show ?thesis by (auto simp: run split: loop_task.split)
  qed
qed (use assms in \<open>simp add: run_next_task_def\<close>)

lemma OnGraceTimer_ok: "stop_ok s \<Longrightarrow> stop_ok (OnGraceTimer env s)"
proof -
  assume "stop_ok s"
  then have ok: "stop_ok (srv_emit EvGraceTimeout s)" by (simp add: emit_ok)
  let ?s = "CloseConnectionsInLoop env (srv_emit EvGraceTimeout s)"
  have n: "next_call (FinishShutdownInLoop env ?s) = next_call ?s" using fin_step_Finish [of ?s env] by (simp add: fin_step_def)
  show ?thesis
  proof (cases "next_call ?s < 2 ^ 64")
    case True
    have "next_call ?s = next_call (srv_emit EvGraceTimeout s)" using same_books_CloseConnections by (simp add: same_books_def)
    with True ok have "stop_core (srv_emit EvGraceTimeout s)" by (simp add: stop_ok_def)
    from CloseConnections_stop [OF this] have "connections_closed ?s" by blast
    with CloseConnections_ok [OF ok] show ?thesis by (simp add: OnGraceTimer_def Finish_closed_ok)
  next
    case False
    with n show ?thesis by (simp add: OnGraceTimer_def stop_ok_def)
  qed
qed

lemma srv_apply_stop:
  assumes ok: "stop_ok s" and b: "srv_ok s" and run: "srv_apply env op s = Some s'"
  shows "stop_ok s'"
proof (cases op)
  case (SrvStart threads n)
  have "stop_ok (s\<lparr>tcp := t\<rparr>)" if t: "TcpServer_Start kBaseLoop threads n (tcp s) = Inr t" for t
  proof -
    have "close_task \<in> set (srv_queue t) \<longleftrightarrow> close_task \<in> set (srv_queue (tcp s))"
      unfolding close_task_def by (rule wakes_uppers [OF uppers_Start [OF t]])
    with close_step_Start [OF t] ok show ?thesis by (auto simp: stop_ok_def wakes_def stop_core_def waiting_close_def)
  qed
  with SrvStart run ok show ?thesis by (auto simp: srv_apply_def Server_Start_def split: sum.splits)
next
  case (SrvAccept rs)
  with run ok show ?thesis by (auto simp: srv_apply_def stop_ok_with_tcp)
next
  case (SrvEvent conn cb readv)
  with run ok Server_HandleRead_ok [OF _ ok, of env conn readv s'] b show ?thesis
    by (cases cb) (auto simp: srv_apply_def channel_event_def srv_ok_def stop_ok_with_tcp split: if_splits)
next
  case (SrvTask l)
  with run ok run_next_task_stop show ?thesis by (auto simp: srv_apply_def)
next
  case (SrvUser th a)
  with run ok run_act_ok show ?thesis by (auto simp: srv_apply_def)
next
  case SrvGraceTimer
  with run ok OnGraceTimer_ok show ?thesis by (auto simp: srv_apply_def)
qed (use ok run in \<open>auto simp: srv_apply_def RegisterService_def RegisterCoroutineService_def SetShutdownCompleteCallback_def
  intro!: stop_ok_frame [OF ok] split: option.splits\<close>)

lemma srv_run_stop:
  "srv_run env ops s = Some s' \<Longrightarrow> list_all srv_op_ok ops \<Longrightarrow> srv_ok s \<Longrightarrow> stop_ok s \<Longrightarrow> stop_ok s'"
proof (induction ops arbitrary: s)
  case (Cons op ops)
  from Cons.prems obtain s1 where s1: "srv_apply env op s = Some s1" "srv_run env ops s1 = Some s'" by (auto split: option.splits)
  with srv_apply_ok [OF Cons.prems(3), of op env] Cons.prems(2) have "srv_ok s1" by auto
  with Cons.IH [OF s1(2)] Cons.prems(2) srv_apply_stop [OF Cons.prems(4,3) s1(1)] show ?case by simp
qed simp

lemma srv_new_stop: "stop_ok (RpcServer_new fd epoch)"
  by (simp add: stop_ok_def wakes_def stop_core_def RpcServer_new_def TcpServer_new_def)

section \<open>A concrete shutdown\<close>

lemma Cancel_no_exception: "settime_ok os \<Longrightarrow> \<exists>q'. Cancel os True tid q = (None, [], q')"
  by (auto simp: Cancel_def CancelInLoop_def DisarmTimerFd_def Let_def split: option.split prod.split)

lemma AddTimer_first: "settime_ok os \<Longrightarrow> \<exists>tid q. AddTimer os True d act (TimerQueue_new epoch) = (Inr tid, [], q)"
proof -
  assume ok: "settime_ok os"
  have "length (slots (TimerQueue_new epoch)) < 2 ^ 31 - 1" by (simp add: TimerQueue_new_def)
  from Add_succeeds [OF tq_inv_new ok this, of d act 0] show ?thesis by (auto simp: AddTimer_def)
qed

definition demo_stop :: "srv_op list" where
  "demo_stop = [SrvShutdownCallback True, SrvStart True 0, SrvUser 5 ActStop, SrvTask 0]"

lemma demo_stop_result:
  "\<exists>s. srv_run demo_srv_env demo_stop (RpcServer_new 3 0) = Some s \<and> next_call s = 0 \<and> srv_raised s = None \<and> stopping s
     \<and> calls s = [] \<and> srv_queue (tcp s) = [] \<and> connections (tcp s) = [] \<and> EvShutdownComplete \<in> set (srv_history s)"
proof -
  let ?os = "\<lparr>clock_now = 1, clock_arm = 2, settime_ok = True\<rparr>"
  obtain tid q where add: "AddTimer ?os True 10000000000 (Functor (Some kGraceFunctor)) (TimerQueue_new 0) = (Inr tid, [], q)"
    using AddTimer_first [of ?os 10000000000 "Functor (Some kGraceFunctor)" 0] by auto
  let ?os = "\<lparr>clock_now = 3, clock_arm = 4, settime_ok = True\<rparr>"
  obtain q' where cancel: "Cancel ?os True tid q = (None, [], q')" using Cancel_no_exception [of ?os] by auto
  show ?thesis
    by (simp add: demo_stop_def srv_apply_def SetShutdownCompleteCallback_def RpcServer_new_def Server_Start_def TcpServer_Start_def
      TcpServer_new_def EventLoopThreadPool_Start_def srv_RunInLoop_def kBaseLoop_def ListenInLoop_def Acceptor_Listen_def run_act_def
      Server_Stop_def rs_RunInLoop_def srv_QueueInLoop_def run_next_task_def next_task_def run_srv_task_def StopInLoop_def with_tcp_def TcpServer_Stop_def
      TcpServer_StopInLoop_def Acceptor_Stop_def srv_timer_os_def demo_srv_env_def kGracefulTimeoutNs_def add
      CloseConnectionsInLoop_def srv_emit_def CloseAllConnections_def CloseAllConnectionsInLoop_def CheckAllClosedInLoop_def
      dispatch_server_out_def FinishShutdownInLoop_def Let_def cancel)
qed

section \<open>Property\<close>

text \<open>C6: Graceful shutdown. In any run in which the timer queue raises no exception: completion is reported at most once; a
  stopping server whose calls are all over and whose loops are idle has begun to close its connections; and when it has and no
  connection is left, the shutdown is finished. So no interleaving of \<open>Stop\<close>, requests and completions on any thread
  leaves the server waiting for nothing.\<close>

theorem graceful_shutdown_never_stuck:
  assumes "srv_run env ops (RpcServer_new fd epoch) = Some s" "list_all srv_op_ok ops"
    and "next_call s < 2 ^ 64" "srv_raised s = None"
  shows "count_list (srv_history s) EvShutdownComplete \<le> 1
    \<and> (stopping s \<and> calls s = [] \<and> srv_queue (tcp s) = [] \<longrightarrow> connections_closed s)
    \<and> (connections_closed s \<and> connections (tcp s) = [] \<longrightarrow> shutdown_finished s)"
proof -
  have st: "wakes s" "stop_core s"
    using srv_run_stop [OF assms(1,2) srv_new_ok srv_new_stop] assms(3) by (simp_all add: stop_ok_def)
  have "in_flight s = 0" if "calls s = []" "srv_queue (tcp s) = []"
    using srv_run_ok [OF srv_new_ok assms(2), of env fd epoch] assms(1) that
    by (auto simp: srv_ok_def book_ok_def queued_finishes_def uppers_def)
  with st assms(4) show ?thesis by (auto simp: wakes_def stop_core_def close_task_def split: if_splits)
qed

theorem graceful_shutdown_never_stuck_witness:
  "\<exists>s. srv_run demo_srv_env demo_stop (RpcServer_new 3 0) = Some s \<and> stopping s \<and> connections_closed s \<and> shutdown_finished s
    \<and> count_list (srv_history s) EvShutdownComplete = 1"
proof -
  obtain s where s: "srv_run demo_srv_env demo_stop (RpcServer_new 3 0) = Some s" "next_call s = 0" "srv_raised s = None" "stopping s"
      "calls s = []" "srv_queue (tcp s) = []" "connections (tcp s) = []" "EvShutdownComplete \<in> set (srv_history s)"
    using demo_stop_result by blast
  have "list_all srv_op_ok demo_stop" by (simp add: demo_stop_def)
  from graceful_shutdown_never_stuck [OF s(1) this] s have "connections_closed s \<and> shutdown_finished s
      \<and> count_list (srv_history s) EvShutdownComplete \<le> 1" by simp
  moreover have "count_list (srv_history s) EvShutdownComplete \<noteq> 0" using s(8) by (simp add: count_list_0_iff)
  ultimately show ?thesis using s(1,4) by (intro exI [of _ s]) simp
qed

end
