(* ===== verification/Net_Connector.thy ===== *)
theory Net_Connector
  imports Net_Connection Timer_Contract
begin

text \<open>
  \<open>nebula/net/connector.cpp\<close>: a client socket from \<open>connect\<close> to the established connection, with reconnection after
  growing delays. Everything runs on the thread of the loop, except the entry points that carry a flag \<open>in_loop\<close>:
  when it is false the call sets the intent and leaves a task. The results of system calls are an argument of every operation;
  what the connector does to descriptors and which callbacks it runs is recorded in \<open>cn_history\<close>. The
  retry timer lives in the timer queue of the loop, with the timers of others. The callback that reports an error may stop the connector,
  but does not start it again.
\<close>

section \<open>State\<close>

datatype ConnectorState = CnDisconnected | CnConnecting | CnConnected

datatype cn_task = CnTaskStart | CnTaskStop | CnTaskRestart | CnTaskResetChannel

datatype cn_event = CnOpened int | CnClosed int | CnHandedOver int | CnErrorReported string | CnRetryIn int

record ReconnectPolicy =
  policy_initial :: int
  policy_max :: int
  policy_multiplier :: u32

definition ReconnectPolicy_default :: ReconnectPolicy where
  "ReconnectPolicy_default = \<lparr>policy_initial = 100, policy_max = 5000, policy_multiplier = 2\<rparr>"

text \<open>\<open>channel_lost\<close> says that a channel that is still registered has been destroyed, or a missing one has been used.\<close>

record Connector =
  cn_ip :: string
  cn_connect :: bool
  cn_state :: ConnectorState
  cn_socket_fd :: int
  cn_channel :: "Channel option"
  reconnect_policy :: ReconnectPolicy
  next_backoff :: int
  retry_timer :: TimerId
  reconnect_attempt_count :: u64
  new_connection_callback :: bool
  error_callback :: bool
  cn_timers :: TimerQueue
  cn_tasks :: "cn_task list"
  cn_raised :: "timer_exn option"
  channel_lost :: bool
  cn_history :: "cn_event list"

text \<open>What one operation sees of the system: the results of \<open>socket\<close>, \<open>inet_pton\<close>, \<open>connect\<close> and \<open>getsockopt\<close>, the texts of error
  numbers, what the error callback does, and the clock.\<close>

record cn_os =
  create_socket :: "string + int"
  ip_valid :: bool
  connect_errno :: int
  getsockopt_so_error :: "int + int"
  strerror :: "int \<Rightarrow> string"
  error_callback_stops :: bool
  cn_now :: int
  cn_timer_os :: timer_os

definition EINPROGRESS :: int where "EINPROGRESS = 115"
definition EISCONN :: int where "EISCONN = 106"
definition ECONNREFUSED :: int where "ECONNREFUSED = 111"
definition EINTR_connect :: int where "EINTR_connect = 4"

definition kRetryFunctor :: callable where "kRetryFunctor = 5"

definition GetSocketError :: "cn_os \<Rightarrow> int" where
  "GetSocketError os = (case getsockopt_so_error os of Inl errno \<Rightarrow> errno | Inr error \<Rightarrow> error)"

definition Connector_new :: "string \<Rightarrow> TimerQueue \<Rightarrow> Connector" where
  "Connector_new ip q = \<lparr>cn_ip = ip, cn_connect = False, cn_state = CnDisconnected, cn_socket_fd = -1, cn_channel = None,
     reconnect_policy = ReconnectPolicy_default, next_backoff = 0, retry_timer = 0, reconnect_attempt_count = 0,
     new_connection_callback = False, error_callback = False, cn_timers = q, cn_tasks = [], cn_raised = None,
     channel_lost = False, cn_history = []\<rparr>"

definition cn_emit :: "cn_event \<Rightarrow> Connector \<Rightarrow> Connector" where
  "cn_emit e c = c\<lparr>cn_history := cn_history c @ [e]\<rparr>"

definition cn_queue :: "cn_task \<Rightarrow> Connector \<Rightarrow> Connector" where
  "cn_queue t c = c\<lparr>cn_tasks := cn_tasks c @ [t]\<rparr>"

section \<open>The retry timer\<close>

text \<open>The flag says that the call was left by an exception of the timer queue.\<close>

definition CancelReconnect :: "cn_os \<Rightarrow> Connector \<Rightarrow> bool \<times> Connector" where
  "CancelReconnect os c =
     (if \<not> TimerId_Valid (retry_timer c) then (False, c)
      else case Cancel (cn_timer_os os) True (retry_timer c) (cn_timers c) of
        (Some e, ts, q) \<Rightarrow> (True, c\<lparr>cn_timers := q, cn_raised := Some e\<rparr>)
      | (None, ts, q) \<Rightarrow> (False, c\<lparr>cn_timers := q, retry_timer := 0\<rparr>))"

definition ScheduleReconnect :: "cn_os \<Rightarrow> Connector \<Rightarrow> Connector" where
  "ScheduleReconnect os c =
     (if \<not> cn_connect c \<or> cn_state c \<noteq> CnDisconnected then c
      else let policy = reconnect_policy c;
               delay = (if next_backoff c = 0 then policy_initial policy else next_backoff c);
               next = delay * int (unat (policy_multiplier policy));
               c1 = cn_emit (CnRetryIn delay)
                      (c\<lparr>next_backoff := min next (policy_max policy), reconnect_attempt_count := reconnect_attempt_count c + 1\<rparr>)
        in case AddTimer (cn_timer_os os) True (cn_now os + delay * 1000000) (Functor (Some kRetryFunctor)) (cn_timers c1) of
             (Inl e, ts, q) \<Rightarrow> c1\<lparr>cn_timers := q, cn_raised := Some e\<rparr>
           | (Inr tid, ts, q) \<Rightarrow> c1\<lparr>cn_timers := q, retry_timer := tid\<rparr>)"

section \<open>Connecting\<close>

text \<open>\<open>DisableAll\<close> and \<open>Remove\<close> take the channel out of the poller; it is destroyed later by a task.\<close>

definition RemoveAndResetChannel :: "Connector \<Rightarrow> int \<times> Connector" where
  "RemoveAndResetChannel c =
     (case cn_channel c of
        Some ch \<Rightarrow> (chan_fd ch, cn_queue CnTaskResetChannel (c\<lparr>cn_channel := Some (DisableAll ch)\<rparr>))
      | None \<Rightarrow> (cn_socket_fd c, c\<lparr>channel_lost := True\<rparr>))"

definition ResetChannel :: "Connector \<Rightarrow> Connector" where
  "ResetChannel c =
     (case cn_channel c of
        None \<Rightarrow> c
      | Some ch \<Rightarrow> c\<lparr>cn_channel := None, channel_lost := channel_lost c \<or> \<not> IsNoneEvent ch\<rparr>)"

definition StopInLoop_cn :: "cn_os \<Rightarrow> Connector \<Rightarrow> Connector" where
  "StopInLoop_cn os c =
     (case CancelReconnect os c of
        (True, c1) \<Rightarrow> c1
      | (False, c1) \<Rightarrow>
          if cn_state c1 \<noteq> CnConnecting then c1
          else case RemoveAndResetChannel c1 of
            (fd, c2) \<Rightarrow> cn_emit (CnClosed fd) (c2\<lparr>cn_socket_fd := -1, cn_state := CnDisconnected\<rparr>))"

definition Connector_Stop :: "bool \<Rightarrow> cn_os \<Rightarrow> Connector \<Rightarrow> Connector" where
  "Connector_Stop in_loop os c =
     (let c1 = c\<lparr>cn_connect := False\<rparr> in if in_loop then StopInLoop_cn os c1 else cn_queue CnTaskStop c1)"

definition ReportError :: "cn_os \<Rightarrow> string \<Rightarrow> Connector \<Rightarrow> Connector" where
  "ReportError os reason c =
     (let c1 = c\<lparr>cn_state := CnDisconnected\<rparr>;
          c2 = (if error_callback c1
                then let c' = cn_emit (CnErrorReported reason) c1
                  in if error_callback_stops os then Connector_Stop True os c' else c'
                else c1)
      in ScheduleReconnect os c2)"

definition Connecting :: "int \<Rightarrow> Connector \<Rightarrow> Connector" where
  "Connecting fd c =
     c\<lparr>cn_state := CnConnecting, cn_socket_fd := fd, cn_channel := Some (EnableWriting (Channel_new fd))\<rparr>"

text \<open>The end of a successful attempt, on both paths.\<close>

definition hand_over :: "int \<Rightarrow> Connector \<Rightarrow> Connector" where
  "hand_over fd c =
     (if new_connection_callback c then cn_emit (CnHandedOver fd) c
      else cn_emit (CnClosed fd) (c\<lparr>cn_state := CnDisconnected\<rparr>))"

definition ConnectInLoop :: "cn_os \<Rightarrow> Connector \<Rightarrow> Connector" where
  "ConnectInLoop os c0 =
     (case create_socket os of
        Inl what \<Rightarrow> ReportError os what c0
      | Inr fd \<Rightarrow>
          let c = cn_emit (CnOpened fd) c0 in
          if \<not> ip_valid os then ReportError os (''invalid IPv4 address: '' @ cn_ip c) (cn_emit (CnClosed fd) c)
          else if connect_errno os = 0 \<or> connect_errno os = EISCONN
          then let c1 = c\<lparr>cn_state := CnConnected, next_backoff := 0\<rparr>
            in if \<not> cn_connect c1 then cn_emit (CnClosed fd) (c1\<lparr>cn_state := CnDisconnected\<rparr>)
               else hand_over fd c1
          else if connect_errno os = EINPROGRESS \<or> connect_errno os = EINTR_connect then Connecting fd c
          else ReportError os (''connect failed: '' @ strerror os (connect_errno os)) (cn_emit (CnClosed fd) c))"

definition StartInLoop_cn :: "cn_os \<Rightarrow> Connector \<Rightarrow> Connector" where
  "StartInLoop_cn os c =
     (if cn_connect c \<and> cn_state c = CnDisconnected
      then case CancelReconnect os c of (True, c1) \<Rightarrow> c1 | (False, c1) \<Rightarrow> ConnectInLoop os c1
      else c)"

definition Connector_Start :: "bool \<Rightarrow> cn_os \<Rightarrow> Connector \<Rightarrow> Connector" where
  "Connector_Start in_loop os c =
     (let c1 = c\<lparr>cn_connect := True\<rparr> in if in_loop then StartInLoop_cn os c1 else cn_queue CnTaskStart c1)"

definition RestartInLoop :: "cn_os \<Rightarrow> Connector \<Rightarrow> Connector" where
  "RestartInLoop os c =
     (if cn_state c \<noteq> CnConnected then c else StartInLoop_cn os (c\<lparr>cn_state := CnDisconnected\<rparr>))"

definition Connector_Restart :: "bool \<Rightarrow> cn_os \<Rightarrow> Connector \<Rightarrow> Connector" where
  "Connector_Restart in_loop os c = (if in_loop then RestartInLoop os c else cn_queue CnTaskRestart c)"

section \<open>Events of the channel\<close>

definition HandleWrite_cn :: "cn_os \<Rightarrow> Connector \<Rightarrow> Connector" where
  "HandleWrite_cn os c =
     (if cn_state c \<noteq> CnConnecting then c
      else case RemoveAndResetChannel c of
        (fd, c0) \<Rightarrow>
          let c1 = c0\<lparr>cn_socket_fd := -1\<rparr> in
          if GetSocketError os \<noteq> 0
          then ReportError os (''connect failed: '' @ strerror os (GetSocketError os)) (cn_emit (CnClosed fd) (c1\<lparr>cn_state := CnDisconnected\<rparr>))
          else if \<not> cn_connect c1 then cn_emit (CnClosed fd) (c1\<lparr>cn_state := CnDisconnected\<rparr>)
          else hand_over fd (c1\<lparr>cn_state := CnConnected, next_backoff := 0\<rparr>))"

definition HandleError_cn :: "cn_os \<Rightarrow> Connector \<Rightarrow> Connector" where
  "HandleError_cn os c =
     (if cn_state c \<noteq> CnConnecting then c
      else case RemoveAndResetChannel c of
        (fd, c0) \<Rightarrow>
          let c1 = cn_emit (CnClosed fd) (c0\<lparr>cn_socket_fd := -1, cn_state := CnDisconnected\<rparr>);
              err = (if GetSocketError os \<noteq> 0 then GetSocketError os else ECONNREFUSED)
          in ReportError os (''connect failed: '' @ strerror os err) c1)"

definition Connector_destroy :: "cn_os \<Rightarrow> Connector \<Rightarrow> Connector" where
  "Connector_destroy os c =
     (let c1 = snd (CancelReconnect os c);
          c2 = c1\<lparr>cn_channel := None\<rparr>
      in if cn_socket_fd c2 \<ge> 0 then cn_emit (CnClosed (cn_socket_fd c2)) (c2\<lparr>cn_socket_fd := -1\<rparr>) else c2)"

section \<open>Runs\<close>

text \<open>The retry timer is due: the wheel has taken it out, then its callback starts the connector.\<close>

definition OnRetryTimer :: "cn_os \<Rightarrow> Connector \<Rightarrow> Connector" where
  "OnRetryTimer os c =
     (case cancel_target (cn_timers c) (retry_timer c) of
        None \<Rightarrow> c
      | Some slot \<Rightarrow> StartInLoop_cn os (c\<lparr>cn_timers := RemoveTimerSlot slot (cn_timers c)\<rparr>))"

definition run_cn_task :: "cn_os \<Rightarrow> cn_task \<Rightarrow> Connector \<Rightarrow> Connector" where
  "run_cn_task os t c =
     (case t of CnTaskStart \<Rightarrow> StartInLoop_cn os c | CnTaskStop \<Rightarrow> StopInLoop_cn os c
      | CnTaskRestart \<Rightarrow> RestartInLoop os c | CnTaskResetChannel \<Rightarrow> ResetChannel c)"

datatype cn_op =
    CnStart bool cn_os
  | CnStop bool cn_os
  | CnRestart bool cn_os
  | CnTask nat cn_os
  | CnWritable cn_os
  | CnError cn_os
  | CnRetryTimer cn_os
  | CnCallbacks bool bool

definition cn_listening :: "Connector \<Rightarrow> bool" where
  "cn_listening c \<longleftrightarrow> (case cn_channel c of None \<Rightarrow> False | Some ch \<Rightarrow> \<not> IsNoneEvent ch)"

definition cn_apply :: "cn_op \<Rightarrow> Connector \<Rightarrow> Connector" where
  "cn_apply op c =
     (case op of
        CnStart in_loop os \<Rightarrow> Connector_Start in_loop os c
      | CnStop in_loop os \<Rightarrow> Connector_Stop in_loop os c
      | CnRestart in_loop os \<Rightarrow> Connector_Restart in_loop os c
      | CnTask i os \<Rightarrow>
          (if i < length (cn_tasks c)
           then run_cn_task os (cn_tasks c ! i) (c\<lparr>cn_tasks := take i (cn_tasks c) @ drop (Suc i) (cn_tasks c)\<rparr>) else c)
      | CnWritable os \<Rightarrow> (if cn_listening c then HandleWrite_cn os c else c)
      | CnError os \<Rightarrow> (if cn_listening c then HandleError_cn os c else c)
      | CnRetryTimer os \<Rightarrow> OnRetryTimer os c
      | CnCallbacks new_connection error \<Rightarrow> c\<lparr>new_connection_callback := new_connection, error_callback := error\<rparr>)"

definition cn_run :: "cn_op list \<Rightarrow> Connector \<Rightarrow> Connector" where
  "cn_run ops c = fold cn_apply ops c"

section \<open>The books\<close>

text \<open>The descriptors that a history opened, closed and gave away, and its delays.\<close>

definition cn_opened :: "cn_event list \<Rightarrow> int multiset" where
  "cn_opened h = (\<Sum>e\<leftarrow>h. case e of CnOpened fd \<Rightarrow> {#fd#} | _ \<Rightarrow> {#})"

definition cn_closed :: "cn_event list \<Rightarrow> int multiset" where
  "cn_closed h = (\<Sum>e\<leftarrow>h. case e of CnClosed fd \<Rightarrow> {#fd#} | _ \<Rightarrow> {#})"

definition cn_handed :: "cn_event list \<Rightarrow> int multiset" where
  "cn_handed h = (\<Sum>e\<leftarrow>h. case e of CnHandedOver fd \<Rightarrow> {#fd#} | _ \<Rightarrow> {#})"

lemmas cn_books = cn_opened_def cn_closed_def cn_handed_def

definition backoff :: "ReconnectPolicy \<Rightarrow> nat \<Rightarrow> int" where
  "backoff p k = min (policy_initial p * uint (policy_multiplier p) ^ k) (policy_max p)"

definition policy_ok :: "ReconnectPolicy \<Rightarrow> bool" where
  "policy_ok p \<longleftrightarrow> 0 < policy_initial p \<and> policy_initial p \<le> policy_max p"

lemma backoff_0: "policy_ok p \<Longrightarrow> backoff p 0 = policy_initial p"
  by (simp add: backoff_def policy_ok_def)

lemma backoff_Suc:
  assumes "policy_ok p"
  shows "min (backoff p k * uint (policy_multiplier p)) (policy_max p) = backoff p (Suc k)"
proof -
  define m M a where "m = uint (policy_multiplier p)" and "M = policy_max p" and "a = policy_initial p * m ^ k"
  have M: "0 < M" and m: "0 \<le> m" using assms by (auto simp: policy_ok_def M_def m_def)
  have "min (min a M * m) M = min (a * m) M"
  proof (cases "m = 0")
    case False
    with m M have "M \<le> M * m" by simp
    moreover have "min a M * m = min (a * m) (M * m)" using m by (simp add: min_mult_distrib_right)
    ultimately show ?thesis by linarith
  qed simp
  then show ?thesis by (simp add: backoff_def m_def [symmetric] M_def [symmetric] a_def mult_ac)
qed

text \<open>
  At most one retry timer is pending, it is the one that \<open>retry_timer_\<close> names and the connector is disconnected; the timers of others, \<open>F\<close>, are as they were.
\<close>

definition retry_ok :: "(nat \<times> TimerAction) multiset \<Rightarrow> Connector \<Rightarrow> bool" where
  "retry_ok F c \<longleftrightarrow> tq_inv (cn_timers c)
     \<and> (case cancel_target (cn_timers c) (retry_timer c) of
          None \<Rightarrow> timers (cn_timers c) = F
        | Some s \<Rightarrow> cn_state c = CnDisconnected \<and> snd (timer_of (cn_timers c) s) = Functor (Some kRetryFunctor)
            \<and> timers (cn_timers c) = add_mset (timer_of (cn_timers c) s) F)"

definition cn_balance :: "int multiset \<Rightarrow> Connector \<Rightarrow> bool" where
  "cn_balance d c \<longleftrightarrow> cn_opened (cn_history c) = cn_closed (cn_history c) + cn_handed (cn_history c) + d"

definition cn_channel_ok :: "Connector \<Rightarrow> bool" where
  "cn_channel_ok c \<longleftrightarrow> \<not> channel_lost c \<and>
     (if cn_state c = CnConnecting
      then 0 \<le> cn_socket_fd c \<and> CnTaskResetChannel \<notin> set (cn_tasks c)
        \<and> (\<exists>ch. cn_channel c = Some ch \<and> chan_fd ch = cn_socket_fd c \<and> \<not> IsNoneEvent ch)
      else cn_socket_fd c = -1 \<and> (\<forall>ch. cn_channel c = Some ch \<longrightarrow> IsNoneEvent ch \<and> CnTaskResetChannel \<in> set (cn_tasks c)))"

definition backoff_ok :: "ReconnectPolicy \<Rightarrow> Connector \<Rightarrow> bool" where
  "backoff_ok p c \<longleftrightarrow> reconnect_policy c = p \<and> (next_backoff c = 0 \<or> (\<exists>k. next_backoff c = backoff p k))
     \<and> (\<forall>d. CnRetryIn d \<in> set (cn_history c) \<longrightarrow> (\<exists>k. d = backoff p k))"

text \<open>The invariant, with descriptors \<open>d\<close> in the hands of the running operation.\<close>

definition cn_inv :: "ReconnectPolicy \<Rightarrow> (nat \<times> TimerAction) multiset \<Rightarrow> int multiset \<Rightarrow> Connector \<Rightarrow> bool" where
  "cn_inv p F d c \<longleftrightarrow> cn_balance (d + (if cn_state c = CnConnecting then {#cn_socket_fd c#} else {#})) c
     \<and> cn_channel_ok c \<and> backoff_ok p c \<and> (cn_raised c = None \<longrightarrow> retry_ok F c)"

lemmas cn_inv_defs = cn_inv_def cn_balance_def cn_channel_ok_def backoff_ok_def

lemma cn_emit_simps [simp]:
  "cn_state (cn_emit e c) = cn_state c" "cn_socket_fd (cn_emit e c) = cn_socket_fd c" "cn_channel (cn_emit e c) = cn_channel c"
  "cn_tasks (cn_emit e c) = cn_tasks c" "channel_lost (cn_emit e c) = channel_lost c" "cn_timers (cn_emit e c) = cn_timers c"
  "cn_raised (cn_emit e c) = cn_raised c" "next_backoff (cn_emit e c) = next_backoff c" "cn_connect (cn_emit e c) = cn_connect c"
  "reconnect_policy (cn_emit e c) = reconnect_policy c" "retry_timer (cn_emit e c) = retry_timer c"
  "cn_history (cn_emit e c) = cn_history c @ [e]" "new_connection_callback (cn_emit e c) = new_connection_callback c"
  "error_callback (cn_emit e c) = error_callback c"
  by (simp_all add: cn_emit_def)

lemma retry_ok_cong:
  "cn_timers c' = cn_timers c \<Longrightarrow> retry_timer c' = retry_timer c \<Longrightarrow> cn_state c' = cn_state c \<Longrightarrow> retry_ok F c' = retry_ok F c"
  by (simp add: retry_ok_def split: option.split)

lemma retry_ok_emit [simp]: "retry_ok F (cn_emit e c) = retry_ok F c"
  by (rule retry_ok_cong) simp_all

lemma emit_closed: "cn_inv p F (add_mset fd d) c \<Longrightarrow> cn_inv p F d (cn_emit (CnClosed fd) c)"
  by (auto simp: cn_inv_defs cn_books)

lemma emit_handed: "cn_inv p F (add_mset fd d) c \<Longrightarrow> cn_inv p F d (cn_emit (CnHandedOver fd) c)"
  by (auto simp: cn_inv_defs cn_books)

lemma emit_opened: "cn_inv p F d c \<Longrightarrow> cn_inv p F (add_mset fd d) (cn_emit (CnOpened fd) c)"
  by (auto simp: cn_inv_defs cn_books)

lemma emit_reported: "cn_inv p F d c \<Longrightarrow> cn_inv p F d (cn_emit (CnErrorReported r) c)"
  by (auto simp: cn_inv_defs cn_books)

text \<open>Without a pending timer the state may change.\<close>

definition no_retry :: "Connector \<Rightarrow> bool" where
  "no_retry c \<longleftrightarrow> (cn_raised c = None \<longrightarrow> cancel_target (cn_timers c) (retry_timer c) = None)"

lemma cancel_target_0 [simp]: "cancel_target q 0 = None"
  by (simp add: cancel_target_def IsExternalTimerId_def DecodeSlotTimerId_def TimerId_Valid_def)

lemma not_disconnected_no_retry: "cn_inv p F d c \<Longrightarrow> cn_state c \<noteq> CnDisconnected \<Longrightarrow> no_retry c"
  by (auto simp: cn_inv_def retry_ok_def no_retry_def split: option.splits)

lemma retry_ok_state: "no_retry c \<Longrightarrow> cn_raised c = None \<Longrightarrow> retry_ok F (c\<lparr>cn_state := st\<rparr>) = retry_ok F c"
  by (simp add: retry_ok_def no_retry_def)

section \<open>The operations keep the books\<close>

lemma CancelReconnect_frame:
  "CancelReconnect os c = (b, c') \<Longrightarrow> cn_state c' = cn_state c \<and> cn_tasks c' = cn_tasks c \<and> cn_socket_fd c' = cn_socket_fd c
   \<and> cn_channel c' = cn_channel c \<and> cn_history c' = cn_history c \<and> channel_lost c' = channel_lost c
   \<and> next_backoff c' = next_backoff c \<and> reconnect_policy c' = reconnect_policy c \<and> cn_connect c' = cn_connect c"
  by (auto simp: CancelReconnect_def split: if_splits prod.splits option.splits)

lemma CancelReconnect_inv:
  assumes "cn_inv p F d c" "CancelReconnect os c = (b, c')"
  shows "cn_inv p F d c'" "\<not> b \<Longrightarrow> no_retry c'" "b \<Longrightarrow> cn_raised c' \<noteq> None"
proof -
  note fr = CancelReconnect_frame [OF assms(2)]
  have "(cn_raised c' = None \<longrightarrow> retry_ok F c') \<and> (\<not> b \<longrightarrow> no_retry c') \<and> (b \<longrightarrow> cn_raised c' \<noteq> None)"
  proof (cases "TimerId_Valid (retry_timer c)")
    case False
    with assms show ?thesis by (auto simp: CancelReconnect_def cn_inv_def no_retry_def TimerId_Valid_def)
  next
    case True
    obtain res q where q: "CancelInLoop (cn_timer_os os) (retry_timer c) (cn_timers c) = (res, q)" by (cases "CancelInLoop (cn_timer_os os) (retry_timer c) (cn_timers c)")
    have c': "(b, c') = (case res of Some e \<Rightarrow> (True, c\<lparr>cn_timers := q, cn_raised := Some e\<rparr>) | None \<Rightarrow> (False, c\<lparr>cn_timers := q, retry_timer := 0\<rparr>))"
      using assms(2) True q by (auto simp: CancelReconnect_def Cancel_def split: option.splits)
    show ?thesis
    proof (cases res)
      case None
      have "retry_ok F c'" if "cn_raised c = None"
      proof -
        have ok: "retry_ok F c" using assms(1) that by (simp add: cn_inv_def)
        then have "tq_ok (stable_pos (current_tick (cn_timers c))) (cn_timers c)" by (simp add: retry_ok_def tq_inv_def)
        note k = Cancel_ok [OF this q]
        from ok k(1,2,4) c' None show ?thesis by (auto simp: retry_ok_def tq_inv_def split: option.splits)
      qed
      with c' None show ?thesis by (simp add: no_retry_def)
    qed (use c' in simp)
  qed
  with assms(1) fr show "cn_inv p F d c'" "\<not> b \<Longrightarrow> no_retry c'" "b \<Longrightarrow> cn_raised c' \<noteq> None"
    by (auto simp: cn_inv_defs)
qed

lemma ScheduleReconnect_inv:
  assumes inv: "cn_inv p F d c" and nr: "no_retry c" and p: "policy_ok p"
  shows "cn_inv p F d (ScheduleReconnect os c)"
proof (cases "\<not> cn_connect c \<or> cn_state c \<noteq> CnDisconnected")
  case True
  with inv show ?thesis by (simp add: ScheduleReconnect_def)
next
  case False
  define delay where "delay = (if next_backoff c = 0 then policy_initial p else next_backoff c)"
  have pol: "reconnect_policy c = p" using inv by (simp add: cn_inv_defs)
  have "next_backoff c = 0 \<or> (\<exists>k. next_backoff c = backoff p k)" using inv by (simp add: cn_inv_defs)
  then obtain k where k: "delay = backoff p k" using backoff_0 [OF p] unfolding delay_def by metis
  define c1 where "c1 = cn_emit (CnRetryIn delay) (c\<lparr>next_backoff := min (delay * uint (policy_multiplier p)) (policy_max p),
      reconnect_attempt_count := reconnect_attempt_count c + 1\<rparr>)"
  have nb: "next_backoff c1 = backoff p (Suc k)" by (simp add: c1_def k backoff_Suc [OF p])
  have ok1: "retry_ok F c1 = retry_ok F c" by (rule retry_ok_cong) (simp_all add: c1_def)
  have inv1: "cn_inv p F d c1"
    using inv k nb ok1 pol unfolding cn_inv_defs by (auto simp: c1_def cn_books)
  have mult: "int (unat (policy_multiplier p)) = uint (policy_multiplier p)" by simp
  obtain res q where q: "AddTimerInLoop (cn_timer_os os) (cn_now os + delay * 1000000) (Functor (Some kRetryFunctor)) 0 (cn_timers c1) = (res, q)"
    by (cases "AddTimerInLoop (cn_timer_os os) (cn_now os + delay * 1000000) (Functor (Some kRetryFunctor)) 0 (cn_timers c1)")
  have s: "ScheduleReconnect os c = (case res of Inl e \<Rightarrow> c1\<lparr>cn_timers := q, cn_raised := Some e\<rparr> | Inr tid \<Rightarrow> c1\<lparr>cn_timers := q, retry_timer := tid\<rparr>)"
    using False q unfolding ScheduleReconnect_def AddTimer_def pol delay_def [symmetric] Let_def mult c1_def [symmetric]
    by (simp split: sum.splits)
  show ?thesis
  proof (cases res)
    case (Inl e)
    with s inv1 show ?thesis by (auto simp: cn_inv_defs)
  next
    case (Inr tid)
    have "retry_ok F (c1\<lparr>cn_timers := q, retry_timer := tid\<rparr>)" if "cn_raised c1 = None"
    proof -
      have ok: "tq_inv (cn_timers c1)" "timers (cn_timers c1) = F" "cn_state c1 = CnDisconnected"
        using inv1 that nr False by (auto simp: cn_inv_def retry_ok_def no_retry_def c1_def)
      from Add_target [OF ok(1) q [unfolded Inr]] Add_inv [OF ok(1) q] Inr ok(2,3) show ?thesis
        by (auto simp: retry_ok_def fresh_external_def)
    qed
    with s Inr inv1 show ?thesis by (auto simp: cn_inv_defs)
  qed
qed

lemma cn_inv_cong:
  assumes "cn_inv p F d c" "cn_timers c' = cn_timers c" "retry_timer c' = retry_timer c" "cn_state c' = cn_state c"
    "cn_history c' = cn_history c" "cn_channel c' = cn_channel c" "cn_socket_fd c' = cn_socket_fd c" "channel_lost c' = channel_lost c"
    "next_backoff c' = next_backoff c" "reconnect_policy c' = reconnect_policy c" "cn_raised c' = cn_raised c"
    "CnTaskResetChannel \<in> set (cn_tasks c') \<longleftrightarrow> CnTaskResetChannel \<in> set (cn_tasks c)"
  shows "cn_inv p F d c'"
  using assms(1) retry_ok_cong [OF assms(2-4), of F] unfolding cn_inv_defs assms(4-) by auto

lemma cn_inv_connect: "cn_inv p F d c \<Longrightarrow> cn_inv p F d (c\<lparr>cn_connect := b\<rparr>)"
  by (erule cn_inv_cong) simp_all

lemma cn_inv_queue: "cn_inv p F d c \<Longrightarrow> t \<noteq> CnTaskResetChannel \<Longrightarrow> cn_inv p F d (cn_queue t c)"
  by (erule cn_inv_cong) (auto simp: cn_queue_def)

lemma DisableAll_none [simp]: "IsNoneEvent (DisableAll ch)" "chan_fd (DisableAll ch) = chan_fd ch"
  by (simp_all add: IsNoneEvent_def DisableAll_def Channel_Update_def)

text \<open>Taking the channel of a running attempt down leaves its descriptor with the caller, who sets the state.\<close>

lemma RemoveAndReset_inv:
  assumes "cn_inv p F d c" "cn_state c = CnConnecting" "RemoveAndResetChannel c = (fd, c')" "st \<noteq> CnConnecting"
  shows "fd = cn_socket_fd c" "cn_inv p F (add_mset fd d) (c'\<lparr>cn_socket_fd := -1, cn_state := st\<rparr>)"
    "no_retry (c'\<lparr>cn_socket_fd := -1, cn_state := st\<rparr>)" "cn_connect c' = cn_connect c"
    "new_connection_callback c' = new_connection_callback c"
proof -
  obtain ch where ch: "cn_channel c = Some ch" "chan_fd ch = cn_socket_fd c" using assms(1,2) by (auto simp: cn_inv_defs)
  then have c': "fd = cn_socket_fd c" "c' = cn_queue CnTaskResetChannel (c\<lparr>cn_channel := Some (DisableAll ch)\<rparr>)"
    using assms(3) by (simp_all add: RemoveAndResetChannel_def)
  show "fd = cn_socket_fd c" "cn_connect c' = cn_connect c" "new_connection_callback c' = new_connection_callback c"
    using c' by (simp_all add: cn_queue_def)
  have nr: "no_retry c" using not_disconnected_no_retry [OF assms(1)] assms(2) by simp
  then show "no_retry (c'\<lparr>cn_socket_fd := -1, cn_state := st\<rparr>)" by (simp add: no_retry_def c' cn_queue_def)
  have ok: "cn_raised c = None \<Longrightarrow> retry_ok F (c'\<lparr>cn_socket_fd := -1, cn_state := st\<rparr>)"
    using nr assms(1) by (simp add: no_retry_def cn_inv_def retry_ok_def c' cn_queue_def)
  show "cn_inv p F (add_mset fd d) (c'\<lparr>cn_socket_fd := -1, cn_state := st\<rparr>)"
    using assms(1,2,4) ok unfolding cn_inv_defs by (auto simp: c' cn_queue_def)
qed

lemma StopInLoop_inv:
  assumes "cn_inv p F d c"
  shows "cn_inv p F d (StopInLoop_cn os c)"
proof -
  obtain b c1 where c1: "CancelReconnect os c = (b, c1)" by (cases "CancelReconnect os c")
  note k = CancelReconnect_inv [OF assms c1]
  obtain fd c2 where c2: "RemoveAndResetChannel c1 = (fd, c2)" by (cases "RemoveAndResetChannel c1")
  show "cn_inv p F d (StopInLoop_cn os c)"
    using k(1) emit_closed [OF RemoveAndReset_inv(2) [OF k(1) _ c2, of CnDisconnected]]
    by (auto simp: StopInLoop_cn_def c1 c2 split: bool.split)
qed

text \<open>Away from a running attempt, stopping only cancels the timer.\<close>

lemma StopInLoop_idle:
  assumes "cn_inv p F d c" "cn_state c \<noteq> CnConnecting"
  shows "no_retry (StopInLoop_cn os c)" "cn_state (StopInLoop_cn os c) = cn_state c" "cn_connect (StopInLoop_cn os c) = cn_connect c"
proof -
  obtain b c1 where c1: "CancelReconnect os c = (b, c1)" by (cases "CancelReconnect os c")
  note k = CancelReconnect_inv [OF assms(1) c1] and fr = CancelReconnect_frame [OF c1]
  have s: "StopInLoop_cn os c = c1" using fr assms(2) by (auto simp: StopInLoop_cn_def c1 split: bool.split)
  have "no_retry c1" using k(2,3) unfolding no_retry_def by blast
  with fr show "no_retry (StopInLoop_cn os c)" "cn_state (StopInLoop_cn os c) = cn_state c" "cn_connect (StopInLoop_cn os c) = cn_connect c"
    unfolding s by simp_all
qed

lemma ReportError_inv:
  assumes inv: "cn_inv p F d c" and nr: "no_retry c" and st: "cn_state c = CnDisconnected" and p: "policy_ok p"
  shows "cn_inv p F d (ReportError os reason c)"
proof -
  define c2 where "c2 = (if error_callback c then let c' = cn_emit (CnErrorReported reason) c
      in if error_callback_stops os then Connector_Stop True os c' else c' else c)"
  have r: "ReportError os reason c = ScheduleReconnect os c2"
  proof -
    have "c\<lparr>cn_state := CnDisconnected\<rparr> = c" using st by simp
    then show ?thesis by (simp add: ReportError_def Let_def c2_def)
  qed
  define c' where "c' = (cn_emit (CnErrorReported reason) c)\<lparr>cn_connect := False\<rparr>"
  have c': "cn_inv p F d c'" unfolding c'_def by (rule cn_inv_connect [OF emit_reported [OF inv]])
  have "cn_inv p F d c2 \<and> no_retry c2"
    using inv nr emit_reported [OF inv] StopInLoop_inv [OF c', of os] StopInLoop_idle(1) [OF c', of os] st
    by (auto simp: c2_def Let_def Connector_Stop_def c'_def [symmetric] no_retry_def) (simp_all add: c'_def)
  then show ?thesis unfolding r using ScheduleReconnect_inv p by blast
qed

text \<open>The kernel hands out descriptors that are not negative.\<close>

definition cn_os_ok :: "cn_os \<Rightarrow> bool" where
  "cn_os_ok os \<longleftrightarrow> (case create_socket os of Inl _ \<Rightarrow> True | Inr fd \<Rightarrow> 0 \<le> fd)"

lemma cn_inv_disconnected:
  assumes "cn_inv p F d c" "cn_state c \<noteq> CnConnecting" "no_retry c" "st \<noteq> CnConnecting"
  shows "cn_inv p F d (c\<lparr>cn_state := st\<rparr>)"
proof -
  have "cn_raised c = None \<Longrightarrow> retry_ok F (c\<lparr>cn_state := st\<rparr>)"
    using assms(1,3) retry_ok_state by (simp add: cn_inv_def)
  with assms(1,2,4) show ?thesis unfolding cn_inv_defs by auto
qed

lemma cn_inv_backoff_0: "cn_inv p F d c \<Longrightarrow> cn_inv p F d (c\<lparr>next_backoff := 0\<rparr>)"
  using retry_ok_cong [of "c\<lparr>next_backoff := 0\<rparr>" c] unfolding cn_inv_defs by auto

lemma hand_over_inv:
  assumes "cn_inv p F (add_mset fd d) c" "no_retry c" "cn_state c \<noteq> CnConnecting"
  shows "cn_inv p F d (hand_over fd c)"
  using emit_handed [OF assms(1)] emit_closed [OF cn_inv_disconnected [OF assms(1,3,2), of CnDisconnected]] by (simp add: hand_over_def)

lemma Connecting_inv:
  assumes "cn_inv p F (add_mset fd d) c" "no_retry c" "cn_state c = CnDisconnected" "CnTaskResetChannel \<notin> set (cn_tasks c)" "0 \<le> fd"
  shows "cn_inv p F d (Connecting fd c)"
proof -
  have "\<not> IsNoneEvent (EnableWriting (Channel_new fd))" "chan_fd (EnableWriting (Channel_new fd)) = fd"
    by (simp_all add: IsNoneEvent_def EnableWriting_def Channel_Update_def Channel_new_def kWriteEvent_def kNoneEvent_def EPOLLOUT_def)
  moreover have "cn_raised c = None \<Longrightarrow> retry_ok F (Connecting fd c)"
    using assms(1,2) by (simp add: cn_inv_def retry_ok_def no_retry_def Connecting_def)
  ultimately show ?thesis using assms(1,3-) unfolding cn_inv_defs by (auto simp: Connecting_def)
qed

lemma no_retry_simps [simp]: "no_retry (cn_emit e c) = no_retry c" "no_retry (c\<lparr>cn_state := st\<rparr>) = no_retry c" "no_retry (c\<lparr>next_backoff := b\<rparr>) = no_retry c"
  by (simp_all add: no_retry_def)

lemma ConnectInLoop_inv:
  assumes inv: "cn_inv p F {#} c" and nr: "no_retry c" and st: "cn_state c = CnDisconnected" and calm: "CnTaskResetChannel \<notin> set (cn_tasks c)"
    and os: "cn_os_ok os" and p: "policy_ok p"
  shows "cn_inv p F {#} (ConnectInLoop os c)"
proof (cases "create_socket os")
  case (Inl what)
  with ReportError_inv [OF inv nr st p] show ?thesis by (simp add: ConnectInLoop_def)
next
  case (Inr fd)
  define c1 where "c1 = cn_emit (CnOpened fd) c"
  have i1: "cn_inv p F {#fd#} c1" "no_retry c1" "cn_state c1 = CnDisconnected" using emit_opened [OF inv] nr st by (simp_all add: c1_def)
  define c2 where "c2 = c1\<lparr>cn_state := CnConnected, next_backoff := 0\<rparr>"
  have i2: "cn_inv p F {#fd#} c2" "no_retry c2" "cn_state c2 = CnConnected"
    using cn_inv_backoff_0 [OF cn_inv_disconnected [OF i1(1) _ i1(2), of CnConnected]] i1(2,3) by (simp_all add: c2_def)
  have "0 \<le> fd" using os Inr by (simp add: cn_os_ok_def)
  with i1 calm have i3: "cn_inv p F {#} (Connecting fd c1)" by (intro Connecting_inv) (simp_all add: c1_def)
  have i4: "cn_inv p F {#} (cn_emit (CnClosed fd) (c2\<lparr>cn_state := CnDisconnected\<rparr>))"
    using emit_closed [OF cn_inv_disconnected [OF i2(1) _ i2(2)]] i2(3) by simp
  have "cn_inv p F {#} (ReportError os r (cn_emit (CnClosed fd) c1))" for r
    using ReportError_inv [OF emit_closed [OF i1(1)] _ _ p] i1(2,3) by simp
  with i3 i4 hand_over_inv [OF i2(1,2)] i2(3) show ?thesis
    by (simp add: ConnectInLoop_def Inr Let_def c1_def [symmetric] c2_def [symmetric])
qed

lemma StartInLoop_inv:
  assumes "cn_inv p F {#} c" "CnTaskResetChannel \<notin> set (cn_tasks c)" "cn_os_ok os" "policy_ok p"
  shows "cn_inv p F {#} (StartInLoop_cn os c)"
proof -
  obtain b c1 where c1: "CancelReconnect os c = (b, c1)" by (cases "CancelReconnect os c")
  note k = CancelReconnect_inv [OF assms(1) c1] and fr = CancelReconnect_frame [OF c1]
  show ?thesis using assms(1) k(1) fr ConnectInLoop_inv [OF k(1) k(2) _ _ assms(3,4)] assms(2)
    by (auto simp: StartInLoop_cn_def c1 split: bool.split)
qed

lemma RestartInLoop_inv:
  assumes "cn_inv p F {#} c" "CnTaskResetChannel \<notin> set (cn_tasks c)" "cn_os_ok os" "policy_ok p"
  shows "cn_inv p F {#} (RestartInLoop os c)"
  using assms(1) StartInLoop_inv [OF cn_inv_disconnected [OF assms(1) _ not_disconnected_no_retry [OF assms(1)], of CnDisconnected] _ assms(3,4)] assms(2)
  by (auto simp: RestartInLoop_def)

lemma HandleWrite_inv:
  assumes inv: "cn_inv p F {#} c" and p: "policy_ok p"
  shows "cn_inv p F {#} (HandleWrite_cn os c)"
proof (cases "cn_state c = CnConnecting")
  case True
  obtain fd c0 where c0: "RemoveAndResetChannel c = (fd, c0)" by (cases "RemoveAndResetChannel c")
  note rm = RemoveAndReset_inv [OF inv True c0]
  have d: "cn_inv p F {#} (cn_emit (CnClosed fd) (c0\<lparr>cn_socket_fd := -1, cn_state := CnDisconnected\<rparr>))" (is "cn_inv p F {#} ?c")
    using emit_closed [OF rm(2)] by simp
  moreover have "cn_inv p F {#} (ReportError os r ?c)" for r
    using ReportError_inv [OF d _ _ p] rm(3) [of CnDisconnected] by simp
  moreover have "cn_inv p F {#} (hand_over fd (c0\<lparr>cn_socket_fd := -1, cn_state := CnConnected, next_backoff := 0\<rparr>))"
    using hand_over_inv [OF cn_inv_backoff_0 [OF rm(2)]] rm(3) [of CnConnected] by simp
  ultimately show ?thesis using True by (simp add: HandleWrite_cn_def c0 Let_def)
qed (use inv in \<open>simp add: HandleWrite_cn_def\<close>)

lemma HandleError_inv:
  assumes inv: "cn_inv p F {#} c" and p: "policy_ok p"
  shows "cn_inv p F {#} (HandleError_cn os c)"
proof (cases "cn_state c = CnConnecting")
  case True
  obtain fd c0 where c0: "RemoveAndResetChannel c = (fd, c0)" by (cases "RemoveAndResetChannel c")
  note rm = RemoveAndReset_inv [OF inv True c0, of CnDisconnected]
  from ReportError_inv [OF emit_closed [OF rm(2)] _ _ p] rm(3) True show ?thesis by (simp add: HandleError_cn_def c0 Let_def)
qed (use inv in \<open>simp add: HandleError_cn_def\<close>)

lemma ResetChannel_inv:
  assumes "cn_inv p F {#} c" "cn_state c \<noteq> CnConnecting"
  shows "cn_inv p F {#} (ResetChannel (c\<lparr>cn_tasks := ts\<rparr>))"
  using assms retry_ok_cong [of "c\<lparr>cn_tasks := ts, cn_channel := None, channel_lost := False\<rparr>" c F] retry_ok_cong [of "c\<lparr>cn_tasks := ts\<rparr>" c F]
  unfolding cn_inv_defs by (auto simp: ResetChannel_def split: option.splits)

text \<open>The timer is taken out of the wheel before its callback runs; its identifier then names nothing.\<close>

lemma fired_inv:
  assumes inv: "cn_inv p F {#} c" and s: "cancel_target (cn_timers c) (retry_timer c) = Some s"
  shows "cn_inv p F {#} (c\<lparr>cn_timers := RemoveTimerSlot s (cn_timers c)\<rparr>)"
proof -
  have "retry_ok F (c\<lparr>cn_timers := RemoveTimerSlot s (cn_timers c)\<rparr>)" if "cn_raised c = None"
  proof -
    have ok: "retry_ok F c" using inv that by (simp add: cn_inv_def)
    then have tq: "tq_ok (stable_pos (current_tick (cn_timers c))) (cn_timers c)" by (simp add: retry_ok_def tq_inv_def)
    note rm = Remove_tq [OF tq cancel_target_active [OF tq s]]
    from ok s rm(1,2,4) Remove_not_target [OF tq s] show ?thesis by (simp add: retry_ok_def tq_inv_def)
  qed
  with inv show ?thesis unfolding cn_inv_defs by auto
qed

section \<open>Runs keep the books\<close>

text \<open>
  A run is orderly when no attempt begins while the channel of the attempt before it still waits to be destroyed.
  The retry timer obeys this by itself, because the loop runs its queued functors before it waits again.
\<close>

definition cn_connects :: "cn_op \<Rightarrow> Connector \<Rightarrow> bool" where
  "cn_connects op c \<longleftrightarrow>
     (case op of
        CnStart in_loop os \<Rightarrow> in_loop
      | CnRestart in_loop os \<Rightarrow> in_loop
      | CnRetryTimer os \<Rightarrow> True
      | CnTask i os \<Rightarrow> i < length (cn_tasks c) \<and> cn_tasks c ! i \<in> {CnTaskStart, CnTaskRestart}
      | _ \<Rightarrow> False)"

definition cn_op_os :: "cn_op \<Rightarrow> cn_os option" where
  "cn_op_os op =
     (case op of CnStart _ os \<Rightarrow> Some os | CnStop _ os \<Rightarrow> Some os | CnRestart _ os \<Rightarrow> Some os | CnTask _ os \<Rightarrow> Some os
      | CnWritable os \<Rightarrow> Some os | CnError os \<Rightarrow> Some os | CnRetryTimer os \<Rightarrow> Some os | CnCallbacks _ _ \<Rightarrow> None)"

fun orderly :: "cn_op list \<Rightarrow> Connector \<Rightarrow> bool" where
  "orderly [] c = True"
| "orderly (op # ops) c \<longleftrightarrow> (cn_connects op c \<longrightarrow> CnTaskResetChannel \<notin> set (cn_tasks c))
     \<and> list_all cn_os_ok (case cn_op_os op of None \<Rightarrow> [] | Some os \<Rightarrow> [os]) \<and> orderly ops (cn_apply op c)"

lemma taken_task:
  assumes "i < length xs" "xs ! i \<noteq> y"
  shows "y \<in> set (take i xs @ drop (Suc i) xs) \<longleftrightarrow> y \<in> set xs"
  using assms by (subst (3) id_take_nth_drop [OF assms(1)]) auto

lemma run_cn_task_inv:
  assumes inv: "cn_inv p F {#} c" and i: "i < length (cn_tasks c)" and os: "cn_os_ok os" and p: "policy_ok p"
    and calm: "cn_tasks c ! i \<in> {CnTaskStart, CnTaskRestart} \<Longrightarrow> CnTaskResetChannel \<notin> set (cn_tasks c)"
  shows "cn_inv p F {#} (run_cn_task os (cn_tasks c ! i) (c\<lparr>cn_tasks := take i (cn_tasks c) @ drop (Suc i) (cn_tasks c)\<rparr>))" (is "cn_inv p F {#} (run_cn_task os ?t ?c)")
proof (cases "cn_tasks c ! i = CnTaskResetChannel")
  case True
  then have "cn_state c \<noteq> CnConnecting" using inv nth_mem [OF i] by (auto simp: cn_inv_defs)
  with ResetChannel_inv [OF inv] True show ?thesis by (simp add: run_cn_task_def)
next
  case False
  note mem = taken_task [OF i False]
  have c: "cn_inv p F {#} ?c" by (rule cn_inv_cong [OF inv]) (use mem in simp_all)
  show ?thesis
    using StartInLoop_inv [OF c _ os p] StopInLoop_inv [OF c] RestartInLoop_inv [OF c _ os p] calm mem False
    by (cases "cn_tasks c ! i") (auto simp: run_cn_task_def)
qed

lemma cn_apply_inv:
  assumes inv: "cn_inv p F {#} c" and p: "policy_ok p" and ok: "orderly (op # ops) c"
  shows "cn_inv p F {#} (cn_apply op c)"
proof -
  have start: "cn_inv p F {#} (StartInLoop_cn os (c\<lparr>cn_connect := b\<rparr>))" if "CnTaskResetChannel \<notin> set (cn_tasks c)" "cn_os_ok os" for os b
    using StartInLoop_inv [OF cn_inv_connect [OF inv] _ that(2) p] that(1) by simp
  have fired: "cn_inv p F {#} (OnRetryTimer os c)" if "CnTaskResetChannel \<notin> set (cn_tasks c)" "cn_os_ok os" for os
    using inv StartInLoop_inv [OF fired_inv [OF inv] _ that(2) p] that(1) by (auto simp: OnRetryTimer_def split: option.split)
  have cb: "cn_inv p F {#} (c\<lparr>new_connection_callback := a, error_callback := b\<rparr>)" for a b
    by (rule cn_inv_cong [OF inv]) simp_all
  note io = HandleWrite_inv [OF inv p] HandleError_inv [OF inv p]
  note stop = StopInLoop_inv [OF cn_inv_connect [OF inv]] cn_inv_queue [OF cn_inv_connect [OF inv]] cn_inv_queue [OF inv]
  show ?thesis
    using ok inv start fired cb io stop run_cn_task_inv [OF inv _ _ p] RestartInLoop_inv [OF inv _ _ p]
    by (cases op) (auto simp: cn_apply_def cn_connects_def cn_op_os_def Connector_Start_def Connector_Stop_def Connector_Restart_def Let_def)
qed

lemma cn_run_inv:
  "cn_inv p F {#} c \<Longrightarrow> policy_ok p \<Longrightarrow> orderly ops c \<Longrightarrow> cn_inv p F {#} (cn_run ops c)"
proof (induction ops arbitrary: c)
  case (Cons op ops)
  from Cons.IH [OF cn_apply_inv [OF Cons.prems] Cons.prems(2)] Cons.prems(3) show ?case by (simp add: cn_run_def)
qed (simp add: cn_run_def)

lemma cn_inv_new:
  assumes "tq_inv q"
  shows "cn_inv p (timers q) {#} ((Connector_new ip q)\<lparr>reconnect_policy := p\<rparr>)"
  using assms by (simp add: cn_inv_defs cn_books Connector_new_def retry_ok_def)

lemma Connector_destroy_inv:
  assumes "cn_inv p F {#} c"
  shows "cn_balance {#} (Connector_destroy os c)"
    "cn_raised (Connector_destroy os c) = None \<Longrightarrow> timers (cn_timers (Connector_destroy os c)) = F"
proof -
  obtain b c1 where c1: "CancelReconnect os c = (b, c1)" by (cases "CancelReconnect os c")
  note k = CancelReconnect_inv [OF assms c1]
  show "cn_balance {#} (Connector_destroy os c)"
    using k(1) by (auto simp: Connector_destroy_def c1 Let_def cn_inv_defs cn_books split: if_splits)
  have eq: "cn_raised (Connector_destroy os c) = cn_raised c1" "cn_timers (Connector_destroy os c) = cn_timers c1"
    by (simp_all add: Connector_destroy_def c1 Let_def)
  show "timers (cn_timers (Connector_destroy os c)) = F" if "cn_raised (Connector_destroy os c) = None"
    using that k eq by (cases b) (auto simp: cn_inv_def retry_ok_def no_retry_def)
qed


definition demo_cn_os :: "int \<Rightarrow> int \<Rightarrow> cn_os" where
  "demo_cn_os fd err = \<lparr>create_socket = Inr fd, ip_valid = True, connect_errno = err, getsockopt_so_error = Inr 0, strerror = (\<lambda>_. []),
     error_callback_stops = False, cn_now = 0, cn_timer_os = \<lparr>clock_now = 0, clock_arm = 0, settime_ok = True\<rparr>\<rparr>"

lemmas demo_cn_simps = demo_cn_os_def GetSocketError_def cn_run_def cn_apply_def Connector_new_def cn_connects_def cn_op_os_def cn_os_ok_def
  Connector_Start_def Connector_Stop_def StartInLoop_cn_def StopInLoop_cn_def CancelReconnect_def TimerId_Valid_def ConnectInLoop_def
  Connecting_def EINPROGRESS_def EISCONN_def cn_emit_def cn_queue_def cn_listening_def IsNoneEvent_def EnableWriting_def DisableAll_def
  Channel_Update_def Channel_new_def kWriteEvent_def kNoneEvent_def EPOLLOUT_def HandleWrite_cn_def RemoveAndResetChannel_def hand_over_def
  run_cn_task_def ResetChannel_def cn_books

text \<open>Stopping a connector during an attempt and starting it again in the same turn of the loop destroys the new, registered channel:
  \<open>ResetChannel\<close> of the first attempt is still queued.\<close>

lemma stop_start_loses_channel:
  "\<exists>ops. \<not> orderly ops (Connector_new ip q) \<and> channel_lost (cn_run ops (Connector_new ip q))"
  by (rule exI [of _ "[CnStart True (demo_cn_os 7 EINPROGRESS), CnStop True (demo_cn_os 8 0), CnStart True (demo_cn_os 8 EINPROGRESS), CnTask 0 (demo_cn_os 8 0)]"])
    (simp add: demo_cn_simps Let_def)

definition demo_connect :: "cn_op list" where
  "demo_connect = [CnCallbacks True True, CnStart True (demo_cn_os 7 EINPROGRESS), CnWritable (demo_cn_os 8 0), CnTask 0 (demo_cn_os 8 0)]"


end
