(* ===== verification/Net_Client.thy ===== *)
theory Net_Client
  imports Net_Connector Conn_Closing
begin

text \<open>
  \<open>nebula/net/tcp_client.cpp\<close>: a client of one peer, made of the connector, which produces connected sockets, and the connection
  that owns the current one. The theory composes the models of both: a socket the connector hands over becomes a connection, and
  a connection that is lost makes the connector start again. Connections are a table indexed by their number. The callbacks of the user
  (connection, message, error) do not call the client back; what user code does to the client are operations of the run.
\<close>

section \<open>State and operations\<close>

record client_settings =
  set_connection_callback :: bool
  set_write_complete_callback :: bool
  set_connect_error_callback :: bool
  set_high_watermark_callback :: bool
  set_high_watermark :: nat
  set_max_output_buffer_bytes :: nat
  set_max_input_buffer_bytes :: nat

text \<open>\<open>tc_tasks\<close>: the connections whose \<open>ConnectDestroyed\<close> is queued. \<open>tc_refused\<close>: sockets closed because the user no longer wants a connection.\<close>

record Client =
  tc_connect :: bool
  tc_connection :: "nat option"
  tc_next_id :: nat
  tc_settings :: client_settings
  tc_connector :: Connector
  tc_conns :: "nat \<Rightarrow> TcpConnection"
  tc_tasks :: "nat list"
  tc_refused :: "int list"
  tc_errors :: "string list"

definition Client_new :: "client_settings \<Rightarrow> string \<Rightarrow> TimerQueue \<Rightarrow> Client" where
  "Client_new settings ip q = \<lparr>tc_connect = False, tc_connection = None, tc_next_id = 1, tc_settings = settings,
     tc_connector = (Connector_new ip q)\<lparr>new_connection_callback := True, error_callback := True\<rparr>,
     tc_conns = (\<lambda>_. TcpConnection_new 0), tc_tasks = [], tc_refused = [], tc_errors = []\<rparr>"

definition Client_NewConnection :: "int \<Rightarrow> Client \<Rightarrow> Client" where
  "Client_NewConnection fd s =
     (if \<not> tc_connect s then s\<lparr>tc_refused := tc_refused s @ [fd]\<rparr>
      else let i = tc_next_id s;
               st = tc_settings s;
               c = (TcpConnection_new fd)\<lparr>connection_callback := set_connection_callback st,
                     write_complete_callback := set_write_complete_callback st, close_callback := True,
                     high_watermark_callback := set_high_watermark_callback st, high_watermark := set_high_watermark st,
                     max_output_buffer_bytes := set_max_output_buffer_bytes st, max_input_buffer_bytes := set_max_input_buffer_bytes st\<rparr>
        in s\<lparr>tc_next_id := i + 1, tc_connection := Some i, tc_conns := (tc_conns s)(i := ConnectEstablished c)\<rparr>)"

definition HandleConnectError :: "string \<Rightarrow> Client \<Rightarrow> Client" where
  "HandleConnectError reason s =
     (if set_connect_error_callback (tc_settings s) then s\<lparr>tc_errors := tc_errors s @ [reason]\<rparr> else s)"

text \<open>The callbacks that the constructor installs in the connector.\<close>

definition client_event :: "cn_event \<Rightarrow> Client \<Rightarrow> Client" where
  "client_event e s =
     (case e of CnHandedOver fd \<Rightarrow> Client_NewConnection fd s | CnErrorReported reason \<Rightarrow> HandleConnectError reason s | _ \<Rightarrow> s)"

text \<open>An operation of the connector, followed by the callbacks it ran: handing a socket over is the last thing an operation does.\<close>

definition with_connector :: "(Connector \<Rightarrow> Connector) \<Rightarrow> Client \<Rightarrow> Client" where
  "with_connector f s =
     fold client_event (drop (length (cn_history (tc_connector s))) (cn_history (f (tc_connector s)))) (s\<lparr>tc_connector := f (tc_connector s)\<rparr>)"

definition calm_os :: "cn_os \<Rightarrow> cn_os" where
  "calm_os os = os\<lparr>error_callback_stops := False\<rparr>"

definition Client_Connect :: "bool \<Rightarrow> cn_os \<Rightarrow> Client \<Rightarrow> Client" where
  "Client_Connect in_loop os s = with_connector (Connector_Start in_loop (calm_os os)) (s\<lparr>tc_connect := True\<rparr>)"

definition Client_Stop :: "bool \<Rightarrow> cn_os \<Rightarrow> Client \<Rightarrow> Client" where
  "Client_Stop in_loop os s = with_connector (Connector_Stop in_loop (calm_os os)) (s\<lparr>tc_connect := False\<rparr>)"

definition Client_RemoveConnection :: "cn_os \<Rightarrow> nat \<Rightarrow> Client \<Rightarrow> Client" where
  "Client_RemoveConnection os i s =
     (let s1 = (if tc_connection s = Some i then s\<lparr>tc_connection := None\<rparr> else s);
          s2 = s1\<lparr>tc_conns := (tc_conns s1)(i := (tc_conns s1 i)\<lparr>close_callback := False\<rparr>)\<rparr>;
          s3 = (if tc_connect s2 then with_connector (Connector_Restart True (calm_os os)) s2 else s2)
      in s3\<lparr>tc_tasks := tc_tasks s3 @ [i]\<rparr>)"

text \<open>An operation of connection \<open>i\<close>, followed by the close callback if it ran.\<close>

definition with_connection :: "cn_os \<Rightarrow> nat \<Rightarrow> (TcpConnection \<Rightarrow> TcpConnection option) \<Rightarrow> Client \<Rightarrow> Client" where
  "with_connection os i operation s =
     (case operation (tc_conns s i) of
        None \<Rightarrow> s
      | Some c \<Rightarrow>
          fold (\<lambda>e s. if e = OutCloseCallback then Client_RemoveConnection os i s else s)
            (drop (length (outs (tc_conns s i))) (outs c)) (s\<lparr>tc_conns := (tc_conns s)(i := c)\<rparr>))"

definition Client_Disconnect :: "(bytes \<Rightarrow> int + nat) \<Rightarrow> cn_os \<Rightarrow> Client \<Rightarrow> Client" where
  "Client_Disconnect send os s =
     (let s1 = s\<lparr>tc_connect := False\<rparr>
      in case tc_connection s1 of
           None \<Rightarrow> s1
         | Some i \<Rightarrow> with_connection os i (\<lambda>c. map_option fst (Conn_Shutdown True send c)) s1)"

section \<open>Runs\<close>

datatype client_op =
    ClConnect bool cn_os
  | ClDisconnect "bytes \<Rightarrow> int + nat" cn_os
  | ClStop bool cn_os
  | ClConnection nat conn_op cn_os
  | ClConnectorTask nat cn_os
  | ClWritable cn_os
  | ClError cn_os
  | ClRetryTimer cn_os
  | ClDestroyedTask nat

definition client_apply :: "client_op \<Rightarrow> Client \<Rightarrow> Client" where
  "client_apply op s =
     (case op of
        ClConnect in_loop os \<Rightarrow> Client_Connect in_loop os s
      | ClDisconnect send os \<Rightarrow> Client_Disconnect send os s
      | ClStop in_loop os \<Rightarrow> Client_Stop in_loop os s
      | ClConnection i co os \<Rightarrow> (if 0 < i \<and> i < tc_next_id s then with_connection os i (conn_apply co) s else s)
      | ClConnectorTask n os \<Rightarrow> with_connector (cn_apply (CnTask n (calm_os os))) s
      | ClWritable os \<Rightarrow> with_connector (cn_apply (CnWritable (calm_os os))) s
      | ClError os \<Rightarrow> with_connector (cn_apply (CnError (calm_os os))) s
      | ClRetryTimer os \<Rightarrow> with_connector (OnRetryTimer (calm_os os)) s
      | ClDestroyedTask n \<Rightarrow>
          (if n < length (tc_tasks s)
           then (let i = tc_tasks s ! n
                 in s\<lparr>tc_tasks := take n (tc_tasks s) @ drop (Suc n) (tc_tasks s), tc_conns := (tc_conns s)(i := ConnectDestroyed (tc_conns s i))\<rparr>)
           else s))"

definition client_run :: "client_op list \<Rightarrow> Client \<Rightarrow> Client" where
  "client_run ops s = fold client_apply ops s"

section \<open>What the connector reports\<close>

definition handed_fds :: "cn_event list \<Rightarrow> int list" where
  "handed_fds h = concat (map (\<lambda>e. case e of CnHandedOver fd \<Rightarrow> [fd] | _ \<Rightarrow> []) h)"

lemma handed_simps [simp]:
  "handed_fds [] = []" "handed_fds (h @ h') = handed_fds h @ handed_fds h'" "handed_fds (CnHandedOver fd # h) = fd # handed_fds h"
  "handed_fds (CnClosed fd # h) = handed_fds h" "handed_fds (CnOpened fd # h) = handed_fds h" "handed_fds (CnErrorReported r # h) = handed_fds h"
  "handed_fds (CnRetryIn d # h) = handed_fds h"
  by (simp_all add: handed_fds_def)

text \<open>A connector that is connected stays so and hands nothing over; otherwise it hands over at most one socket, and is connected then.\<close>

definition hands_over_once :: "Connector \<Rightarrow> Connector \<Rightarrow> bool" where
  "hands_over_once c c' \<longleftrightarrow> (\<exists>es. cn_history c' = cn_history c @ es
     \<and> (CnTaskRestart \<in> set (cn_tasks c') \<longrightarrow> CnTaskRestart \<in> set (cn_tasks c))
     \<and> (if cn_state c = CnConnected then cn_state c' = CnConnected \<and> handed_fds es = []
        else handed_fds es = [] \<or> (\<exists>fd. handed_fds es = [fd] \<and> cn_state c' = CnConnected)))"

text \<open>Steps that hand nothing over and do not leave or enter the connected state.\<close>

definition silent :: "Connector \<Rightarrow> Connector \<Rightarrow> bool" where
  "silent c c' \<longleftrightarrow> (\<exists>es. cn_history c' = cn_history c @ es \<and> handed_fds es = [])
     \<and> (CnTaskRestart \<in> set (cn_tasks c') \<longrightarrow> CnTaskRestart \<in> set (cn_tasks c))
     \<and> (cn_state c' = CnConnected \<longleftrightarrow> cn_state c = CnConnected)"

lemma silent_refl [simp]: "silent c c"
  by (simp add: silent_def)

lemma silent_trans: "silent c c' \<Longrightarrow> silent c' c'' \<Longrightarrow> silent c c''"
  unfolding silent_def by (elim conjE exE) auto

lemma silent_once: "silent c c' \<Longrightarrow> hands_over_once c c'"
  by (auto simp: silent_def hands_over_once_def)

lemma silent_then_once: "silent c c' \<Longrightarrow> hands_over_once c' c'' \<Longrightarrow> hands_over_once c c''"
  unfolding silent_def hands_over_once_def by (elim conjE exE) auto

lemma silent_CancelReconnect: "CancelReconnect os c = (b, c') \<Longrightarrow> silent c c'"
  using CancelReconnect_frame [of os c b c'] by (simp add: silent_def)

lemma silent_Schedule: "silent c (ScheduleReconnect os c)"
  by (auto simp: ScheduleReconnect_def silent_def Let_def split: prod.splits sum.splits)

lemma silent_emit:
  "silent c (cn_emit (CnClosed fd) c)" "silent c (cn_emit (CnOpened fd) c)" "silent c (cn_emit (CnErrorReported r) c)"
  by (simp_all add: silent_def)

lemma silent_RemoveAndReset: "RemoveAndResetChannel c = (fd, c') \<Longrightarrow> silent c c' \<and> cn_state c' = cn_state c"
  by (auto simp: RemoveAndResetChannel_def silent_def cn_queue_def split: option.splits)

lemma silent_fields:
  "silent c (c\<lparr>cn_connect := x\<rparr>)" "silent c (c\<lparr>cn_socket_fd := y\<rparr>)" "cn_state c \<noteq> CnConnected \<Longrightarrow> silent c (c\<lparr>cn_state := CnDisconnected\<rparr>)"
  by (simp_all add: silent_def)

lemma silent_ReportError: "\<not> error_callback_stops os \<Longrightarrow> cn_state c \<noteq> CnConnected \<Longrightarrow> silent c (ReportError os r c)"
proof -
  assume os: "\<not> error_callback_stops os" and st: "cn_state c \<noteq> CnConnected"
  let ?c = "c\<lparr>cn_state := CnDisconnected\<rparr>"
  have a: "silent c ?c" by (rule silent_fields(3) [OF st])
  have b: "silent ?c (if error_callback ?c then cn_emit (CnErrorReported r) ?c else ?c)" by (simp add: silent_emit)
  show "silent c (ReportError os r c)"
    using silent_trans [OF silent_trans [OF a b] silent_Schedule, of os] os by (cases "error_callback c") (simp_all add: ReportError_def Let_def)
qed

lemma StopInLoop_silent: "silent c (StopInLoop_cn os c)"
proof -
  obtain b c1 where c1: "CancelReconnect os c = (b, c1)" by (cases "CancelReconnect os c")
  obtain fd c2 where c2: "RemoveAndResetChannel c1 = (fd, c2)" by (cases "RemoveAndResetChannel c1")
  note s = silent_CancelReconnect [OF c1] and r = silent_RemoveAndReset [OF c2]
  have "silent c2 (cn_emit (CnClosed fd) (c2\<lparr>cn_socket_fd := -1, cn_state := CnDisconnected\<rparr>))" if "cn_state c1 = CnConnecting"
    using that r by (simp add: silent_def)
  then have "cn_state c1 = CnConnecting \<Longrightarrow> silent c (cn_emit (CnClosed fd) (c2\<lparr>cn_socket_fd := -1, cn_state := CnDisconnected\<rparr>))"
    using s r silent_trans by blast
  with s show ?thesis by (cases b) (simp_all add: StopInLoop_cn_def c1 c2)
qed

lemma hand_over_once:
  "cn_state c = CnConnected \<Longrightarrow> \<exists>es. cn_history (hand_over fd c) = cn_history c @ es \<and> cn_tasks (hand_over fd c) = cn_tasks c
     \<and> (handed_fds es = [] \<or> handed_fds es = [fd] \<and> cn_state (hand_over fd c) = CnConnected)"
  by (simp add: hand_over_def)

lemma ConnectInLoop_once:
  assumes "\<not> error_callback_stops os" "cn_state c = CnDisconnected"
  shows "hands_over_once c (ConnectInLoop os c)"
proof (cases "create_socket os")
  case (Inl what)
  then show ?thesis using silent_once [OF silent_ReportError [OF assms(1)]] assms(2) by (simp add: ConnectInLoop_def)
next
  case (Inr fd)
  define c1 where "c1 = cn_emit (CnOpened fd) c"
  have c1: "silent c c1" "cn_state c1 = CnDisconnected" using assms(2) by (simp_all add: c1_def silent_emit)
  have e: "silent c1 (ReportError os r (cn_emit (CnClosed fd) c1))" for r
    using silent_trans [OF silent_emit(1) silent_ReportError [OF assms(1)]] c1(2) by simp
  have k: "silent c1 (Connecting fd c1)" using c1(2) by (simp add: silent_def Connecting_def)
  have d: "silent c1 (cn_emit (CnClosed fd) (c1\<lparr>next_backoff := 0, cn_state := CnDisconnected\<rparr>))" using c1(2) by (simp add: silent_def)
  have h: "hands_over_once c1 (hand_over fd (c1\<lparr>cn_state := CnConnected, next_backoff := 0\<rparr>))"
    using c1(2) hand_over_once [of "c1\<lparr>cn_state := CnConnected, next_backoff := 0\<rparr>" fd] by (auto simp: hands_over_once_def)
  have "hands_over_once c1 (ConnectInLoop os c)"
    using silent_once [OF e] silent_once [OF k] silent_once [OF d] h
    by (auto simp: ConnectInLoop_def Inr Let_def c1_def [symmetric])
  with silent_then_once [OF c1(1)] show ?thesis by blast
qed

lemma StartInLoop_once:
  assumes "\<not> error_callback_stops os"
  shows "hands_over_once c (StartInLoop_cn os c)"
proof -
  obtain b c1 where c1: "CancelReconnect os c = (b, c1)" by (cases "CancelReconnect os c")
  note s = silent_CancelReconnect [OF c1] and f = CancelReconnect_frame [OF c1]
  show ?thesis
    using silent_once [OF s] silent_then_once [OF s ConnectInLoop_once [OF assms]] silent_once [OF silent_refl [of c]] f
    by (auto simp: StartInLoop_cn_def c1 split: bool.split)
qed

lemma HandleWrite_once:
  assumes "\<not> error_callback_stops os"
  shows "hands_over_once c (HandleWrite_cn os c)"
proof (cases "cn_state c = CnConnecting")
  case False
  then show ?thesis using silent_once [OF silent_refl [of c]] by (simp add: HandleWrite_cn_def)
next
  case True
  obtain fd c0 where c0: "RemoveAndResetChannel c = (fd, c0)" by (cases "RemoveAndResetChannel c")
  note r = silent_RemoveAndReset [OF c0]
  let ?c1 = "c0\<lparr>cn_socket_fd := -1\<rparr>"
  have s1: "silent c ?c1" "cn_state ?c1 = CnConnecting" using silent_trans [OF _ silent_fields(2)] r True by simp_all
  have cl: "silent ?c1 (cn_emit (CnClosed fd) (?c1\<lparr>cn_state := CnDisconnected\<rparr>))" using s1(2) by (simp add: silent_def)
  have er: "silent ?c1 (ReportError os x (cn_emit (CnClosed fd) (?c1\<lparr>cn_state := CnDisconnected\<rparr>)))" for x
    by (rule silent_trans [OF cl silent_ReportError [OF assms]]) simp
  have h: "hands_over_once ?c1 (hand_over fd (?c1\<lparr>cn_state := CnConnected, next_backoff := 0\<rparr>))"
    using s1(2) hand_over_once [of "?c1\<lparr>cn_state := CnConnected, next_backoff := 0\<rparr>" fd] by (auto simp: hands_over_once_def)
  have "hands_over_once ?c1 (HandleWrite_cn os c)"
    using True silent_once [OF er] silent_once [OF cl] h by (simp add: HandleWrite_cn_def c0 Let_def)
  with silent_then_once [OF s1(1)] show ?thesis by blast
qed

lemma HandleError_once:
  assumes "\<not> error_callback_stops os"
  shows "hands_over_once c (HandleError_cn os c)"
proof (cases "cn_state c = CnConnecting")
  case False
  then show ?thesis using silent_once [OF silent_refl [of c]] by (simp add: HandleError_cn_def)
next
  case True
  obtain fd c0 where c0: "RemoveAndResetChannel c = (fd, c0)" by (cases "RemoveAndResetChannel c")
  note r = silent_RemoveAndReset [OF c0]
  let ?c1 = "cn_emit (CnClosed fd) (c0\<lparr>cn_socket_fd := -1, cn_state := CnDisconnected\<rparr>)"
  have "silent c0 ?c1" using r True by (simp add: silent_def)
  moreover have "silent ?c1 (ReportError os x ?c1)" for x by (rule silent_ReportError [OF assms]) simp
  ultimately have "silent c (ReportError os x ?c1)" for x using r silent_trans by blast
  with True show ?thesis by (simp add: HandleError_cn_def c0 Let_def silent_once)
qed

section \<open>What a connection reports\<close>

text \<open>An operation of a connection keeps its descriptor and runs the close callback exactly when it closes the connection.\<close>

definition reporting :: "TcpConnection \<Rightarrow> TcpConnection \<Rightarrow> bool" where
  "reporting c c' \<longleftrightarrow> chan_fd (conn_channel c') = chan_fd (conn_channel c) \<and> close_callback c' = close_callback c
     \<and> (conn_state c = kDisconnected \<longrightarrow> conn_state c' = kDisconnected)
     \<and> (\<exists>es. outs c' = outs c @ es \<and> filter (\<lambda>e. e = OutCloseCallback) es =
          (if close_callback c \<and> conn_state c \<noteq> kDisconnected \<and> conn_state c' = kDisconnected then [OutCloseCallback] else []))"

lemma reporting_refl [simp]: "reporting c c"
  by (simp add: reporting_def)

lemma reporting_trans: "reporting c c' \<Longrightarrow> reporting c' c'' \<Longrightarrow> reporting c c''"
  unfolding reporting_def by (elim conjE exE) (auto split: if_splits)

text \<open>Changes that neither close the connection nor run the close callback.\<close>

lemma reporting_quiet:
  assumes "chan_fd (conn_channel c') = chan_fd (conn_channel c)" "close_callback c' = close_callback c"
    and "conn_state c' = kDisconnected \<longleftrightarrow> conn_state c = kDisconnected" "outs c' = outs c @ es" "OutCloseCallback \<notin> set es"
  shows "reporting c c'"
  using assms by (auto simp: reporting_def filter_empty_conv)

lemma chan_fd_updates [simp]:
  "chan_fd (DisableAll ch) = chan_fd ch" "chan_fd (DisableWriting ch) = chan_fd ch" "chan_fd (EnableWriting ch) = chan_fd ch"
  "chan_fd (EnableReading ch) = chan_fd ch" "chan_fd (Channel_Tie ch) = chan_fd ch"
  by (simp_all add: DisableAll_def DisableWriting_def EnableWriting_def EnableReading_def Channel_Update_def Channel_Tie_def)

lemma reporting_HandleClose: "reporting c (HandleClose c)"
  by (auto simp: HandleClose_def reporting_def emit_def Let_def)

lemma reporting_ForceClose: "reporting c (ForceCloseInLoop c)"
proof -
  have "reporting c (c\<lparr>output_buffer := RetrieveAll (output_buffer c), conn_channel := DisableWriting (conn_channel c)\<rparr>)"
    by (rule reporting_quiet [where es = "[]"]) simp_all
  then show ?thesis unfolding ForceCloseInLoop_def using reporting_trans [OF _ reporting_HandleClose] by simp
qed

lemma reporting_WatchWritable: "reporting c (WatchWritable c)"
  unfolding WatchWritable_def by (simp add: reporting_def)

lemma reporting_OutputDrained: "reporting c (OutputDrained c)"
  by (auto simp: OutputDrained_def ShutdownDrained_def Let_def emit_def intro!: reporting_quiet)

lemma reporting_WriteOutput: "WriteOutputBufferInLoop send c = Some c' \<Longrightarrow> reporting c c'"
proof -
  assume w: "WriteOutputBufferInLoop send c = Some c'"
  have sent: "reporting c (emit [OutSend d] (c\<lparr>output_buffer := b\<rparr>))" for d b
    by (rule reporting_quiet [where es = "[OutSend d]"]) (simp_all add: emit_def)
  have dw: "reporting c (c\<lparr>conn_channel := DisableWriting (conn_channel c)\<rparr>)" by (simp add: reporting_def)
  show ?thesis
    using w dw reporting_ForceClose reporting_WatchWritable reporting_trans [OF sent reporting_OutputDrained]
      reporting_trans [OF sent reporting_WatchWritable]
    unfolding WriteOutputBufferInLoop_def HandleError_def
    by (auto simp: Let_def bind_eq_Some_conv split: if_splits sum.splits)
qed

lemma reporting_Flush: "FlushInLoop send c = Some c' \<Longrightarrow> reporting c c'"
  unfolding FlushInLoop_def by (auto split: if_splits intro: reporting_WriteOutput)

lemma reporting_ShutdownDrained: "reporting c (ShutdownDrained c)"
  by (auto simp: ShutdownDrained_def emit_def intro!: reporting_quiet)

lemma reporting_Shutdown: "Conn_Shutdown True send c = Some (c', ts) \<Longrightarrow> reporting c c'"
proof -
  assume s: "Conn_Shutdown True send c = Some (c', ts)"
  have "conn_state c = kConnected \<Longrightarrow> reporting c (c\<lparr>conn_state := kDisconnecting\<rparr>)" by (simp add: reporting_def)
  with s reporting_Flush reporting_ShutdownDrained reporting_trans show ?thesis
    unfolding Conn_Shutdown_def ShutdownInLoop_def by (auto simp: Let_def split: if_splits)
qed

lemma reporting_Write: "WriteInLoop data c = Some c' \<Longrightarrow> reporting c c'"
proof -
  have a: "reporting c (c\<lparr>overload_close_count := n\<rparr>)" for n by (simp add: reporting_def)
  have b: "reporting d (d\<lparr>output_buffer := b\<rparr>)" for b d by (simp add: reporting_def)
  have w: "reporting c (NotifyHighWatermark m n c)" for m n
    unfolding NotifyHighWatermark_def by (auto simp: emit_def intro!: reporting_quiet)
  assume "WriteInLoop data c = Some c'"
  then show ?thesis unfolding WriteInLoop_def Let_def
    using reporting_trans [OF a reporting_ForceClose] reporting_trans [OF w b] by (auto split: if_splits simp: bind_eq_Some_conv)
qed

lemma reporting_Read: "HandleRead readv None c = Some c' \<Longrightarrow> reporting c c'"
proof -
  assume h: "HandleRead readv None c = Some c'"
  have a: "reporting d (d\<lparr>overload_close_count := n\<rparr>)" for d n by (simp add: reporting_def)
  have b: "reporting c (c\<lparr>input_buffer := b\<rparr>)" for b by (simp add: reporting_def)
  obtain r b' where rb: "ReadFd readv (input_buffer c) = Some (r, b')" using h by (auto simp: HandleRead_def bind_eq_Some_conv)
  show ?thesis
    using h rb b reporting_trans [OF b reporting_ForceClose] reporting_trans [OF b reporting_HandleClose]
      reporting_trans [OF b reporting_trans [OF a reporting_ForceClose]]
    unfolding HandleRead_def HandleError_def by (cases r) (auto simp: Let_def split: if_splits)
qed

lemma reporting_callbacks: "run_chan_callbacks send readv None cbs c = Some c' \<Longrightarrow> reporting c c'"
proof (induction cbs arbitrary: c)
  case (Cons cb cbs)
  then obtain c1 where c1: "run_chan_callback send readv None cb c = Some c1" "run_chan_callbacks send readv None cbs c1 = Some c'"
    by (auto simp: bind_eq_Some_conv)
  have "reporting c c1"
    using c1(1) reporting_HandleClose reporting_ForceClose reporting_Read reporting_WriteOutput
    by (cases cb) (auto simp: run_chan_callback_def HandleError_def HandleWrite_def split: if_splits)
  with Cons.IH [OF c1(2)] reporting_trans show ?case by blast
qed simp

lemma reporting_apply: "conn_apply co c = Some c' \<Longrightarrow> reporting c c'"
  by (cases co) (auto simp: conn_apply_def Conn_Write_def Conn_Flush_def Conn_ForceClose_def run_conn_task_def reporting_ForceClose
    split: if_splits intro: reporting_Write reporting_Flush reporting_Shutdown reporting_callbacks)

section \<open>The client keeps its books\<close>

text \<open>At most one connection is up, it is the current one, and the connector is then connected.\<close>

definition up_connections :: "Client \<Rightarrow> nat set" where
  "up_connections s = {i. 0 < i \<and> i < tc_next_id s \<and> conn_state (tc_conns s i) \<noteq> kDisconnected}"

definition one_connection :: "Client \<Rightarrow> bool" where
  "one_connection s \<longleftrightarrow> up_connections s = set_option (tc_connection s)
     \<and> (tc_connection s = None \<or> cn_state (tc_connector s) = CnConnected)
     \<and> (\<forall>i \<in> up_connections s. close_callback (tc_conns s i))"

definition conn_fds :: "Client \<Rightarrow> int multiset" where
  "conn_fds s = mset (map (\<lambda>i. chan_fd (conn_channel (tc_conns s i))) [1..<tc_next_id s])"

text \<open>Every socket the connector handed over belongs to a connection or was closed; \<open>pend\<close> are those under way.\<close>

definition client_inv :: "int list \<Rightarrow> Client \<Rightarrow> bool" where
  "client_inv pend s \<longleftrightarrow> one_connection s \<and> 0 < tc_next_id s \<and> CnTaskRestart \<notin> set (cn_tasks (tc_connector s))
     \<and> mset (handed_fds (cn_history (tc_connector s))) = conn_fds s + mset (tc_refused s) + mset pend
     \<and> (\<forall>i \<in> set (tc_tasks s). 0 < i \<and> i < tc_next_id s \<and> conn_state (tc_conns s i) = kDisconnected)
     \<and> (pend = [] \<or> (\<exists>fd. pend = [fd]) \<and> tc_connection s = None \<and> cn_state (tc_connector s) = CnConnected)"

definition closed_tasks :: "Client \<Rightarrow> bool" where
  "closed_tasks s \<longleftrightarrow> (\<forall>i \<in> set (tc_tasks s). 0 < i \<and> i < tc_next_id s \<and> conn_state (tc_conns s i) = kDisconnected)"

lemma client_inv_iff:
  "client_inv pend s \<longleftrightarrow> one_connection s \<and> 0 < tc_next_id s \<and> CnTaskRestart \<notin> set (cn_tasks (tc_connector s))
     \<and> mset (handed_fds (cn_history (tc_connector s))) = conn_fds s + mset (tc_refused s) + mset pend \<and> closed_tasks s
     \<and> (pend = [] \<or> (\<exists>fd. pend = [fd]) \<and> tc_connection s = None \<and> cn_state (tc_connector s) = CnConnected)"
  by (simp only: client_inv_def closed_tasks_def)

text \<open>What the parts of the invariant depend on.\<close>

lemma client_frames [simp]:
  "conn_fds (s\<lparr>tc_refused := a\<rparr>) = conn_fds s" "conn_fds (s\<lparr>tc_errors := b\<rparr>) = conn_fds s" "conn_fds (s\<lparr>tc_connector := c\<rparr>) = conn_fds s"
  "conn_fds (s\<lparr>tc_tasks := d\<rparr>) = conn_fds s" "conn_fds (s\<lparr>tc_connection := e\<rparr>) = conn_fds s" "conn_fds (s\<lparr>tc_connect := f\<rparr>) = conn_fds s"
  "one_connection (s\<lparr>tc_refused := a\<rparr>) = one_connection s" "one_connection (s\<lparr>tc_errors := b\<rparr>) = one_connection s"
  "one_connection (s\<lparr>tc_tasks := d\<rparr>) = one_connection s" "one_connection (s\<lparr>tc_connect := f\<rparr>) = one_connection s"
  "closed_tasks (s\<lparr>tc_refused := a\<rparr>) = closed_tasks s" "closed_tasks (s\<lparr>tc_errors := b\<rparr>) = closed_tasks s"
  "closed_tasks (s\<lparr>tc_connector := c\<rparr>) = closed_tasks s" "closed_tasks (s\<lparr>tc_connection := e\<rparr>) = closed_tasks s"
  "closed_tasks (s\<lparr>tc_connect := f\<rparr>) = closed_tasks s"
  by (simp_all add: conn_fds_def up_connections_def one_connection_def closed_tasks_def)

lemma up_frames [simp]:
  "up_connections (s\<lparr>tc_connector := c\<rparr>) = up_connections s" "up_connections (s\<lparr>tc_connection := e\<rparr>) = up_connections s"
  "up_connections (s\<lparr>tc_conns := (tc_conns s)(i := d)\<rparr>) =
     (if 0 < i \<and> i < tc_next_id s \<and> conn_state d \<noteq> kDisconnected then insert i (up_connections s) else up_connections s - {i})"
  by (auto simp: up_connections_def)

lemma one_connection_connector:
  "one_connection s \<Longrightarrow> tc_connection s = None \<or> cn_state c = CnConnected \<Longrightarrow> one_connection (s\<lparr>tc_connector := c\<rparr>)"
  by (auto simp: one_connection_def)

lemma NewConnection_inv:
  assumes "client_inv [fd] s"
  shows "client_inv [] (Client_NewConnection fd s)"
proof (cases "tc_connect s")
  case False
  then have s: "Client_NewConnection fd s = s\<lparr>tc_refused := tc_refused s @ [fd]\<rparr>" by (simp add: Client_NewConnection_def)
  show ?thesis using assms unfolding s client_inv_iff by simp
next
  case True
  let ?i = "tc_next_id s"
  let ?s = "Client_NewConnection fd s"
  have i: "0 < ?i" and none: "tc_connection s = None" and o: "one_connection s" and ct: "closed_tasks s" using assms by (auto simp: client_inv_iff)
  have s: "tc_next_id ?s = ?i + 1" "tc_connection ?s = Some ?i" "tc_connector ?s = tc_connector s" "tc_tasks ?s = tc_tasks s" "tc_refused ?s = tc_refused s"
    using True by (simp_all add: Client_NewConnection_def Let_def)
  have c: "tc_conns ?s j = (if j = ?i then tc_conns ?s ?i else tc_conns s j)" "chan_fd (conn_channel (tc_conns ?s ?i)) = fd"
    "conn_state (tc_conns ?s ?i) = kConnected" "close_callback (tc_conns ?s ?i)" for j
    using True by (simp_all add: Client_NewConnection_def Let_def ConnectEstablished_def TcpConnection_new_def emit_def Channel_new_def)
  have old: "tc_conns ?s j = tc_conns s j" if "j < ?i" for j using c(1) [of j] that by simp
  have "map (\<lambda>j. chan_fd (conn_channel (tc_conns ?s j))) [1..<?i] = map (\<lambda>j. chan_fd (conn_channel (tc_conns s j))) [1..<?i]"
    by (rule map_cong) (use old in auto)
  then have fds: "conn_fds ?s = conn_fds s + {#fd#}"
    unfolding conn_fds_def s(1) using i c(2) by (simp only: upt_Suc_append One_nat_def Suc_leI add_Suc_right add_0_right map_append list.map mset_append mset.simps)
  have st: "cn_state (tc_connector s) = CnConnected" using assms by (simp add: client_inv_iff)
  have none_up: "up_connections s = {}" using o none by (simp add: one_connection_def)
  have "up_connections ?s = {?i}"
  proof (rule set_eqI)
    fix j
    have "j < ?i \<Longrightarrow> j \<in> up_connections ?s \<longleftrightarrow> j \<in> up_connections s" using old by (simp add: up_connections_def s)
    with none_up c(3) i show "j \<in> up_connections ?s \<longleftrightarrow> j \<in> {?i}"
      by (cases j ?i rule: linorder_cases) (simp_all add: up_connections_def s)
  qed
  then have "one_connection ?s" using c(4) st by (simp add: one_connection_def s)
  moreover have "closed_tasks ?s" using ct old unfolding closed_tasks_def s by auto
  ultimately show ?thesis using assms fds s by (simp add: client_inv_iff)
qed

lemma HandleConnectError_inv: "client_inv pend s \<Longrightarrow> client_inv pend (HandleConnectError r s)"
  by (simp add: HandleConnectError_def client_inv_iff)

lemma events_inv: "client_inv (handed_fds es) s \<Longrightarrow> client_inv [] (fold client_event es s)"
proof (induction es arbitrary: s)
  case (Cons e es)
  have step: "client_inv (handed_fds es) (client_event e s)"
  proof (cases e)
    case (CnHandedOver fd)
    then have p: "client_inv (fd # handed_fds es) s" using Cons.prems by simp
    then have n: "handed_fds es = []" by (simp add: client_inv_iff)
    show ?thesis using NewConnection_inv p unfolding CnHandedOver client_event_def n by simp
  qed (use Cons.prems HandleConnectError_inv in \<open>simp_all add: client_event_def\<close>)
  show ?case using Cons.IH [OF step] by simp
qed simp

lemma with_connector_inv:
  assumes "client_inv [] s" "hands_over_once (tc_connector s) (f (tc_connector s))"
  shows "client_inv [] (with_connector f s)"
proof -
  let ?c = "tc_connector s"
  obtain es where es: "cn_history (f ?c) = cn_history ?c @ es" and t: "CnTaskRestart \<in> set (cn_tasks (f ?c)) \<longrightarrow> CnTaskRestart \<in> set (cn_tasks ?c)"
    and h: "if cn_state ?c = CnConnected then cn_state (f ?c) = CnConnected \<and> handed_fds es = []
        else handed_fds es = [] \<or> (\<exists>fd. handed_fds es = [fd] \<and> cn_state (f ?c) = CnConnected)"
    using assms(2) unfolding hands_over_once_def by (elim exE conjE)
  let ?s = "s\<lparr>tc_connector := f ?c\<rparr>"
  have o: "one_connection s" using assms(1) by (simp add: client_inv_iff)
  have k: "one_connection ?s \<and> (handed_fds es = [] \<or> (\<exists>fd. handed_fds es = [fd]) \<and> tc_connection s = None \<and> cn_state (f ?c) = CnConnected)"
  proof (cases "cn_state ?c = CnConnected")
    case True
    then show ?thesis using one_connection_connector [OF o] h by simp
  next
    case False
    then have "tc_connection s = None" using o by (simp add: one_connection_def)
    then show ?thesis using one_connection_connector [OF o] h False by auto
  qed
  have "mset (handed_fds (cn_history (f ?c))) = conn_fds s + mset (tc_refused s) + mset (handed_fds es)"
    unfolding es using assms(1) by (simp add: client_inv_iff)
  moreover have "CnTaskRestart \<notin> set (cn_tasks (f ?c))" "0 < tc_next_id s" "closed_tasks s" using t assms(1) by (simp_all add: client_inv_iff)
  ultimately have "client_inv (handed_fds es) ?s" using k unfolding client_inv_iff by simp
  moreover have "with_connector f s = fold client_event es ?s" by (simp add: with_connector_def es)
  ultimately show ?thesis using events_inv by simp
qed

lemma restart_once:
  assumes "tc_connection s = None" "client_inv [] s"
  shows "client_inv [] (with_connector (Connector_Restart True (calm_os os)) s)"
proof -
  let ?c = "tc_connector s"
  have n: "\<not> error_callback_stops (calm_os os)" by (simp add: calm_os_def)
  show ?thesis
  proof (cases "cn_state ?c = CnConnected")
    case False
    then have "Connector_Restart True (calm_os os) ?c = ?c" by (simp add: Connector_Restart_def RestartInLoop_def)
    with with_connector_inv [OF assms(2)] silent_once [OF silent_refl [of ?c]] show ?thesis by simp
  next
    case True
    let ?d = "?c\<lparr>cn_state := CnDisconnected\<rparr>"
    have "one_connection (s\<lparr>tc_connector := ?d\<rparr>)" using assms one_connection_connector by (simp add: client_inv_iff)
    then have "client_inv [] (s\<lparr>tc_connector := ?d\<rparr>)" using assms unfolding client_inv_iff by simp
    from with_connector_inv [OF this, of "StartInLoop_cn (calm_os os)"] StartInLoop_once [OF n]
    show ?thesis using True by (simp add: with_connector_def Connector_Restart_def RestartInLoop_def)
  qed
qed

lemma fold_close_events: "fold (\<lambda>e s. if e = x then f s else s) es s = fold (\<lambda>e s. f s) (filter (\<lambda>e. e = x) es) s"
  by (induction es arbitrary: s) auto

lemma conn_fds_same:
  "chan_fd (conn_channel c) = chan_fd (conn_channel (tc_conns s i)) \<Longrightarrow> conn_fds (s\<lparr>tc_conns := (tc_conns s)(i := c)\<rparr>) = conn_fds s"
  unfolding conn_fds_def by (rule arg_cong [of _ _ mset]) simp

lemma with_connection_inv:
  assumes "client_inv [] s" "0 < i" "i < tc_next_id s" "\<And>c. operation (tc_conns s i) = Some c \<Longrightarrow> reporting (tc_conns s i) c"
  shows "client_inv [] (with_connection os i operation s)"
proof (cases "operation (tc_conns s i)")
  case None
  with assms(1) show ?thesis by (simp add: with_connection_def)
next
  case (Some c)
  let ?c = "tc_conns s i"
  let ?s = "s\<lparr>tc_conns := (tc_conns s)(i := c)\<rparr>"
  from assms(4) [OF Some] obtain es where r: "chan_fd (conn_channel c) = chan_fd (conn_channel ?c)" "close_callback c = close_callback ?c"
    "conn_state ?c = kDisconnected \<longrightarrow> conn_state c = kDisconnected" "outs c = outs ?c @ es"
    and f: "filter (\<lambda>e. e = OutCloseCallback) es =
      (if close_callback ?c \<and> conn_state ?c \<noteq> kDisconnected \<and> conn_state c = kDisconnected then [OutCloseCallback] else [])"
    unfolding reporting_def by (elim exE conjE)
  have fds: "conn_fds ?s = conn_fds s" by (rule conn_fds_same [OF r(1)])
  have o: "one_connection s" and ct: "closed_tasks s" using assms(1) by (simp_all add: client_inv_iff)
  have cts: "closed_tasks ?s" using ct r(3) by (auto simp: closed_tasks_def)
  have w: "with_connection os i operation s = fold (\<lambda>e s. Client_RemoveConnection os i s) (filter (\<lambda>e. e = OutCloseCallback) es) ?s"
    by (simp add: with_connection_def Some r(4) fold_close_events)
  show ?thesis
  proof (cases "conn_state ?c \<noteq> kDisconnected \<and> conn_state c = kDisconnected")
    case False
    have "i \<in> up_connections s \<longleftrightarrow> conn_state ?c \<noteq> kDisconnected" using assms(2,3) by (simp add: up_connections_def)
    then have "up_connections ?s = up_connections s" using False r(3) assms(2,3) by auto
    then have "one_connection ?s" using o r(2) by (auto simp: one_connection_def)
    with assms(1) fds cts False show ?thesis by (auto simp: w f client_inv_iff)
  next
    case True
    then have "i \<in> up_connections s" using assms(2,3) by (simp add: up_connections_def)
    then have cur: "tc_connection s = Some i" "close_callback ?c" "up_connections s = {i}" using o by (auto simp: one_connection_def)
    let ?d = "s\<lparr>tc_connection := None, tc_conns := (tc_conns s)(i := c\<lparr>close_callback := False\<rparr>)\<rparr>"
    have d: "conn_fds ?d = conn_fds s"
      using conn_fds_same [of "c\<lparr>close_callback := False\<rparr>" "s\<lparr>tc_connection := None\<rparr>" i] r(1) by simp
    have "up_connections ?d = up_connections s - {i}" using True by (auto simp: up_connections_def)
    then have od: "one_connection ?d" using cur(3) by (simp add: one_connection_def)
    have "closed_tasks ?d" using ct True by (auto simp: closed_tasks_def)
    then have inv: "client_inv [] ?d" using assms(1) d od by (simp add: client_inv_iff)
    define t where "t = (if tc_connect ?d then with_connector (Connector_Restart True (calm_os os)) ?d else ?d)"
    have it: "client_inv [] t" using inv restart_once [OF _ inv] by (simp add: t_def)
    have eq: "with_connection os i operation s = t\<lparr>tc_tasks := tc_tasks t @ [i]\<rparr>"
      using cur True unfolding w f t_def by (simp add: Client_RemoveConnection_def Let_def)
    have "i < tc_next_id t \<and> conn_state (tc_conns t i) = kDisconnected"
    proof -
      have "i < tc_next_id (fold client_event es' x) \<and> conn_state (tc_conns (fold client_event es' x) i) = kDisconnected"
        if "i < tc_next_id x \<and> conn_state (tc_conns x i) = kDisconnected" for es' x
        using that
      proof (induction es' arbitrary: x)
        case (Cons e es')
        then show ?case by (simp add: client_event_def Client_NewConnection_def HandleConnectError_def Let_def split: cn_event.split)
      qed simp
      then show ?thesis using True assms(3) by (simp add: t_def with_connector_def)
    qed
    with it assms(2) show ?thesis unfolding eq by (auto simp: client_inv_iff closed_tasks_def)
  qed
qed

section \<open>The interfaces of the connector and of a connection\<close>

text \<open>What the client relies on: an operation of the connector hands over at most one socket, and none while it is connected.\<close>

locale connector_operation =
  fixes f :: "Connector \<Rightarrow> Connector"
  assumes once: "CnTaskRestart \<notin> set (cn_tasks c) \<Longrightarrow> hands_over_once c (f c)"
begin

lemma client_keeps: "client_inv [] s \<Longrightarrow> client_inv [] (with_connector f s)"
  by (rule with_connector_inv) (simp_all add: once client_inv_iff)

end

text \<open>An operation of a connection runs the close callback exactly when it closes the connection.\<close>

locale connection_operation =
  fixes operation :: "TcpConnection \<Rightarrow> TcpConnection option"
  assumes reports: "operation c = Some c' \<Longrightarrow> reporting c c'"
begin

lemma client_keeps: "client_inv [] s \<Longrightarrow> 0 < i \<Longrightarrow> i < tc_next_id s \<Longrightarrow> client_inv [] (with_connection os i operation s)"
  by (rule with_connection_inv) (simp_all add: reports)

end

lemma connector_once:
  fixes os :: cn_os
  defines "o' \<equiv> calm_os os"
  shows "hands_over_once c (Connector_Start in_loop o' c)" "hands_over_once c (Connector_Stop in_loop o' c)"
    "hands_over_once c (cn_apply (CnWritable o') c)" "hands_over_once c (cn_apply (CnError o') c)" "hands_over_once c (OnRetryTimer o' c)"
    "CnTaskRestart \<notin> set (cn_tasks c) \<Longrightarrow> hands_over_once c (cn_apply (CnTask n o') c)"
proof -
  have n: "\<not> error_callback_stops o'" by (simp add: o'_def calm_os_def)
  have r: "hands_over_once c c" by (rule silent_once) simp
  have q: "silent c (cn_queue t (c\<lparr>cn_connect := x\<rparr>))" if "t \<noteq> CnTaskRestart" for t x using that by (simp add: silent_def cn_queue_def)
  show "hands_over_once c (Connector_Start in_loop o' c)"
    using silent_then_once [OF silent_fields(1) StartInLoop_once [OF n]] silent_once [OF q [of CnTaskStart]] by (simp add: Connector_Start_def Let_def)
  show "hands_over_once c (Connector_Stop in_loop o' c)"
    using silent_once [OF silent_trans [OF silent_fields(1) StopInLoop_silent]] silent_once [OF q [of CnTaskStop]] by (simp add: Connector_Stop_def Let_def)
  show "hands_over_once c (cn_apply (CnWritable o') c)" "hands_over_once c (cn_apply (CnError o') c)"
    using r HandleWrite_once [OF n] HandleError_once [OF n] by (simp_all add: cn_apply_def)
  have "silent c (c\<lparr>cn_timers := x\<rparr>)" for x by (simp add: silent_def)
  from silent_then_once [OF this StartInLoop_once [OF n]] show "hands_over_once c (OnRetryTimer o' c)"
    using r by (simp add: OnRetryTimer_def split: option.split)
  assume nr: "CnTaskRestart \<notin> set (cn_tasks c)"
  show "hands_over_once c (cn_apply (CnTask n o') c)"
  proof (cases "n < length (cn_tasks c)")
    case True
    let ?c = "c\<lparr>cn_tasks := take n (cn_tasks c) @ drop (Suc n) (cn_tasks c)\<rparr>"
    have s: "silent c ?c" using nr by (auto simp: silent_def dest: in_set_takeD in_set_dropD)
    have k: "cn_tasks c ! n \<noteq> CnTaskRestart" using nr True nth_mem by metis
    have "silent ?c (ResetChannel ?c)" by (simp add: silent_def ResetChannel_def split: option.split)
    then have "hands_over_once ?c (run_cn_task o' (cn_tasks c ! n) ?c)"
      using k StartInLoop_once [OF n] silent_once StopInLoop_silent by (cases "cn_tasks c ! n") (auto simp: run_cn_task_def)
    with silent_then_once [OF s] True show ?thesis by (simp add: cn_apply_def)
  qed (use r in \<open>simp add: cn_apply_def\<close>)
qed

interpretation cn_start: connector_operation "Connector_Start in_loop (calm_os os)" for in_loop os
  by unfold_locales (rule connector_once(1))

interpretation cn_stop: connector_operation "Connector_Stop in_loop (calm_os os)" for in_loop os
  by unfold_locales (rule connector_once(2))

interpretation cn_writable: connector_operation "cn_apply (CnWritable (calm_os os))" for os
  by unfold_locales (rule connector_once(3))

interpretation cn_error: connector_operation "cn_apply (CnError (calm_os os))" for os
  by unfold_locales (rule connector_once(4))

interpretation cn_retry: connector_operation "OnRetryTimer (calm_os os)" for os
  by unfold_locales (rule connector_once(5))

interpretation cn_task: connector_operation "cn_apply (CnTask n (calm_os os))" for n os
  by unfold_locales (rule connector_once(6))

interpretation conn_any: connection_operation "conn_apply co" for co
  by unfold_locales (rule reporting_apply)

interpretation conn_down: connection_operation "\<lambda>c. map_option fst (Conn_Shutdown True send c)" for send
  by unfold_locales (auto intro: reporting_Shutdown)

lemma destroyed_task_inv:
  assumes "client_inv [] s" "n < length (tc_tasks s)" "i = tc_tasks s ! n"
  shows "client_inv [] (s\<lparr>tc_tasks := take n (tc_tasks s) @ drop (Suc n) (tc_tasks s), tc_conns := (tc_conns s)(i := ConnectDestroyed (tc_conns s i))\<rparr>)"
    (is "client_inv [] ?s")
proof -
  have i: "0 < i" "i < tc_next_id s" "conn_state (tc_conns s i) = kDisconnected"
    using assms nth_mem [OF assms(2)] by (auto simp: client_inv_iff closed_tasks_def)
  have d: "conn_state (ConnectDestroyed (tc_conns s i)) = kDisconnected"
    "chan_fd (conn_channel (ConnectDestroyed (tc_conns s i))) = chan_fd (conn_channel (tc_conns s i))"
    "close_callback (ConnectDestroyed (tc_conns s i)) = close_callback (tc_conns s i)"
    using i(3) by (simp_all add: ConnectDestroyed_def emit_def)
  have "conn_fds ?s = conn_fds s"
    using conn_fds_same [of "ConnectDestroyed (tc_conns s i)" "s\<lparr>tc_tasks := take n (tc_tasks s) @ drop (Suc n) (tc_tasks s)\<rparr>" i] d(2) by simp
  moreover have "up_connections ?s = up_connections s" using i d(1) by (auto simp: up_connections_def)
  then have "one_connection ?s" using assms(1) i(3) d(3) by (auto simp: client_inv_iff one_connection_def)
  moreover have "closed_tasks ?s"
    using assms(1) d(1) unfolding client_inv_iff closed_tasks_def by (auto dest: in_set_takeD in_set_dropD)
  ultimately show ?thesis using assms(1) unfolding client_inv_iff by simp
qed

lemma client_apply_inv:
  assumes "client_inv [] s"
  shows "client_inv [] (client_apply op s)"
proof -
  have u: "client_inv [] (s\<lparr>tc_connect := x\<rparr>)" for x using assms by (simp add: client_inv_iff)
  have i: "0 < i \<and> i < tc_next_id s" if "tc_connection s = Some i" for i
  proof -
    have "i \<in> up_connections s" using assms that by (simp add: client_inv_iff one_connection_def)
    then show ?thesis by (simp add: up_connections_def)
  qed
  show ?thesis
  proof (cases op)
    case (ClDisconnect send os)
    then show ?thesis using u i conn_down.client_keeps [OF u, where i = "the (tc_connection s)" and send = send]
      by (cases "tc_connection s") (simp_all add: client_apply_def Client_Disconnect_def)
  next
    case (ClDestroyedTask n)
    then show ?thesis using assms destroyed_task_inv [OF assms] by (simp add: client_apply_def Let_def)
  qed (use assms u in \<open>simp_all add: client_apply_def Client_Connect_def Client_Stop_def cn_start.client_keeps cn_stop.client_keeps
      cn_writable.client_keeps cn_error.client_keeps cn_retry.client_keeps cn_task.client_keeps conn_any.client_keeps\<close>)
qed

lemma client_run_inv: "client_inv [] s \<Longrightarrow> client_inv [] (client_run ops s)"
  by (induction ops arbitrary: s) (simp_all add: client_run_def client_apply_inv)

lemma client_new_inv: "client_inv [] (Client_new settings ip q)"
proof -
  have "up_connections (Client_new settings ip q) = {}" by (auto simp: up_connections_def Client_new_def)
  then show ?thesis by (simp add: client_inv_iff one_connection_def closed_tasks_def conn_fds_def Client_new_def Connector_new_def)
qed

text \<open>C14: A client has at most one connection that is up, and it is the current one; every socket its connector ever handed over is owned by
  exactly one connection or was closed, whatever the order of user calls, connection events, retries and queued tasks; and a connection
  queued for destruction is closed.\<close>

theorem client_single_connection:
  assumes "s = client_run ops (Client_new settings ip q)"
  shows "up_connections s = set_option (tc_connection s)
    \<and> mset (handed_fds (cn_history (tc_connector s))) = conn_fds s + mset (tc_refused s)
    \<and> (\<forall>i \<in> set (tc_tasks s). i \<notin> up_connections s)
    \<and> (tc_connection s \<noteq> None \<longrightarrow> cn_state (tc_connector s) = CnConnected)"
proof -
  have inv: "client_inv [] s" unfolding assms by (rule client_run_inv [OF client_new_inv])
  then have "\<forall>i \<in> set (tc_tasks s). i \<notin> up_connections s" by (simp add: client_inv_iff closed_tasks_def up_connections_def)
  moreover have "tc_connection s \<noteq> None \<longrightarrow> cn_state (tc_connector s) = CnConnected" using inv by (auto simp: client_inv_iff one_connection_def)
  ultimately show ?thesis using inv by (simp add: client_inv_iff one_connection_def)
qed

definition demo_settings :: client_settings where
  "demo_settings = \<lparr>set_connection_callback = True, set_write_complete_callback = False, set_connect_error_callback = True,
     set_high_watermark_callback = False, set_high_watermark = 0, set_max_output_buffer_bytes = 0, set_max_input_buffer_bytes = 0\<rparr>"

definition demo_client_run :: "client_op list" where
  "demo_client_run = [ClConnect True (demo_cn_os 7 0), ClConnection 1 OpForceClose (demo_cn_os 8 0)]"

lemmas demo_client_simps = demo_client_run_def client_run_def client_apply_def Client_Connect_def with_connector_def Client_new_def demo_settings_def
  calm_os_def client_event_def Client_NewConnection_def with_connection_def conn_apply_def Conn_ForceClose_def ForceCloseInLoop_def HandleClose_def
  Client_RemoveConnection_def ConnectEstablished_def TcpConnection_new_def emit_def Connector_Restart_def RestartInLoop_def

text \<open>The connection is lost and the connector connects again.\<close>

theorem client_single_connection_witness:
  "\<exists>s. s = client_run demo_client_run (Client_new demo_settings ''127.0.0.1'' (TimerQueue_new 0)) \<and> tc_connection s = Some 2
     \<and> up_connections s = {2} \<and> mset (handed_fds (cn_history (tc_connector s))) = conn_fds s + mset (tc_refused s)"
proof -
  define s where "s = client_run demo_client_run (Client_new demo_settings ''127.0.0.1'' (TimerQueue_new 0))"
  have "tc_connection s = Some 2" by (simp add: s_def demo_client_simps demo_cn_simps Let_def)
  with client_single_connection [OF s_def] show ?thesis using s_def by auto
qed

text \<open>\<open>Disconnect\<close> followed by \<open>Connect\<close>: once the connection is down the client never tries again. The connector was not told that the
  connection is gone, so it is still connected and \<open>Start\<close> does nothing.\<close>

lemma connect_after_disconnect_is_lost:
  assumes "cn_state (tc_connector s) = CnConnected" "tc_connection s = None"
  shows "Client_Connect in_loop os s = s\<lparr>tc_connect := True, tc_connector := (tc_connector s)\<lparr>cn_connect := True\<rparr>\<rparr>
    \<or> Client_Connect in_loop os s = s\<lparr>tc_connect := True, tc_connector := cn_queue CnTaskStart ((tc_connector s)\<lparr>cn_connect := True\<rparr>)\<rparr>"
  using assms by (cases in_loop) (simp_all add: Client_Connect_def with_connector_def Connector_Start_def StartInLoop_cn_def cn_queue_def Let_def)

lemma disconnect_leaves_connector:
  "\<exists>ops. let s = client_run ops (Client_new demo_settings ip (TimerQueue_new 0)) in
     tc_connection s = None \<and> cn_state (tc_connector s) = CnConnected \<and> conn_state (tc_conns s 1) = kDisconnected \<and> tc_next_id s = 2"
  by (rule exI [of _ "[ClConnect True (demo_cn_os 7 0), ClDisconnect (\<lambda>_. Inr 0) (demo_cn_os 8 0), ClConnection 1 OpForceClose (demo_cn_os 8 0)]"])
    (simp add: demo_client_simps demo_cn_simps Client_Disconnect_def Conn_Shutdown_def ShutdownInLoop_def ShutdownDrained_def Buffer_new_def
      ReadableBytes_def Let_def)

end
