(* ===== verification/Net_Thread.thy ===== *)
theory Net_Thread
  imports Prelude
begin

text \<open>
  \<open>nebula/net/event_loop_thread.cpp\<close>: the thread that owns an event loop, and the owner of the thread. The two threads meet at a mutex with a
  condition variable, at the flag \<open>quit_\<close> of the loop and at \<open>join\<close>; each step of the relation is one access of what they share. Of the loop
  only what matters here is kept: \<open>Loop\<close> clears \<open>quit_\<close> when it is entered and tests it before every turn, and the timer of zero
  milliseconds that \<open>ThreadFunc\<close> sets fires in one of its turns. User code on the loop may quit it at any time.
\<close>

datatype thread_pc = ThNone | ThInit | ThBeforeLoop | ThLooping | ThAfterLoop | ThExited

text \<open>\<open>OwQuitting\<close>: the destructor holds the pointer it read; \<open>OwJoining\<close>: it is about to join.\<close>

datatype owner_pc = OwIdle | OwWaiting | OwReturned bool | OwRethrow | OwQuitting | OwJoining | OwGone

record EventLoopThread =
  et_started :: bool
  et_loop :: bool
  startup_finished :: bool
  startup_error :: bool
  loop_quit :: bool
  thread_pc :: thread_pc
  owner_pc :: owner_pc
  loop_freed_use :: bool

definition EventLoopThread_new :: EventLoopThread where
  "EventLoopThread_new = \<lparr>et_started = False, et_loop = False, startup_finished = False, startup_error = False, loop_quit = False,
     thread_pc = ThNone, owner_pc = OwIdle, loop_freed_use = False\<rparr>"

text \<open>\<open>StartLoop\<close> up to the wait; it throws when the thread was started before. \<open>spawned\<close>: whether \<open>std::thread\<close> could be created.\<close>

definition StartLoop :: "bool \<Rightarrow> EventLoopThread \<Rightarrow> EventLoopThread option" where
  "StartLoop spawned s =
     (if et_started s then None
      else if \<not> spawned then None
      else Some (s\<lparr>et_started := True, thread_pc := ThInit, owner_pc := OwWaiting\<rparr>))"

text \<open>The rest of \<open>StartLoop\<close>: it returns the pointer, or joins the thread and rethrows.\<close>

definition StartLoop_return :: "EventLoopThread \<Rightarrow> EventLoopThread option" where
  "StartLoop_return s =
     (if owner_pc s = OwWaiting \<and> startup_finished s
      then if startup_error s then (if thread_pc s = ThExited then Some (s\<lparr>owner_pc := OwRethrow\<rparr>) else None)
           else Some (s\<lparr>owner_pc := OwReturned (et_loop s)\<rparr>)
      else None)"

text \<open>The destructor: read the pointer, quit the loop, join.\<close>

definition destroy_read :: "EventLoopThread \<Rightarrow> EventLoopThread" where
  "destroy_read s = s\<lparr>owner_pc := (if et_loop s then OwQuitting else OwJoining)\<rparr>"

definition destroy_quit :: "EventLoopThread \<Rightarrow> EventLoopThread" where
  "destroy_quit s =
     (if thread_pc s = ThExited then s\<lparr>loop_freed_use := True, owner_pc := OwJoining\<rparr>
      else s\<lparr>loop_quit := True, owner_pc := OwJoining\<rparr>)"

definition destroy_join :: "EventLoopThread \<Rightarrow> EventLoopThread option" where
  "destroy_join s = (if thread_pc s = ThExited \<or> thread_pc s = ThNone then Some (s\<lparr>owner_pc := OwGone\<rparr>) else None)"

text \<open>\<open>ThreadFunc\<close>. \<open>throws\<close>: the constructor of the loop, the init callback or the timer throws. The loop is destroyed when the function returns.\<close>

definition thread_init :: "bool \<Rightarrow> EventLoopThread \<Rightarrow> EventLoopThread" where
  "thread_init throws s =
     (if throws then s\<lparr>startup_error := True, startup_finished := True, thread_pc := ThExited\<rparr> else s\<lparr>thread_pc := ThBeforeLoop\<rparr>)"

definition thread_enter :: "EventLoopThread \<Rightarrow> EventLoopThread" where
  "thread_enter s = s\<lparr>loop_quit := False, thread_pc := ThLooping\<rparr>"

definition thread_publish :: "EventLoopThread \<Rightarrow> EventLoopThread" where
  "thread_publish s = s\<lparr>et_loop := True, startup_finished := True\<rparr>"

definition thread_leave :: "EventLoopThread \<Rightarrow> EventLoopThread" where
  "thread_leave s = s\<lparr>et_loop := False, thread_pc := ThExited\<rparr>"

inductive thread_step :: "EventLoopThread \<Rightarrow> EventLoopThread \<Rightarrow> bool" where
  start: "owner_pc s = OwIdle \<Longrightarrow> StartLoop True s = Some s' \<Longrightarrow> thread_step s s'"
| return: "StartLoop_return s = Some s' \<Longrightarrow> thread_step s s'"
| read: "owner_pc s \<in> {OwIdle, OwReturned True, OwReturned False, OwRethrow} \<Longrightarrow> thread_step s (destroy_read s)"
| quit: "owner_pc s = OwQuitting \<Longrightarrow> thread_step s (destroy_quit s)"
| join: "owner_pc s = OwJoining \<Longrightarrow> destroy_join s = Some s' \<Longrightarrow> thread_step s s'"
| init: "thread_pc s = ThInit \<Longrightarrow> thread_step s (thread_init throws s)"
| enter: "thread_pc s = ThBeforeLoop \<Longrightarrow> thread_step s (thread_enter s)"
| publish: "thread_pc s = ThLooping \<Longrightarrow> \<not> startup_finished s \<Longrightarrow> thread_step s (thread_publish s)"
| user_quit: "thread_pc s = ThLooping \<Longrightarrow> startup_finished s \<Longrightarrow> thread_step s (s\<lparr>loop_quit := True\<rparr>)"
| leave_loop: "thread_pc s = ThLooping \<Longrightarrow> loop_quit s \<Longrightarrow> thread_step s (s\<lparr>thread_pc := ThAfterLoop\<rparr>)"
| leave: "thread_pc s = ThAfterLoop \<Longrightarrow> thread_step s (thread_leave s)"

inductive_cases thread_stepE: "thread_step s s'"

lemmas thread_defs = StartLoop_def StartLoop_return_def destroy_read_def destroy_quit_def destroy_join_def thread_init_def thread_enter_def
  thread_publish_def thread_leave_def

text \<open>
  The start-up handshake: the owner has the pointer only after the loop is running, so that \<open>quit_\<close> is not cleared after the destructor has set it;
  the destructor joins without quitting only a thread that has left its loop.
\<close>

definition handshake :: "EventLoopThread \<Rightarrow> bool" where
  "handshake s \<longleftrightarrow>
     (et_started s \<longleftrightarrow> thread_pc s \<noteq> ThNone) \<and> (owner_pc s = OwIdle \<longrightarrow> thread_pc s = ThNone)
     \<and> (et_loop s \<longrightarrow> thread_pc s \<in> {ThLooping, ThAfterLoop})
     \<and> (thread_pc s = ThLooping \<and> startup_finished s \<longrightarrow> et_loop s)
     \<and> (startup_finished s \<longrightarrow> thread_pc s \<in> {ThLooping, ThAfterLoop, ThExited})
     \<and> (startup_error s \<longrightarrow> thread_pc s = ThExited)
     \<and> (thread_pc s \<in> {ThAfterLoop, ThExited} \<longrightarrow> startup_finished s)
     \<and> (loop_quit s \<longrightarrow> startup_finished s)
     \<and> (owner_pc s \<in> {OwReturned True, OwReturned False, OwRethrow, OwQuitting} \<longrightarrow> startup_finished s)
     \<and> (owner_pc s = OwQuitting \<longrightarrow> thread_pc s \<noteq> ThNone)
     \<and> (owner_pc s = OwJoining \<longrightarrow> thread_pc s = ThNone \<or> startup_finished s \<and> (thread_pc s = ThLooping \<longrightarrow> loop_quit s))
     \<and> (owner_pc s = OwGone \<longrightarrow> thread_pc s \<in> {ThExited, ThNone})"

lemma handshake_step: "thread_step s s' \<Longrightarrow> handshake s \<Longrightarrow> handshake s'"
proof (induction rule: thread_step.induct)
  case (start s s')
  then show ?case by (cases "thread_pc s"; cases "owner_pc s") (auto simp: handshake_def StartLoop_def split: if_splits)
next
  case (return s s')
  then show ?case by (cases "thread_pc s"; cases "owner_pc s") (auto simp: handshake_def StartLoop_return_def split: if_splits)
next
  case (read s)
  then show ?case by (cases "thread_pc s"; cases "owner_pc s") (auto simp: handshake_def destroy_read_def split: if_splits)
next
  case (quit s)
  then show ?case by (cases "thread_pc s"; cases "owner_pc s") (auto simp: handshake_def destroy_quit_def split: if_splits)
next
  case (join s s')
  then show ?case by (cases "thread_pc s"; cases "owner_pc s") (auto simp: handshake_def destroy_join_def split: if_splits)
next
  case (init s throws)
  then show ?case by (cases "thread_pc s"; cases "owner_pc s") (auto simp: handshake_def thread_init_def split: if_splits)
next
  case (enter s)
  then show ?case by (cases "thread_pc s"; cases "owner_pc s") (auto simp: handshake_def thread_enter_def split: if_splits)
next
  case (publish s)
  then show ?case by (cases "thread_pc s"; cases "owner_pc s") (auto simp: handshake_def thread_publish_def split: if_splits)
next
  case (user_quit s)
  then show ?case by (cases "thread_pc s"; cases "owner_pc s") (auto simp: handshake_def  split: if_splits)
next
  case (leave_loop s)
  then show ?case by (cases "thread_pc s"; cases "owner_pc s") (auto simp: handshake_def  split: if_splits)
next
  case (leave s)
  then show ?case by (cases "thread_pc s"; cases "owner_pc s") (auto simp: handshake_def thread_leave_def split: if_splits)
qed

lemma handshake_reach: "thread_step\<^sup>*\<^sup>* EventLoopThread_new s \<Longrightarrow> handshake s"
proof (induction rule: rtranclp_induct)
  case base
  show ?case by (simp add: handshake_def EventLoopThread_new_def)
qed (use handshake_step in blast)

text \<open>The destructor does not hang: when it joins, the thread has ended or its loop has been told to quit, and then at most two more steps of the
  thread itself, both possible, let the join return.\<close>

theorem thread_join_returns:
  assumes "thread_step\<^sup>*\<^sup>* EventLoopThread_new s" "owner_pc s = OwJoining"
  shows "\<exists>n \<le> 2. \<exists>s'. (thread_step ^^ n) s s' \<and> owner_pc s' = OwJoining \<and> (\<exists>s''. destroy_join s' = Some s'')"
proof -
  have h: "handshake s" by (rule handshake_reach [OF assms(1)])
  have pc: "thread_pc s \<in> {ThNone, ThLooping, ThAfterLoop, ThExited}" "thread_pc s = ThLooping \<longrightarrow> loop_quit s"
    using h assms(2) by (auto simp: handshake_def)
  then consider "thread_pc s \<in> {ThNone, ThExited}" | "thread_pc s = ThAfterLoop" | "thread_pc s = ThLooping" "loop_quit s" by auto
  then show ?thesis
  proof cases
    case 1
    with assms(2) show ?thesis by (intro exI [of _ 0]) (auto simp: destroy_join_def)
  next
    case 2
    have "(thread_step ^^ 1) s (thread_leave s)" using leave [OF 2] by (simp add: eq_OO)
    moreover have "owner_pc (thread_leave s) = OwJoining" "\<exists>s''. destroy_join (thread_leave s) = Some s''"
      using assms(2) by (simp_all add: thread_leave_def destroy_join_def)
    ultimately show ?thesis by (meson one_le_numeral)
  next
    case 3
    let ?s = "s\<lparr>thread_pc := ThAfterLoop\<rparr>"
    have "thread_step s ?s" "thread_step ?s (thread_leave ?s)" using leave_loop [OF 3] leave [of ?s] by simp_all
    then have "(thread_step ^^ 2) s (thread_leave ?s)" by (auto simp: numeral_2_eq_2)
    moreover have "owner_pc (thread_leave ?s) = OwJoining" "\<exists>s''. destroy_join (thread_leave ?s) = Some s''"
      using assms(2) by (simp_all add: thread_leave_def destroy_join_def)
    ultimately show ?thesis by (meson order_refl)
  qed
qed

text \<open>The pointer is used without the lock: a loop that quits on its own while the destructor holds the pointer is destroyed before it is used.\<close>

lemma destructor_uses_freed_loop: "\<exists>s. thread_step\<^sup>*\<^sup>* EventLoopThread_new s \<and> loop_freed_use s"
proof -
  define s0 where "s0 = EventLoopThread_new"
  define s1 where "s1 = s0\<lparr>et_started := True, thread_pc := ThInit, owner_pc := OwWaiting\<rparr>"
  define s2 where "s2 = thread_publish (thread_enter (thread_init False s1))"
  define s3 where "s3 = destroy_read (s2\<lparr>owner_pc := OwReturned True\<rparr>)"
  define s4 where "s4 = thread_leave (s3\<lparr>loop_quit := True, thread_pc := ThAfterLoop\<rparr>)"
  have "thread_step s0 s1" by (rule start) (simp_all add: s0_def s1_def EventLoopThread_new_def StartLoop_def)
  moreover have "thread_step s1 (thread_init False s1)" by (rule init) (simp add: s1_def)
  moreover have "thread_step (thread_init False s1) (thread_enter (thread_init False s1))" by (rule enter) (simp add: thread_init_def)
  moreover have "thread_step (thread_enter (thread_init False s1)) s2"
    unfolding s2_def by (rule publish) (simp_all add: thread_defs s1_def s0_def EventLoopThread_new_def)
  moreover have "thread_step s2 (s2\<lparr>owner_pc := OwReturned True\<rparr>)"
    by (rule return) (simp add: s2_def thread_defs s1_def s0_def EventLoopThread_new_def)
  moreover have "thread_step (s2\<lparr>owner_pc := OwReturned True\<rparr>) s3" unfolding s3_def by (rule read) simp
  moreover have "thread_step s3 (s3\<lparr>loop_quit := True\<rparr>)" by (rule user_quit) (simp_all add: s3_def s2_def thread_defs)
  moreover have "thread_step (s3\<lparr>loop_quit := True\<rparr>) (s3\<lparr>loop_quit := True, thread_pc := ThAfterLoop\<rparr>)"
    using leave_loop [of "s3\<lparr>loop_quit := True\<rparr>"] by (simp add: s3_def s2_def thread_defs)
  moreover have "thread_step (s3\<lparr>loop_quit := True, thread_pc := ThAfterLoop\<rparr>) s4" unfolding s4_def by (rule leave) simp
  moreover have "thread_step s4 (destroy_quit s4)" by (rule quit) (simp add: s4_def s3_def s2_def thread_defs)
  ultimately have "thread_step\<^sup>*\<^sup>* s0 (destroy_quit s4)" by (meson converse_rtranclp_into_rtranclp rtranclp.rtrancl_refl)
  moreover have "loop_freed_use (destroy_quit s4)" by (simp add: s4_def thread_leave_def destroy_quit_def)
  ultimately show ?thesis unfolding s0_def by blast
qed

end
