(* ===== verification/Net_Loop.thy ===== *)
theory Net_Loop
  imports Prelude "HOL-Library.Sublist" "HOL-Library.Multiset"
begin

text \<open>
  \<open>nebula/net/event_loop.cpp\<close>: the loop of one thread, its two queues of functors and the eventfd that wakes it, against
  any number of other threads. The loop thread advances from one atomic access of shared state to the next, the program counter
  says where it is. \<open>QueueInLoop\<close>, \<open>Quit\<close> and \<open>NotifyFromSignal\<close> on another thread are two steps, the change of the
  state and the write to the eventfd; \<open>writers\<close> counts the threads between the two. What user code does on the loop thread is chosen freely.
\<close>

section \<open>State\<close>

text \<open>An empty \<open>std::function\<close> is \<^const>\<open>None\<close>.\<close>

type_synonym loop_functor = "nat option"

datatype ready = WakeUpReady | ChannelReady nat

datatype loop_pc =
    PcOutside
  | PcCheck
  | PcPoll
  | PcHandle "ready list"
  | PcSignal
  | PcSwapLocal
  | PcSwapRemote
  | PcRunLocal nat
  | PcRunRemote nat
  | PcFinish

text \<open>The last eight fields record what happened: all functors ever queued, those the loop has come to, those it called from a queue
  and those that \<open>RunInLoop\<close> called at once, the turns completed, and whether \<open>Loop\<close> has not yet returned from its first \<open>Poll\<close>.\<close>

record EventLoop =
  looping :: bool
  el_quit :: bool
  calling_pending_functors :: bool
  signal_pending :: bool
  signal_callback :: bool
  wakeup_count :: nat
  local_pending :: "loop_functor list"
  local_executing :: "loop_functor list"
  remote_pending :: "loop_functor list"
  remote_executing :: "loop_functor list"
  el_context :: "nat option"
  el_pc :: loop_pc
  writers :: nat
  posted_local :: "loop_functor list"
  posted_remote :: "loop_functor list"
  taken_local :: "loop_functor list"
  taken_remote :: "loop_functor list"
  called :: "nat list"
  called_at_once :: "nat list"
  turns :: nat
  first_round :: bool

definition EventLoop_new :: "bool \<Rightarrow> EventLoop" where
  "EventLoop_new cb = \<lparr>looping = False, el_quit = False, calling_pending_functors = False, signal_pending = False,
     signal_callback = cb, wakeup_count = 0, local_pending = [], local_executing = [], remote_pending = [],
     remote_executing = [], el_context = None, el_pc = PcOutside, writers = 0, posted_local = [], posted_remote = [],
     taken_local = [], taken_remote = [], called = [], called_at_once = [], turns = 0, first_round = False\<rparr>"

datatype loop_exn = AlreadyLooping | BadFunctionCall | EmptyContext | ContextAlreadySet

section \<open>Operations\<close>

text \<open>The counter of an eventfd stops at \<open>2 ^ 64 - 2\<close>; a write that would pass it fails with \<open>EAGAIN\<close> and is ignored.\<close>

definition kEventFdMax :: nat where "kEventFdMax = 2 ^ 64 - 2"

definition WakeUp :: "EventLoop \<Rightarrow> EventLoop" where
  "WakeUp s = (if wakeup_count s < kEventFdMax then s\<lparr>wakeup_count := wakeup_count s + 1\<rparr> else s)"

definition HandleWakeUpRead :: "EventLoop \<Rightarrow> EventLoop" where
  "HandleWakeUpRead s = s\<lparr>wakeup_count := 0\<rparr>"

definition QueueInLoop_el :: "bool \<Rightarrow> loop_functor \<Rightarrow> EventLoop \<Rightarrow> EventLoop" where
  "QueueInLoop_el in_loop cb s =
     (if in_loop
      then let s1 = s\<lparr>local_pending := local_pending s @ [cb], posted_local := posted_local s @ [cb]\<rparr>
        in if calling_pending_functors s1 then WakeUp s1 else s1
      else s\<lparr>remote_pending := remote_pending s @ [cb], posted_remote := posted_remote s @ [cb], writers := writers s + 1\<rparr>)"

definition RunInLoop_el :: "bool \<Rightarrow> loop_functor \<Rightarrow> EventLoop \<Rightarrow> loop_exn + EventLoop" where
  "RunInLoop_el in_loop cb s =
     (if in_loop then (case cb of None \<Rightarrow> Inl BadFunctionCall | Some f \<Rightarrow> Inr (s\<lparr>called_at_once := called_at_once s @ [f]\<rparr>))
      else Inr (QueueInLoop_el False cb s))"

definition Quit :: "bool \<Rightarrow> EventLoop \<Rightarrow> EventLoop" where
  "Quit in_loop s = (let s1 = s\<lparr>el_quit := True\<rparr> in if in_loop then s1 else s1\<lparr>writers := writers s1 + 1\<rparr>)"

definition NotifyFromSignal :: "EventLoop \<Rightarrow> EventLoop" where
  "NotifyFromSignal s = s\<lparr>signal_pending := True, writers := writers s + 1\<rparr>"

text \<open>The second half of the operations of other threads.\<close>

definition finish_write :: "EventLoop \<Rightarrow> EventLoop" where
  "finish_write s = (WakeUp s)\<lparr>writers := writers s - 1\<rparr>"

definition SetContextImpl :: "nat option \<Rightarrow> EventLoop \<Rightarrow> loop_exn + EventLoop" where
  "SetContextImpl c s =
     (if c = None then Inl EmptyContext
      else if el_context s \<noteq> None then Inl ContextAlreadySet
      else Inr (s\<lparr>el_context := c\<rparr>))"

definition Loop_enter :: "EventLoop \<Rightarrow> loop_exn + EventLoop" where
  "Loop_enter s =
     (if looping s then Inl AlreadyLooping
      else Inr (s\<lparr>looping := True, el_quit := False, el_pc := PcCheck, first_round := True\<rparr>))"

section \<open>The loop\<close>

text \<open>What user code does while the loop runs one of its callbacks; an operation that throws is not one of these.\<close>

datatype loop_act = ActQueue loop_functor | ActRun nat | ActQuit | ActSetContext nat

definition loop_act :: "loop_act \<Rightarrow> EventLoop \<Rightarrow> EventLoop" where
  "loop_act a s =
     (case a of
        ActQueue cb \<Rightarrow> QueueInLoop_el True cb s
      | ActRun f \<Rightarrow> (case RunInLoop_el True (Some f) s of Inl _ \<Rightarrow> s | Inr s' \<Rightarrow> s')
      | ActQuit \<Rightarrow> Quit True s
      | ActSetContext c \<Rightarrow> (case SetContextImpl (Some c) s of Inl _ \<Rightarrow> s | Inr s' \<Rightarrow> s'))"

definition call_functor :: "loop_functor \<Rightarrow> loop_act list \<Rightarrow> EventLoop \<Rightarrow> EventLoop" where
  "call_functor cb acts s = (case cb of None \<Rightarrow> s | Some f \<Rightarrow> fold loop_act acts (s\<lparr>called := called s @ [f]\<rparr>))"

text \<open>One turn is split at the accesses of shared state. \<open>None\<close>: the loop thread is not in the loop, or the result of \<open>Poll\<close> is impossible.\<close>

definition begin_pending :: "EventLoop \<Rightarrow> EventLoop" where
  "begin_pending s = s\<lparr>calling_pending_functors := True, local_executing := local_pending s, local_pending := local_executing s, el_pc := PcSwapRemote\<rparr>"

definition swap_remote :: "EventLoop \<Rightarrow> EventLoop" where
  "swap_remote s = s\<lparr>remote_executing := remote_pending s, remote_pending := remote_executing s, el_pc := PcRunLocal 0\<rparr>"

definition run_local :: "nat \<Rightarrow> loop_act list \<Rightarrow> EventLoop \<Rightarrow> EventLoop" where
  "run_local i acts s =
     (if i < length (local_executing s)
      then let cb = local_executing s ! i
        in call_functor cb acts (s\<lparr>taken_local := taken_local s @ [cb], el_pc := PcRunLocal (Suc i)\<rparr>)
      else s\<lparr>el_pc := PcRunRemote 0\<rparr>)"

definition run_remote :: "nat \<Rightarrow> loop_act list \<Rightarrow> EventLoop \<Rightarrow> EventLoop" where
  "run_remote i acts s =
     (if i < length (remote_executing s)
      then let cb = remote_executing s ! i
        in call_functor cb acts (s\<lparr>taken_remote := taken_remote s @ [cb], el_pc := PcRunRemote (Suc i)\<rparr>)
      else s\<lparr>el_pc := PcFinish\<rparr>)"

definition end_pending :: "EventLoop \<Rightarrow> EventLoop" where
  "end_pending s = s\<lparr>calling_pending_functors := False, local_executing := [], remote_executing := [], turns := turns s + 1, el_pc := PcCheck\<rparr>"

definition Loop_next :: "ready list \<Rightarrow> loop_act list \<Rightarrow> EventLoop \<Rightarrow> EventLoop option" where
  "Loop_next active acts s =
     (case el_pc s of
        PcOutside \<Rightarrow> None
      | PcCheck \<Rightarrow> Some (if el_quit s then s\<lparr>looping := False, el_pc := PcOutside\<rparr> else s\<lparr>el_pc := PcPoll\<rparr>)
      | PcPoll \<Rightarrow> (if WakeUpReady \<in> set active \<and> wakeup_count s = 0 then None
                   else Some (s\<lparr>el_pc := PcHandle active, first_round := False\<rparr>))
      | PcHandle [] \<Rightarrow> Some (s\<lparr>el_pc := PcSignal\<rparr>)
      | PcHandle (WakeUpReady # chs) \<Rightarrow> Some ((HandleWakeUpRead s)\<lparr>el_pc := PcHandle chs\<rparr>)
      | PcHandle (ChannelReady ch # chs) \<Rightarrow> Some (fold loop_act acts (s\<lparr>el_pc := PcHandle chs\<rparr>))
      | PcSignal \<Rightarrow>
          (let s1 = s\<lparr>signal_pending := False, el_pc := PcSwapLocal\<rparr>
           in Some (if signal_pending s \<and> signal_callback s then fold loop_act acts s1 else s1))
      | PcSwapLocal \<Rightarrow> Some (begin_pending s)
      | PcSwapRemote \<Rightarrow> Some (swap_remote s)
      | PcRunLocal i \<Rightarrow> Some (run_local i acts s)
      | PcRunRemote i \<Rightarrow> Some (run_remote i acts s)
      | PcFinish \<Rightarrow> Some (end_pending s))"

text \<open>All threads: the loop thread inside and outside \<open>Loop\<close>, and the others.\<close>

inductive loop_step :: "EventLoop \<Rightarrow> EventLoop \<Rightarrow> bool" where
  next_step: "Loop_next active acts s = Some s' \<Longrightarrow> loop_step s s'"
| enter_step: "el_pc s = PcOutside \<Longrightarrow> Loop_enter s = Inr s' \<Longrightarrow> loop_step s s'"
| owner_step: "el_pc s = PcOutside \<Longrightarrow> loop_step s (loop_act a s)"
| queue_step: "RunInLoop_el False cb s = Inr s' \<Longrightarrow> loop_step s s'"
| quit_step: "loop_step s (Quit False s)"
| signal_step: "loop_step s (NotifyFromSignal s)"
| write_step: "0 < writers s \<Longrightarrow> loop_step s (finish_write s)"

inductive_cases loop_stepE: "loop_step s s'"

section \<open>User code on the loop thread\<close>

text \<open>What a callback can change: it appends functors, and when the loop is in the middle of a batch each one comes with a wake-up.\<close>

definition act_frame :: "EventLoop \<Rightarrow> EventLoop \<Rightarrow> bool" where
  "act_frame s s' \<longleftrightarrow> el_pc s' = el_pc s \<and> looping s' = looping s \<and> calling_pending_functors s' = calling_pending_functors s
     \<and> signal_pending s' = signal_pending s \<and> writers s' = writers s \<and> turns s' = turns s \<and> first_round s' = first_round s
     \<and> local_executing s' = local_executing s \<and> remote_executing s' = remote_executing s \<and> remote_pending s' = remote_pending s
     \<and> posted_remote s' = posted_remote s \<and> taken_local s' = taken_local s \<and> taken_remote s' = taken_remote s
     \<and> called s' = called s \<and> wakeup_count s \<le> wakeup_count s'
     \<and> (\<exists>xs. local_pending s' = local_pending s @ xs \<and> posted_local s' = posted_local s @ xs
          \<and> (xs \<noteq> [] \<and> calling_pending_functors s \<longrightarrow> 0 < wakeup_count s'))"

lemma WakeUp_count: "0 < wakeup_count (WakeUp s)" "wakeup_count s \<le> wakeup_count (WakeUp s)"
  by (auto simp: WakeUp_def kEventFdMax_def)

lemma WakeUp_simps [simp]:
  "el_pc (WakeUp s) = el_pc s" "looping (WakeUp s) = looping s" "el_quit (WakeUp s) = el_quit s"
  "calling_pending_functors (WakeUp s) = calling_pending_functors s" "signal_pending (WakeUp s) = signal_pending s"
  "writers (WakeUp s) = writers s" "turns (WakeUp s) = turns s" "first_round (WakeUp s) = first_round s"
  "local_executing (WakeUp s) = local_executing s" "remote_executing (WakeUp s) = remote_executing s"
  "local_pending (WakeUp s) = local_pending s" "remote_pending (WakeUp s) = remote_pending s"
  "posted_local (WakeUp s) = posted_local s" "posted_remote (WakeUp s) = posted_remote s"
  "taken_local (WakeUp s) = taken_local s" "taken_remote (WakeUp s) = taken_remote s" "called (WakeUp s) = called s"
  by (simp_all add: WakeUp_def)

lemma act_frame_act: "act_frame s (loop_act a s)"
  using WakeUp_count [of "s\<lparr>local_pending := local_pending s @ [cb], posted_local := posted_local s @ [cb]\<rparr>" for cb]
  by (cases a) (simp_all add: act_frame_def loop_act_def QueueInLoop_el_def RunInLoop_el_def Quit_def SetContextImpl_def Let_def)

lemma act_frame_trans: "act_frame s t \<Longrightarrow> act_frame t u \<Longrightarrow> act_frame s u"
  unfolding act_frame_def by (elim conjE exE) (simp; fastforce)

lemma act_frame_fold: "act_frame s (fold loop_act acts s)"
proof (induction acts arbitrary: s)
  case Nil
  show ?case by (simp add: act_frame_def)
next
  case (Cons a acts)
  from act_frame_trans [OF act_frame_act [of s a] Cons [of "loop_act a s"]] show ?case by simp
qed

definition somes :: "loop_functor list \<Rightarrow> nat list" where
  "somes xs = concat (map (\<lambda>x. case x of None \<Rightarrow> [] | Some f \<Rightarrow> [f]) xs)"

lemma somes_append [simp]: "somes (xs @ ys) = somes xs @ somes ys"
  by (simp add: somes_def)

lemma call_frame: "act_frame (s\<lparr>called := called s @ somes [cb]\<rparr>) (call_functor cb acts s)"
proof (cases cb)
  case None
  then show ?thesis by (simp add: call_functor_def act_frame_def somes_def)
next
  case (Some f)
  with act_frame_fold [of "s\<lparr>called := called s @ [f]\<rparr>" acts] show ?thesis by (simp add: call_functor_def somes_def)
qed

section \<open>Wake-ups\<close>

text \<open>Somebody has written, or is about to write, to the eventfd.\<close>

definition awake :: "EventLoop \<Rightarrow> bool" where
  "awake s \<longleftrightarrow> 0 < wakeup_count s \<or> 0 < writers s"

fun remote_collected :: "loop_pc \<Rightarrow> bool" where
  "remote_collected (PcHandle _) = False"
| "remote_collected PcSignal = False"
| "remote_collected PcSwapLocal = False"
| "remote_collected PcSwapRemote = False"
| "remote_collected _ = True"

fun signal_collected :: "loop_pc \<Rightarrow> bool" where
  "signal_collected (PcHandle _) = False"
| "signal_collected PcSignal = False"
| "signal_collected _ = True"

fun in_batch :: "loop_pc \<Rightarrow> bool" where
  "in_batch PcSwapRemote = True"
| "in_batch (PcRunLocal _) = True"
| "in_batch (PcRunRemote _) = True"
| "in_batch PcFinish = True"
| "in_batch _ = False"

definition flags_ok :: "EventLoop \<Rightarrow> bool" where
  "flags_ok s \<longleftrightarrow> (calling_pending_functors s \<longleftrightarrow> in_batch (el_pc s)) \<and> (looping s \<longleftrightarrow> el_pc s \<noteq> PcOutside)
     \<and> (\<not> in_batch (el_pc s) \<longrightarrow> local_executing s = [] \<and> remote_executing s = [])
     \<and> (el_pc s = PcSwapRemote \<longrightarrow> remote_executing s = [])"

definition work_waits :: "EventLoop \<Rightarrow> bool" where
  "work_waits s \<longleftrightarrow> remote_collected (el_pc s) \<and> remote_pending s \<noteq> [] \<or> signal_collected (el_pc s) \<and> signal_pending s
     \<or> el_pc s = PcPoll \<and> el_quit s"

definition local_waits :: "EventLoop \<Rightarrow> bool" where
  "local_waits s \<longleftrightarrow> (in_batch (el_pc s) \<or> el_pc s \<in> {PcCheck, PcPoll}) \<and> local_pending s \<noteq> []"

definition wake_inv :: "EventLoop \<Rightarrow> bool" where
  "wake_inv s \<longleftrightarrow> flags_ok s \<and> (work_waits s \<longrightarrow> awake s) \<and> (local_waits s \<longrightarrow> 0 < wakeup_count s \<or> first_round s)"

text \<open>A callback keeps the invariant where the loop runs callbacks.\<close>

lemma wake_inv_frame:
  assumes inv: "wake_inv s" and f: "act_frame s s'" and pc: "el_pc s \<notin> {PcCheck, PcPoll}"
  shows "wake_inv s'"
proof -
  from f have eq: "el_pc s' = el_pc s" "calling_pending_functors s' = calling_pending_functors s" "first_round s' = first_round s"
      "wakeup_count s \<le> wakeup_count s'" and rest: "flags_ok s' = flags_ok s" "awake s \<longrightarrow> awake s'"
    by (simp_all add: act_frame_def flags_ok_def awake_def)
  from f pc have "work_waits s' = work_waits s" by (simp add: act_frame_def work_waits_def)
  moreover have "0 < wakeup_count s' \<or> first_round s'" if "local_waits s'"
  proof -
    from f obtain xs where xs: "local_pending s' = local_pending s @ xs" "xs \<noteq> [] \<and> calling_pending_functors s \<longrightarrow> 0 < wakeup_count s'"
      by (auto simp: act_frame_def)
    have "calling_pending_functors s" using that eq inv pc by (auto simp: local_waits_def wake_inv_def flags_ok_def)
    with xs(2) have "xs = [] \<or> 0 < wakeup_count s'" by auto
    moreover have "local_waits s" if "xs = []" using that \<open>local_waits s'\<close> xs eq by (simp add: local_waits_def)
    ultimately show ?thesis using inv eq unfolding wake_inv_def by fastforce
  qed
  ultimately show ?thesis using inv rest by (auto simp: wake_inv_def)
qed

lemmas wake_defs = wake_inv_def flags_ok_def work_waits_def local_waits_def awake_def

lemma wake_inv_next:
  assumes inv: "wake_inv s" and n: "Loop_next active acts s = Some s'"
  shows "wake_inv s'"
proof -
  have run: "wake_inv (call_functor cb acts t)" if "wake_inv t" "in_batch (el_pc t)" for cb t
  proof (rule wake_inv_frame [OF _ call_frame])
    show "wake_inv (t\<lparr>called := called t @ somes [cb]\<rparr>)" using that(1) by (simp add: wake_defs)
  qed (use that(2) in auto)
  have user: "wake_inv (fold loop_act acts t)" if "wake_inv t" "\<not> remote_collected (el_pc t)" for t
    by (rule wake_inv_frame [OF that(1) act_frame_fold]) (use that(2) in auto)
  show ?thesis
  proof (cases "el_pc s")
    case (PcHandle chs)
    show ?thesis
    proof (cases chs)
      case Nil
      with PcHandle n inv show ?thesis by (auto simp: Loop_next_def wake_defs)
    next
      case (Cons r rs)
      have "wake_inv (s\<lparr>el_pc := PcHandle rs\<rparr>)" "wake_inv ((HandleWakeUpRead s)\<lparr>el_pc := PcHandle rs\<rparr>)"
        using inv PcHandle by (simp_all add: wake_defs HandleWakeUpRead_def)
      with Cons PcHandle n user [of "s\<lparr>el_pc := PcHandle rs\<rparr>"] show ?thesis by (cases r) (auto simp: Loop_next_def)
    qed
  next
    case PcSignal
    have "wake_inv (s\<lparr>signal_pending := False, el_pc := PcSwapLocal\<rparr>)" using inv PcSignal by (simp add: wake_defs)
    with PcSignal n user [of "s\<lparr>signal_pending := False, el_pc := PcSwapLocal\<rparr>"] show ?thesis
      by (auto simp: Loop_next_def Let_def split: if_splits)
  next
    case (PcRunLocal i)
    have "wake_inv (s\<lparr>taken_local := taken_local s @ [local_executing s ! i], el_pc := PcRunLocal (Suc i)\<rparr>)"
      "wake_inv (s\<lparr>el_pc := PcRunRemote 0\<rparr>)" using inv PcRunLocal by (simp_all add: wake_defs)
    with run PcRunLocal n show ?thesis by (auto simp: Loop_next_def run_local_def Let_def)
  next
    case (PcRunRemote i)
    have "wake_inv (s\<lparr>taken_remote := taken_remote s @ [remote_executing s ! i], el_pc := PcRunRemote (Suc i)\<rparr>)"
      "wake_inv (s\<lparr>el_pc := PcFinish\<rparr>)" using inv PcRunRemote by (simp_all add: wake_defs)
    with run PcRunRemote n show ?thesis by (auto simp: Loop_next_def run_remote_def Let_def)
  next
    case PcCheck
    with n inv show ?thesis by (cases "el_quit s") (auto simp: Loop_next_def wake_defs)
  next
    case PcPoll
    with n inv show ?thesis by (simp add: Loop_next_def wake_defs split: if_splits) (auto simp: wake_defs)
  next
    case PcSwapLocal
    with n inv show ?thesis by (auto simp: Loop_next_def begin_pending_def wake_defs)
  next
    case PcSwapRemote
    with n inv show ?thesis by (auto simp: Loop_next_def swap_remote_def wake_defs)
  next
    case PcFinish
    with n inv show ?thesis by (auto simp: Loop_next_def end_pending_def wake_defs)
  qed (use n in \<open>simp add: Loop_next_def\<close>)
qed

lemma wake_inv_step: "loop_step s s' \<Longrightarrow> wake_inv s \<Longrightarrow> wake_inv s'"
proof (induction rule: loop_step.induct)
  case (next_step active acts s s')
  then show ?case by (blast intro: wake_inv_next)
next
  case (owner_step s a)
  then show ?case by (intro wake_inv_frame [OF _ act_frame_act]) simp_all
next
  case (write_step s)
  then show ?case using WakeUp_count [of s] by (simp add: wake_defs finish_write_def)
next
  case (enter_step s s')
  then show ?case by (auto simp: Loop_enter_def wake_defs)
next
  case (queue_step cb s s')
  then have "s' = QueueInLoop_el False cb s" by (simp add: RunInLoop_el_def)
  with queue_step(2) show ?case by (simp add: wake_defs QueueInLoop_el_def)
next
  case (quit_step s)
  then show ?case by (simp add: wake_defs Quit_def)
next
  case (signal_step s)
  then show ?case by (simp add: wake_defs NotifyFromSignal_def)
qed

lemma wake_inv_reach: "loop_step\<^sup>*\<^sup>* (EventLoop_new cb) s \<Longrightarrow> wake_inv s"
proof (induction rule: rtranclp_induct)
  case base
  show ?case by (simp add: wake_defs EventLoop_new_def)
qed (rule wake_inv_step)

section \<open>Every functor once, in order\<close>

text \<open>How far the loop has come in the batch it is executing.\<close>

definition local_done :: "EventLoop \<Rightarrow> nat" where
  "local_done s = (case el_pc s of PcRunLocal i \<Rightarrow> i | PcRunRemote i \<Rightarrow> length (local_executing s)
     | PcFinish \<Rightarrow> length (local_executing s) | _ \<Rightarrow> 0)"

definition remote_done :: "EventLoop \<Rightarrow> nat" where
  "remote_done s = (case el_pc s of PcRunRemote i \<Rightarrow> i | PcFinish \<Rightarrow> length (remote_executing s) | _ \<Rightarrow> 0)"

definition queue_inv :: "EventLoop \<Rightarrow> bool" where
  "queue_inv s \<longleftrightarrow> posted_local s = taken_local s @ drop (local_done s) (local_executing s) @ local_pending s
     \<and> posted_remote s = taken_remote s @ drop (remote_done s) (remote_executing s) @ remote_pending s
     \<and> local_done s \<le> length (local_executing s) \<and> remote_done s \<le> length (remote_executing s)
     \<and> mset (called s) = mset (somes (taken_local s)) + mset (somes (taken_remote s))"

lemma queue_inv_frame: "queue_inv s \<Longrightarrow> act_frame s s' \<Longrightarrow> queue_inv s'"
  by (auto simp: queue_inv_def act_frame_def local_done_def remote_done_def split: loop_pc.splits)

lemma queue_inv_next:
  assumes inv: "queue_inv s" and fl: "flags_ok s" and n: "Loop_next active acts s = Some s'"
  shows "queue_inv s'"
proof -
  note defs = queue_inv_def local_done_def remote_done_def
  have run: "queue_inv (call_functor cb acts t)" if "queue_inv (t\<lparr>called := called t @ somes [cb]\<rparr>)" for cb t
    by (rule queue_inv_frame [OF that call_frame])
  have user: "queue_inv (fold loop_act acts t)" if "queue_inv t" for t
    by (rule queue_inv_frame [OF that act_frame_fold])
  show ?thesis
  proof (cases "el_pc s")
    case (PcHandle chs)
    have pc: "queue_inv (s\<lparr>el_pc := PcHandle rs\<rparr>)" "queue_inv (s\<lparr>el_pc := PcSignal\<rparr>)" "queue_inv ((HandleWakeUpRead s)\<lparr>el_pc := PcHandle rs\<rparr>)" for rs
      using inv PcHandle by (simp_all add: defs HandleWakeUpRead_def)
    show ?thesis
    proof (cases chs)
      case Nil
      with PcHandle n pc show ?thesis by (auto simp: Loop_next_def)
    next
      case (Cons r rs)
      with PcHandle n pc user show ?thesis by (cases r) (auto simp: Loop_next_def)
    qed
  next
    case PcSignal
    have "queue_inv (s\<lparr>signal_pending := False, el_pc := PcSwapLocal\<rparr>)" using inv PcSignal by (simp add: defs)
    with PcSignal n user show ?thesis by (auto simp: Loop_next_def Let_def split: if_splits)
  next
    case (PcRunLocal i)
    have "i < length (local_executing s) \<Longrightarrow> queue_inv (s\<lparr>taken_local := taken_local s @ [local_executing s ! i], el_pc := PcRunLocal (Suc i), called := called s @ somes [local_executing s ! i]\<rparr>)"
      "\<not> i < length (local_executing s) \<Longrightarrow> queue_inv (s\<lparr>el_pc := PcRunRemote 0\<rparr>)"
      using inv PcRunLocal by (simp_all add: defs Cons_nth_drop_Suc)
    with run [of "s\<lparr>taken_local := taken_local s @ [local_executing s ! i], el_pc := PcRunLocal (Suc i)\<rparr>"] PcRunLocal n show ?thesis
      by (auto simp: Loop_next_def run_local_def Let_def)
  next
    case (PcRunRemote i)
    have "i < length (remote_executing s) \<Longrightarrow> queue_inv (s\<lparr>taken_remote := taken_remote s @ [remote_executing s ! i], el_pc := PcRunRemote (Suc i), called := called s @ somes [remote_executing s ! i]\<rparr>)"
      "\<not> i < length (remote_executing s) \<Longrightarrow> queue_inv (s\<lparr>el_pc := PcFinish\<rparr>)"
      using inv PcRunRemote by (simp_all add: defs Cons_nth_drop_Suc)
    with run [of "s\<lparr>taken_remote := taken_remote s @ [remote_executing s ! i], el_pc := PcRunRemote (Suc i)\<rparr>"] PcRunRemote n show ?thesis
      by (auto simp: Loop_next_def run_remote_def Let_def)
  qed (use n inv fl in \<open>auto simp: Loop_next_def begin_pending_def swap_remote_def end_pending_def defs flags_ok_def split: if_splits\<close>)
qed

lemma queue_inv_step: "loop_step s s' \<Longrightarrow> queue_inv s \<Longrightarrow> flags_ok s \<Longrightarrow> queue_inv s'"
proof (induction rule: loop_step.induct)
  case (next_step active acts s s')
  then show ?case by (blast intro: queue_inv_next)
next
  case (owner_step s a)
  then show ?case by (blast intro: queue_inv_frame act_frame_act)
qed (auto simp: queue_inv_def local_done_def remote_done_def Loop_enter_def RunInLoop_el_def QueueInLoop_el_def Quit_def NotifyFromSignal_def
    finish_write_def Let_def flags_ok_def split: if_splits loop_pc.splits)

lemma queue_inv_reach: "loop_step\<^sup>*\<^sup>* (EventLoop_new cb) s \<Longrightarrow> queue_inv s"
proof (induction rule: rtranclp_induct)
  case (step s s')
  then show ?case using wake_inv_reach [OF step(1)] by (auto simp: wake_inv_def queue_inv_step)
qed (simp add: queue_inv_def local_done_def remote_done_def EventLoop_new_def somes_def)

text \<open>Nothing is ever withdrawn from a queue.\<close>

lemma posted_grows:
  assumes "loop_step s s'"
  shows "prefix (posted_local s) (posted_local s') \<and> prefix (posted_remote s) (posted_remote s')"
proof -
  have frame: "prefix (posted_local s) (posted_local t) \<and> prefix (posted_remote s) (posted_remote t)"
    if "act_frame u t" "posted_local u = posted_local s" "posted_remote u = posted_remote s" for u t
    using that by (auto simp: act_frame_def)
  from assms show ?thesis
  proof (cases rule: loop_step.cases)
    case (next_step active acts)
    then show ?thesis
      by (auto simp: Loop_next_def Let_def run_local_def run_remote_def begin_pending_def swap_remote_def end_pending_def HandleWakeUpRead_def
          split: loop_pc.splits list.splits ready.splits if_splits intro!: frame [OF act_frame_fold, simplified] frame [OF call_frame, simplified])
  next
    case (owner_step a)
    with frame [OF act_frame_act] show ?thesis by simp
  qed (auto simp: Loop_enter_def RunInLoop_el_def QueueInLoop_el_def Quit_def NotifyFromSignal_def finish_write_def Let_def split: if_splits)
qed

section \<open>One turn runs all that was queued before it\<close>

definition local_claimed :: "EventLoop \<Rightarrow> nat" where
  "local_claimed s = length (taken_local s) + (length (local_executing s) - local_done s)"

definition remote_claimed :: "EventLoop \<Rightarrow> nat" where
  "remote_claimed s = length (taken_remote s) + (length (remote_executing s) - remote_done s)"

text \<open>Since the loop waited in turn \<open>t\<close>, with \<open>n\<close> and \<open>m\<close> functors queued so far.\<close>

definition turn_inv :: "nat \<Rightarrow> nat \<Rightarrow> nat \<Rightarrow> EventLoop \<Rightarrow> bool" where
  "turn_inv t n m s \<longleftrightarrow> n \<le> length (posted_local s) \<and> m \<le> length (posted_remote s)
     \<and> (if turns s = t
        then el_pc s \<notin> {PcOutside, PcCheck} \<and> (in_batch (el_pc s) \<longrightarrow> n \<le> local_claimed s)
          \<and> (in_batch (el_pc s) \<and> el_pc s \<noteq> PcSwapRemote \<longrightarrow> m \<le> remote_claimed s)
        else t < turns s \<and> n \<le> length (taken_local s) \<and> m \<le> length (taken_remote s))"

lemma turn_inv_cong:
  assumes "turn_inv t n m s" "el_pc s' = el_pc s" "turns s' = turns s" "local_executing s' = local_executing s"
    "remote_executing s' = remote_executing s" "taken_local s' = taken_local s" "taken_remote s' = taken_remote s"
    "length (posted_local s) \<le> length (posted_local s')" "length (posted_remote s) \<le> length (posted_remote s')"
  shows "turn_inv t n m s'"
proof -
  have "local_claimed s' = local_claimed s" "remote_claimed s' = remote_claimed s"
    unfolding local_claimed_def remote_claimed_def local_done_def remote_done_def assms(2-7) by simp_all
  with assms show ?thesis by (simp add: turn_inv_def split: if_splits)
qed

lemma turn_inv_frame: "turn_inv t n m s \<Longrightarrow> act_frame s s' \<Longrightarrow> turn_inv t n m s'"
  by (erule turn_inv_cong) (auto simp: act_frame_def)

lemma turn_inv_run:
  assumes "turn_inv t n m s"
  shows "el_pc s = PcRunLocal i \<Longrightarrow> i < length (local_executing s) \<Longrightarrow>
      turn_inv t n m (s\<lparr>taken_local := taken_local s @ [x], el_pc := PcRunLocal (Suc i), called := cs\<rparr>)"
    and "el_pc s = PcRunLocal i \<Longrightarrow> \<not> i < length (local_executing s) \<Longrightarrow> turn_inv t n m (s\<lparr>el_pc := PcRunRemote 0\<rparr>)"
    and "el_pc s = PcRunRemote i \<Longrightarrow> i < length (remote_executing s) \<Longrightarrow>
      turn_inv t n m (s\<lparr>taken_remote := taken_remote s @ [x], el_pc := PcRunRemote (Suc i), called := cs\<rparr>)"
    and "el_pc s = PcRunRemote i \<Longrightarrow> \<not> i < length (remote_executing s) \<Longrightarrow> turn_inv t n m (s\<lparr>el_pc := PcFinish\<rparr>)"
  using assms by (simp_all add: turn_inv_def local_claimed_def remote_claimed_def local_done_def remote_done_def split: if_splits) linarith+

lemma turn_inv_swap:
  assumes "turn_inv t n m s" "queue_inv s" "flags_ok s"
  shows "el_pc s = PcSwapLocal \<Longrightarrow> turn_inv t n m (begin_pending s)" and "el_pc s = PcSwapRemote \<Longrightarrow> turn_inv t n m (swap_remote s)"
    and "el_pc s = PcFinish \<Longrightarrow> turn_inv t n m (end_pending s)"
  using assms by (simp_all add: turn_inv_def begin_pending_def swap_remote_def end_pending_def local_claimed_def remote_claimed_def
      local_done_def remote_done_def queue_inv_def flags_ok_def split: if_splits)

lemma turn_inv_next:
  assumes inv: "turn_inv t n m s" and q: "queue_inv s" and fl: "flags_ok s" and nx: "Loop_next active acts s = Some s'"
  shows "turn_inv t n m s'"
proof -
  have run: "turn_inv t n m (call_functor cb acts u)" if "turn_inv t n m (u\<lparr>called := called u @ somes [cb]\<rparr>)" for cb u
    by (rule turn_inv_frame [OF that call_frame])
  have user: "turn_inv t n m (fold loop_act acts u)" if "turn_inv t n m u" for u
    by (rule turn_inv_frame [OF that act_frame_fold])
  show ?thesis
  proof (cases "el_pc s")
    case (PcHandle chs)
    have pc: "turn_inv t n m (s\<lparr>el_pc := PcHandle rs\<rparr>)" "turn_inv t n m (s\<lparr>el_pc := PcSignal\<rparr>)"
      "turn_inv t n m ((HandleWakeUpRead s)\<lparr>el_pc := PcHandle rs\<rparr>)" for rs
      using inv PcHandle by (simp_all add: turn_inv_def HandleWakeUpRead_def)
    show ?thesis
    proof (cases chs)
      case Nil
      with PcHandle nx pc show ?thesis by (auto simp: Loop_next_def)
    next
      case (Cons r rs)
      with PcHandle nx pc user show ?thesis by (cases r) (auto simp: Loop_next_def)
    qed
  next
    case PcSignal
    have "turn_inv t n m (s\<lparr>signal_pending := False, el_pc := PcSwapLocal\<rparr>)" using inv PcSignal by (simp add: turn_inv_def)
    with PcSignal nx user show ?thesis by (auto simp: Loop_next_def Let_def split: if_splits)
  next
    case (PcRunLocal i)
    with nx run [of "s\<lparr>taken_local := taken_local s @ [local_executing s ! i], el_pc := PcRunLocal (Suc i)\<rparr>"] turn_inv_run(1,2) [OF inv PcRunLocal]
    show ?thesis by (auto simp: Loop_next_def run_local_def Let_def)
  next
    case (PcRunRemote i)
    with nx run [of "s\<lparr>taken_remote := taken_remote s @ [remote_executing s ! i], el_pc := PcRunRemote (Suc i)\<rparr>"] turn_inv_run(3,4) [OF inv PcRunRemote]
    show ?thesis by (auto simp: Loop_next_def run_remote_def Let_def)
  qed (use nx inv turn_inv_swap [OF inv q fl] in \<open>auto simp: Loop_next_def turn_inv_def split: if_splits; fail\<close>)+
qed

lemma turn_inv_step: "loop_step s s' \<Longrightarrow> turn_inv t n m s \<Longrightarrow> queue_inv s \<Longrightarrow> flags_ok s \<Longrightarrow> turn_inv t n m s'"
proof (induction rule: loop_step.induct)
  case (next_step active acts s s')
  then show ?case by (blast intro: turn_inv_next)
next
  case (owner_step s a)
  then show ?case by (blast intro: turn_inv_frame act_frame_act)
next
  case (enter_step s s')
  then show ?case by (auto simp: turn_inv_def Loop_enter_def split: if_splits)
qed (erule turn_inv_cong; auto simp: RunInLoop_el_def QueueInLoop_el_def Quit_def NotifyFromSignal_def finish_write_def Let_def)+

lemma turn_reach:
  assumes reach: "loop_step\<^sup>*\<^sup>* (EventLoop_new cb) s" and run: "loop_step\<^sup>*\<^sup>* s s'" and pc: "el_pc s = PcPoll"
  shows "turn_inv (turns s) (length (posted_local s)) (length (posted_remote s)) s'
    \<and> prefix (posted_local s) (posted_local s') \<and> prefix (posted_remote s) (posted_remote s')"
  using run
proof (induction rule: rtranclp_induct)
  case base
  show ?case using pc by (simp add: turn_inv_def)
next
  case (step u v)
  have u: "loop_step\<^sup>*\<^sup>* (EventLoop_new cb) u" using reach step(1) by simp
  have "queue_inv u" "flags_ok u" using queue_inv_reach [OF u] wake_inv_reach [OF u] by (simp_all add: wake_inv_def)
  with turn_inv_step [OF step(2)] posted_grows [OF step(2)] step(3) show ?case by (blast intro: prefix_order.trans)
qed

section \<open>Property\<close>

text \<open>C5: When the loop blocks in \<open>Poll\<close> and no thread is about to write to the eventfd, no functor of another thread, signal or request to quit waits,
  and no functor of its own, except one queued before \<open>Loop\<close> was called. The functors of each queue are called in order and exactly once, and all those queued when
  the loop waits have been called when it has completed one more turn, whatever other threads do in the meantime.\<close>

theorem loop_never_sleeps_on_work:
  assumes reach: "loop_step\<^sup>*\<^sup>* (EventLoop_new cb) s"
  shows "(el_pc s = PcPoll \<and> wakeup_count s = 0 \<and> writers s = 0 \<longrightarrow>
       remote_pending s = [] \<and> \<not> signal_pending s \<and> \<not> el_quit s \<and> (local_pending s = [] \<or> first_round s))
    \<and> prefix (taken_local s) (posted_local s) \<and> prefix (taken_remote s) (posted_remote s)
    \<and> mset (called s) = mset (somes (taken_local s)) + mset (somes (taken_remote s))
    \<and> (loop_step\<^sup>*\<^sup>* s s' \<and> el_pc s = PcPoll \<and> turns s < turns s' \<longrightarrow>
        prefix (posted_local s) (taken_local s') \<and> prefix (posted_remote s) (taken_remote s'))"
proof -
  have order: "prefix (taken_local u) (posted_local u) \<and> prefix (taken_remote u) (posted_remote u)
      \<and> mset (called u) = mset (somes (taken_local u)) + mset (somes (taken_remote u))" if "loop_step\<^sup>*\<^sup>* (EventLoop_new cb) u" for u
    using queue_inv_reach [OF that] by (simp add: queue_inv_def)
  have "remote_pending s = [] \<and> \<not> signal_pending s \<and> \<not> el_quit s \<and> (local_pending s = [] \<or> first_round s)"
    if "el_pc s = PcPoll" "wakeup_count s = 0" "writers s = 0"
    using wake_inv_reach [OF reach] that by (simp add: wake_defs) blast
  moreover have "prefix (posted_local s) (taken_local s') \<and> prefix (posted_remote s) (taken_remote s')"
    if run: "loop_step\<^sup>*\<^sup>* s s'" and "el_pc s = PcPoll" "turns s < turns s'"
  proof -
    note t = turn_reach [OF reach run that(2)]
    have "prefix (taken_local s') (posted_local s') \<and> prefix (taken_remote s') (posted_remote s')"
      using order [of s'] reach run by (meson rtranclp_trans)
    with t that(3) show ?thesis by (auto simp: turn_inv_def intro: prefix_length_prefix)
  qed
  ultimately show ?thesis using order [OF reach] by blast
qed

text \<open>The loop thread alone, with the results of its polls.\<close>

fun drive :: "ready list list \<Rightarrow> EventLoop \<Rightarrow> EventLoop option" where
  "drive [] s = Some s"
| "drive (active # rs) s = (case Loop_next active [] s of None \<Rightarrow> None | Some s' \<Rightarrow> drive rs s')"

lemma drive_steps: "drive rs s = Some s' \<Longrightarrow> loop_step\<^sup>*\<^sup>* s s'"
proof (induction rs s rule: drive.induct)
  case (2 active rs s)
  then show ?case by (auto split: option.splits intro: converse_rtranclp_into_rtranclp next_step)
qed simp

lemmas drive_simps = Loop_next_def QueueInLoop_el_def finish_write_def WakeUp_def kEventFdMax_def HandleWakeUpRead_def begin_pending_def
  swap_remote_def run_local_def run_remote_def end_pending_def call_functor_def EventLoop_new_def Let_def

definition demo_waiting :: EventLoop where
  "demo_waiting = (EventLoop_new False)\<lparr>looping := True, el_pc := PcPoll, first_round := True\<rparr>"

lemma demo_waiting_reach: "loop_step\<^sup>*\<^sup>* (EventLoop_new False) demo_waiting"
proof -
  define e where "e = (EventLoop_new False)\<lparr>looping := True, el_quit := False, el_pc := PcCheck, first_round := True\<rparr>"
  have "loop_step (EventLoop_new False) e" by (rule enter_step) (simp_all add: EventLoop_new_def Loop_enter_def e_def)
  moreover have "loop_step e demo_waiting"
    by (rule next_step [of "[]" "[]"]) (simp add: Loop_next_def e_def demo_waiting_def EventLoop_new_def)
  ultimately show ?thesis by simp
qed

text \<open>A functor that the owner queues before it calls \<open>Loop\<close> does wait: the first \<open>Poll\<close> may sleep for its whole timeout.\<close>

lemma queue_before_loop_waits:
  "\<exists>s. loop_step\<^sup>*\<^sup>* (EventLoop_new cb) s \<and> el_pc s = PcPoll \<and> wakeup_count s = 0 \<and> writers s = 0 \<and> local_pending s = [Some 1]"
proof -
  define a where "a = loop_act (ActQueue (Some 1)) (EventLoop_new cb)"
  define e where "e = a\<lparr>looping := True, el_quit := False, el_pc := PcCheck, first_round := True\<rparr>"
  define w where "w = e\<lparr>el_pc := PcPoll\<rparr>"
  note defs = a_def e_def w_def loop_act_def drive_simps
  have "loop_step (EventLoop_new cb) a" unfolding a_def by (rule owner_step) (simp add: EventLoop_new_def)
  moreover have "loop_step a e" by (rule enter_step) (simp_all add: defs Loop_enter_def)
  moreover have "loop_step e w" by (rule next_step [of "[]" "[]"]) (simp add: defs)
  ultimately have "loop_step\<^sup>*\<^sup>* (EventLoop_new cb) w" by simp
  moreover have "el_pc w = PcPoll \<and> wakeup_count w = 0 \<and> writers w = 0 \<and> local_pending w = [Some 1]" by (simp add: defs)
  ultimately show ?thesis by blast
qed

theorem loop_never_sleeps_on_work_witness:
  "\<exists>s s'. loop_step\<^sup>*\<^sup>* (EventLoop_new False) s \<and> loop_step\<^sup>*\<^sup>* s s' \<and> el_pc s = PcPoll \<and> wakeup_count s = 1
     \<and> posted_remote s = [Some 7] \<and> taken_remote s = [] \<and> turns s' = 1 \<and> prefix [Some 7] (taken_remote s') \<and> called s' = [7]"
proof -
  define q where "q = QueueInLoop_el False (Some 7) demo_waiting"
  define s where "s = finish_write q"
  have "loop_step demo_waiting q" by (rule queue_step [of "Some 7"]) (simp add: RunInLoop_el_def q_def)
  moreover have "loop_step q s" unfolding s_def by (rule write_step) (simp add: q_def QueueInLoop_el_def)
  ultimately have reach: "loop_step\<^sup>*\<^sup>* (EventLoop_new False) s" using demo_waiting_reach by simp
  have s: "el_pc s = PcPoll" "wakeup_count s = 1" "posted_remote s = [Some 7]" "taken_remote s = []" "turns s = 0"
    by (simp_all add: s_def q_def demo_waiting_def drive_simps)
  define s' where "s' = the (drive [[WakeUpReady], [], [], [], [], [], [], [], [], []] s)"
  have "drive [[WakeUpReady], [], [], [], [], [], [], [], [], []] s = Some s' \<and> turns s' = 1 \<and> called s' = [7]"
    by (simp add: s'_def s_def q_def demo_waiting_def drive_simps)
  then have run: "loop_step\<^sup>*\<^sup>* s s'" "turns s' = 1" "called s' = [7]" using drive_steps by blast+
  from loop_never_sleeps_on_work [OF reach, of s'] run s have "prefix [Some 7] (taken_remote s')" by simp
  with reach run s show ?thesis by blast
qed

end
