(* ===== verification/Net_Poller.thy ===== *)
theory Net_Poller
  imports Net_Connection
begin

text \<open>
  \<open>nebula/net/poller.cpp\<close> and \<open>nebula/net/epoll_poller.cpp\<close>: which channels of a loop the kernel watches. A channel is named
  by its address, a natural number; the channels of the process are a heap. \<open>epoll_ctl\<close> and \<open>epoll_wait\<close> are arguments, of the first the
  documented behaviour is the hypothesis \<open>epoll_laws\<close>.
\<close>

section \<open>State\<close>

definition kNew :: int where "kNew = -1"
definition kAdded :: int where "kAdded = 1"
definition kDeleted :: int where "kDeleted = 2"
definition kInitialEventListSize :: nat where "kInitialEventListSize = 16"

lemmas index_defs = kNew_def kAdded_def kDeleted_def

record PolledChannel = Channel +
  chan_index :: int

datatype ctl_op = EPOLL_CTL_ADD | EPOLL_CTL_MOD | EPOLL_CTL_DEL

definition ENOENT :: int where "ENOENT = 2"
definition EEXIST :: int where "EEXIST = 17"
definition EINTR_wait :: int where "EINTR_wait = 4"

text \<open>The system call gets the operation, the descriptor, and the event with the address of the channel; it returns an error number or none.\<close>

type_synonym 'k epoll_ctl = "ctl_op \<Rightarrow> int \<Rightarrow> u32 \<times> nat \<Rightarrow> 'k \<Rightarrow> int option \<times> 'k"

record 'k EPollPoller =
  poller_channels :: "int \<rightharpoonup> nat"
  chan_heap :: "nat \<Rightarrow> PolledChannel"
  events_size :: nat
  kernel :: 'k

definition PolledChannel_new :: "int \<Rightarrow> PolledChannel" where
  "PolledChannel_new fd = \<lparr>chan_fd = fd, events = 0, revents = 0, tied = False, updates = [], chan_index = kNew\<rparr>"

definition EPollPoller_new :: "(nat \<Rightarrow> int) \<Rightarrow> 'k \<Rightarrow> 'k EPollPoller" where
  "EPollPoller_new fds k =
     \<lparr>poller_channels = Map.empty, chan_heap = (\<lambda>c. PolledChannel_new (fds c)), events_size = kInitialEventListSize, kernel = k\<rparr>"

definition upd_chan :: "nat \<Rightarrow> (PolledChannel \<Rightarrow> PolledChannel) \<Rightarrow> 'k EPollPoller \<Rightarrow> 'k EPollPoller" where
  "upd_chan c f p = p\<lparr>chan_heap := (chan_heap p)(c := f (chan_heap p c))\<rparr>"

definition SetIndex :: "nat \<Rightarrow> int \<Rightarrow> 'k EPollPoller \<Rightarrow> 'k EPollPoller" where
  "SetIndex c i p = upd_chan c (\<lambda>ch. ch\<lparr>chan_index := i\<rparr>) p"

section \<open>Operations\<close>

text \<open>The first component is the error number with which \<open>epoll_ctl\<close> made the call throw.\<close>

definition Poller_Update :: "'k epoll_ctl \<Rightarrow> ctl_op \<Rightarrow> nat \<Rightarrow> 'k EPollPoller \<Rightarrow> int option \<times> 'k EPollPoller" where
  "Poller_Update ctl op c p =
     (let ch = chan_heap p c
      in case ctl op (chan_fd ch) (events ch, c) (kernel p) of
           (None, k) \<Rightarrow> (None, p\<lparr>kernel := k\<rparr>)
         | (Some err, k) \<Rightarrow>
             if op = EPOLL_CTL_DEL \<and> err = ENOENT then (None, p\<lparr>kernel := k\<rparr>) else (Some err, p\<lparr>kernel := k\<rparr>))"

definition UpdateChannel :: "'k epoll_ctl \<Rightarrow> nat \<Rightarrow> 'k EPollPoller \<Rightarrow> int option \<times> 'k EPollPoller" where
  "UpdateChannel ctl c p =
     (let index = chan_index (chan_heap p c); fd = chan_fd (chan_heap p c)
      in if index = kNew \<or> index = kDeleted
         then let p1 = (if index = kNew then p\<lparr>poller_channels := (poller_channels p)(fd \<mapsto> c)\<rparr> else p)
           in Poller_Update ctl EPOLL_CTL_ADD c (SetIndex c kAdded p1)
         else if events (chan_heap p c) = kNoneEvent
         then (case Poller_Update ctl EPOLL_CTL_DEL c p of
                 (Some err, p1) \<Rightarrow> (Some err, p1)
               | (None, p1) \<Rightarrow> (None, SetIndex c kDeleted p1))
         else Poller_Update ctl EPOLL_CTL_MOD c p)"

definition RemoveChannel :: "'k epoll_ctl \<Rightarrow> nat \<Rightarrow> 'k EPollPoller \<Rightarrow> int option \<times> 'k EPollPoller" where
  "RemoveChannel ctl c p =
     (let p1 = p\<lparr>poller_channels := (poller_channels p)(chan_fd (chan_heap p c) := None)\<rparr>
      in if chan_index (chan_heap p c) = kAdded
         then (case Poller_Update ctl EPOLL_CTL_DEL c p1 of
                 (Some err, p2) \<Rightarrow> (Some err, p2)
               | (None, p2) \<Rightarrow> (None, SetIndex c kNew p2))
         else (None, SetIndex c kNew p1))"

definition HasChannel :: "nat \<Rightarrow> 'k EPollPoller \<Rightarrow> bool" where
  "HasChannel c p \<longleftrightarrow> poller_channels p (chan_fd (chan_heap p c)) = Some c"

definition FillActiveChannels :: "(u32 \<times> nat) list \<Rightarrow> 'k EPollPoller \<Rightarrow> nat list \<times> 'k EPollPoller" where
  "FillActiveChannels evs p =
     (map snd evs, fold (\<lambda>(ev, c). upd_chan c (\<lambda>ch. ch\<lparr>revents := ev\<rparr>)) evs p)"

text \<open>\<open>epoll_wait\<close> fails with an error number or fills the first elements of \<open>events_\<close>.\<close>

definition Poll :: "int + (u32 \<times> nat) list \<Rightarrow> 'k EPollPoller \<Rightarrow> nat list \<times> 'k EPollPoller" where
  "Poll wait p =
     (case wait of
        Inl errno \<Rightarrow> ([], p)
      | Inr evs \<Rightarrow>
          if evs = [] then ([], p)
          else case FillActiveChannels evs p of
            (active, p1) \<Rightarrow> (active, if length evs = events_size p then p1\<lparr>events_size := events_size p * 2\<rparr> else p1))"

section \<open>Runs\<close>

text \<open>A channel changes its interest and calls \<open>Channel::Update\<close>, or is removed; a channel that is not registered may be replaced by one for
  another descriptor; the loop polls.\<close>

datatype poll_op = PollInterest nat u32 | PollRemove nat | PollNewChannel nat int | PollWait "int + (u32 \<times> nat) list"

definition poll_apply :: "'k epoll_ctl \<Rightarrow> poll_op \<Rightarrow> 'k EPollPoller \<Rightarrow> int option \<times> 'k EPollPoller" where
  "poll_apply ctl op p =
     (case op of
        PollInterest c ev \<Rightarrow> UpdateChannel ctl c (upd_chan c (\<lambda>ch. ch\<lparr>events := ev, updates := updates ch @ [ev]\<rparr>) p)
      | PollRemove c \<Rightarrow> RemoveChannel ctl c p
      | PollNewChannel c fd \<Rightarrow> (None, upd_chan c (\<lambda>_. PolledChannel_new fd) p)
      | PollWait wait \<Rightarrow> (None, snd (Poll wait p)))"

text \<open>An exception ends the run.\<close>

fun poll_run :: "'k epoll_ctl \<Rightarrow> poll_op list \<Rightarrow> 'k EPollPoller \<Rightarrow> int option \<times> 'k EPollPoller" where
  "poll_run ctl [] p = (None, p)"
| "poll_run ctl (op # ops) p =
     (case poll_apply ctl op p of (Some err, p1) \<Rightarrow> (Some err, p1) | (None, p1) \<Rightarrow> poll_run ctl ops p1)"

text \<open>
  What the poller relies on: two channels of one descriptor are never registered at the same time, a channel is destroyed only after
  \<open>Remove\<close>, and \<open>epoll_wait\<close> fills at most the array it is given with registered channels.
\<close>

definition poll_op_ok :: "('k \<Rightarrow> int \<rightharpoonup> u32 \<times> nat) \<Rightarrow> poll_op \<Rightarrow> 'k EPollPoller \<Rightarrow> bool" where
  "poll_op_ok regs op p \<longleftrightarrow>
     (case op of
        PollInterest c ev \<Rightarrow> chan_index (chan_heap p c) = kNew \<longrightarrow> poller_channels p (chan_fd (chan_heap p c)) = None
      | PollRemove c \<Rightarrow> chan_index (chan_heap p c) = kNew \<longrightarrow> poller_channels p (chan_fd (chan_heap p c)) = None
      | PollNewChannel c fd \<Rightarrow> chan_index (chan_heap p c) = kNew
      | PollWait (Inl errno) \<Rightarrow> True
      | PollWait (Inr evs) \<Rightarrow> length evs \<le> events_size p \<and> (\<forall>(ev, c)\<in>set evs. \<exists>e. regs (kernel p) (chan_fd (chan_heap p c)) = Some (e, c)))"

fun poll_ops_ok :: "'k epoll_ctl \<Rightarrow> ('k \<Rightarrow> int \<rightharpoonup> u32 \<times> nat) \<Rightarrow> poll_op list \<Rightarrow> 'k EPollPoller \<Rightarrow> bool" where
  "poll_ops_ok ctl regs [] p = True"
| "poll_ops_ok ctl regs (op # ops) p \<longleftrightarrow> poll_op_ok regs op p \<and> poll_ops_ok ctl regs ops (snd (poll_apply ctl op p))"

text \<open>\<open>epoll_ctl(2)\<close>: \<open>regs\<close> reads the interest list. Adding a descriptor that is not in it, and changing or deleting one that is, succeeds.\<close>

definition epoll_laws :: "'k epoll_ctl \<Rightarrow> ('k \<Rightarrow> int \<rightharpoonup> u32 \<times> nat) \<Rightarrow> bool" where
  "epoll_laws ctl regs \<longleftrightarrow> (\<forall>k fd ev.
     (regs k fd = None \<longrightarrow> fst (ctl EPOLL_CTL_ADD fd ev k) = None \<and> regs (snd (ctl EPOLL_CTL_ADD fd ev k)) = (regs k)(fd \<mapsto> ev))
     \<and> (regs k fd \<noteq> None \<longrightarrow> fst (ctl EPOLL_CTL_MOD fd ev k) = None \<and> regs (snd (ctl EPOLL_CTL_MOD fd ev k)) = (regs k)(fd \<mapsto> ev))
     \<and> (regs k fd \<noteq> None \<longrightarrow> fst (ctl EPOLL_CTL_DEL fd ev k) = None \<and> regs (snd (ctl EPOLL_CTL_DEL fd ev k)) = (regs k)(fd := None)))"

section \<open>The poller and the kernel agree\<close>

definition poll_inv :: "('k \<Rightarrow> int \<rightharpoonup> u32 \<times> nat) \<Rightarrow> 'k EPollPoller \<Rightarrow> bool" where
  "poll_inv regs p \<longleftrightarrow>
     (\<forall>c. chan_index (chan_heap p c) \<in> {kNew, kAdded, kDeleted})
     \<and> (\<forall>fd c. poller_channels p fd = Some c \<longleftrightarrow> chan_fd (chan_heap p c) = fd \<and> chan_index (chan_heap p c) \<noteq> kNew)
     \<and> (\<forall>fd ev c. regs (kernel p) fd = Some (ev, c) \<longleftrightarrow>
          chan_fd (chan_heap p c) = fd \<and> chan_index (chan_heap p c) = kAdded \<and> events (chan_heap p c) = ev)
     \<and> 0 < events_size p"

lemma poll_invD:
  assumes "poll_inv regs p"
  shows "chan_index (chan_heap p c) = kNew \<or> chan_index (chan_heap p c) = kAdded \<or> chan_index (chan_heap p c) = kDeleted"
    "poller_channels p fd = Some c \<longleftrightarrow> chan_fd (chan_heap p c) = fd \<and> chan_index (chan_heap p c) \<noteq> kNew"
    "regs (kernel p) fd = Some (ev, c) \<longleftrightarrow> chan_fd (chan_heap p c) = fd \<and> chan_index (chan_heap p c) = kAdded \<and> events (chan_heap p c) = ev"
    "0 < events_size p"
  using assms unfolding poll_inv_def by blast+

lemma index_distinct [simp]: "kNew \<noteq> kAdded" "kNew \<noteq> kDeleted" "kAdded \<noteq> kDeleted" "kAdded \<noteq> kNew" "kDeleted \<noteq> kNew" "kDeleted \<noteq> kAdded"
  by (simp_all add: index_defs)

text \<open>Two registered channels have different descriptors.\<close>

lemma registered_unique:
  assumes "poll_inv regs p" "chan_index (chan_heap p c) \<noteq> kNew" "chan_index (chan_heap p c') \<noteq> kNew"
    "chan_fd (chan_heap p c') = chan_fd (chan_heap p c)"
  shows "c' = c"
  using poll_invD(2) [OF assms(1), of "chan_fd (chan_heap p c)"] assms(2-) by (metis option.inject)

lemma other_channel_new:
  assumes inv: "poll_inv regs p" and new: "chan_index (chan_heap p c) = kNew \<Longrightarrow> poller_channels p (chan_fd (chan_heap p c)) = None"
    and c': "c' \<noteq> c" "chan_fd (chan_heap p c') = chan_fd (chan_heap p c)"
  shows "chan_index (chan_heap p c') = kNew"
proof (rule ccontr)
  assume ne: "\<not> ?thesis"
  show False
  proof (cases "chan_index (chan_heap p c) = kNew")
    case True
    with new ne c' poll_invD(2) [OF inv, of "chan_fd (chan_heap p c)" c'] show False by simp
  next
    case False
    from registered_unique [OF inv False ne c'(2)] c'(1) show False by simp
  qed
qed

lemma not_registered:
  assumes "poll_inv regs p" "chan_index (chan_heap p c) \<noteq> kAdded"
    and "chan_index (chan_heap p c) = kNew \<Longrightarrow> poller_channels p (chan_fd (chan_heap p c)) = None"
  shows "regs (kernel p) (chan_fd (chan_heap p c)) = None"
proof (rule ccontr)
  assume "\<not> ?thesis"
  then obtain ev c' where "regs (kernel p) (chan_fd (chan_heap p c)) = Some (ev, c')" by (metis not_None_eq surj_pair)
  then have c': "chan_fd (chan_heap p c') = chan_fd (chan_heap p c)" "chan_index (chan_heap p c') = kAdded"
    using poll_invD(3) [OF assms(1)] by auto
  moreover have "c' \<noteq> c" using c' assms(2) by auto
  ultimately show False using other_channel_new [OF assms(1,3), of c'] by simp
qed

text \<open>The state after a call: channel \<open>c\<close> has index \<open>i\<close> and interest \<open>ev\<close>, and the books say so.\<close>

lemma poll_inv_set:
  assumes inv: "poll_inv regs p" and i: "i = kAdded \<or> i = kDeleted"
    and new: "chan_index (chan_heap p c) = kNew \<Longrightarrow> poller_channels p (chan_fd (chan_heap p c)) = None"
    and ch: "chan_fd ch = chan_fd (chan_heap p c)" "chan_index ch = i" "events ch = ev"
    and k: "regs k = (regs (kernel p))(chan_fd (chan_heap p c) := (if i = kAdded then Some (ev, c) else None))"
  shows "poll_inv regs (p\<lparr>poller_channels := (poller_channels p)(chan_fd (chan_heap p c) \<mapsto> c), chan_heap := (chan_heap p)(c := ch), kernel := k\<rparr>)"
proof -
  let ?fd = "chan_fd (chan_heap p c)"
  have others: "chan_index (chan_heap p c') = kNew" if "c' \<noteq> c" "chan_fd (chan_heap p c') = ?fd" for c'
    using other_channel_new [OF inv _ that] new by blast
  show ?thesis
    unfolding poll_inv_def using poll_invD [OF inv] others i ch by (auto simp: k)
qed

lemma poll_inv_removed:
  assumes inv: "poll_inv regs p"
    and new: "chan_index (chan_heap p c) = kNew \<Longrightarrow> poller_channels p (chan_fd (chan_heap p c)) = None"
    and ch: "chan_fd ch = chan_fd (chan_heap p c)" "chan_index ch = kNew"
    and k: "regs k = (if chan_index (chan_heap p c) = kAdded then (regs (kernel p))(chan_fd (chan_heap p c) := None) else regs (kernel p))"
  shows "poll_inv regs (p\<lparr>poller_channels := (poller_channels p)(chan_fd (chan_heap p c) := None), kernel := k, chan_heap := (chan_heap p)(c := ch)\<rparr>)"
proof -
  let ?fd = "chan_fd (chan_heap p c)"
  have others: "chan_index (chan_heap p c') = kNew" if "c' \<noteq> c" "chan_fd (chan_heap p c') = ?fd" for c'
    using other_channel_new [OF inv _ that] new by blast
  show ?thesis
  proof (cases "chan_index (chan_heap p c) = kAdded")
    case True
    then show ?thesis unfolding poll_inv_def using poll_invD [OF inv] others ch by (auto simp: k)
  next
    case False
    then show ?thesis unfolding poll_inv_def using poll_invD [OF inv] others ch by (auto simp: k)
  qed
qed

lemma Update_ok:
  assumes laws: "epoll_laws ctl regs" and op: "(op = EPOLL_CTL_ADD) = (regs (kernel p) (chan_fd (chan_heap p c)) = None)"
  shows "\<exists>k. Poller_Update ctl op c p = (None, p\<lparr>kernel := k\<rparr>) \<and> regs k = (regs (kernel p))(chan_fd (chan_heap p c) :=
    (if op = EPOLL_CTL_DEL then None else Some (events (chan_heap p c), c)))"
proof -
  let ?r = "ctl op (chan_fd (chan_heap p c)) (events (chan_heap p c), c) (kernel p)"
  have "fst ?r = None" "regs (snd ?r) = (regs (kernel p))(chan_fd (chan_heap p c) :=
      (if op = EPOLL_CTL_DEL then None else Some (events (chan_heap p c), c)))"
    using laws op unfolding epoll_laws_def by (cases op; simp)+
  then show ?thesis by (cases ?r) (auto simp: Poller_Update_def Let_def)
qed

lemma chan_simps [simp]:
  "kernel (upd_chan c f p) = kernel p" "poller_channels (upd_chan c f p) = poller_channels p" "events_size (upd_chan c f p) = events_size p"
  "chan_heap (upd_chan c f p) = (chan_heap p)(c := f (chan_heap p c))"
  by (simp_all add: upd_chan_def)

lemma SetIndex_simps [simp]:
  "SetIndex c i p = p\<lparr>chan_heap := (chan_heap p)(c := (chan_heap p c)\<lparr>chan_index := i\<rparr>)\<rparr>"
  by (simp add: SetIndex_def upd_chan_def)

lemma registered_entry: "poll_inv regs p \<Longrightarrow> chan_index (chan_heap p c) \<noteq> kNew \<Longrightarrow> (poller_channels p)(chan_fd (chan_heap p c) \<mapsto> c) = poller_channels p"
  using poll_invD(2) [of regs p "chan_fd (chan_heap p c)" c] by (auto simp: fun_eq_iff)

text \<open>The call of \<open>epoll_ctl\<close> that fits the index succeeds, and with the new index the books agree again.\<close>

lemma Update_inv:
  assumes inv: "poll_inv regs p" and laws: "epoll_laws ctl regs"
    and new: "chan_index (chan_heap p c) = kNew \<Longrightarrow> poller_channels p (chan_fd (chan_heap p c)) = None"
    and ch: "chan_fd ch = chan_fd (chan_heap p c)" and op: "(op = EPOLL_CTL_ADD) = (chan_index (chan_heap p c) \<noteq> kAdded)"
    and q: "q = p\<lparr>poller_channels := (poller_channels p)(chan_fd (chan_heap p c) \<mapsto> c), chan_heap := (chan_heap p)(c := ch)\<rparr>"
  shows "\<exists>k. Poller_Update ctl op c q = (None, q\<lparr>kernel := k\<rparr>)
    \<and> poll_inv regs (SetIndex c (if op = EPOLL_CTL_DEL then kDeleted else kAdded) (q\<lparr>kernel := k\<rparr>))"
proof -
  let ?fd = "chan_fd (chan_heap p c)" and ?i = "if op = EPOLL_CTL_DEL then kDeleted else kAdded"
  have "(op = EPOLL_CTL_ADD) = (regs (kernel q) (chan_fd (chan_heap q c)) = None)"
  proof (cases "chan_index (chan_heap p c) = kAdded")
    case True
    with poll_invD(3) [OF inv, of ?fd "events (chan_heap p c)" c] op show ?thesis by (simp add: q ch)
  next
    case False
    with not_registered [OF inv False new] op show ?thesis by (simp add: q ch)
  qed
  from Update_ok [OF laws this] obtain k where k: "Poller_Update ctl op c q = (None, q\<lparr>kernel := k\<rparr>)"
      "regs k = (regs (kernel p))(?fd := (if op = EPOLL_CTL_DEL then None else Some (events ch, c)))"
    by (auto simp: q ch)
  have "SetIndex c ?i (q\<lparr>kernel := k\<rparr>) = p\<lparr>poller_channels := (poller_channels p)(?fd \<mapsto> c), chan_heap := (chan_heap p)(c := ch\<lparr>chan_index := ?i\<rparr>), kernel := k\<rparr>"
    by (simp add: q)
  moreover have "poll_inv regs \<dots>"
    by (cases "op = EPOLL_CTL_DEL"; rule poll_inv_set [OF inv _ new, where ev = "events ch"]) (auto simp: k(2) ch)
  ultimately show ?thesis using k(1) by auto
qed

lemma Interest_inv:
  assumes inv: "poll_inv regs p" and laws: "epoll_laws ctl regs"
    and new: "chan_index (chan_heap p c) = kNew \<Longrightarrow> poller_channels p (chan_fd (chan_heap p c)) = None"
  shows "\<exists>p'. poll_apply ctl (PollInterest c ev) p = (None, p') \<and> poll_inv regs p'"
proof -
  let ?fd = "chan_fd (chan_heap p c)" and ?ch = "(chan_heap p c)\<lparr>events := ev, updates := updates (chan_heap p c) @ [ev]\<rparr>"
  define q where "q = p\<lparr>poller_channels := (poller_channels p)(?fd \<mapsto> c), chan_heap := (chan_heap p)(c := ?ch)\<rparr>"
  define q1 where "q1 = p\<lparr>poller_channels := (poller_channels p)(?fd \<mapsto> c), chan_heap := (chan_heap p)(c := ?ch\<lparr>chan_index := kAdded\<rparr>)\<rparr>"
  have known: "upd_chan c (\<lambda>ch. ch\<lparr>events := ev, updates := updates ch @ [ev]\<rparr>) p = q" if "chan_index (chan_heap p c) \<noteq> kNew"
    using registered_entry [OF inv that] by (simp add: q_def upd_chan_def)
  show ?thesis
  proof (cases "chan_index (chan_heap p c) = kAdded")
    case True
    define op where "op = (if ev = kNoneEvent then EPOLL_CTL_DEL else EPOLL_CTL_MOD)"
    have "(op = EPOLL_CTL_ADD) = (chan_index (chan_heap p c) \<noteq> kAdded)" using True by (simp add: op_def)
    then obtain k where k: "Poller_Update ctl op c q = (None, q\<lparr>kernel := k\<rparr>)"
        "poll_inv regs (SetIndex c (if op = EPOLL_CTL_DEL then kDeleted else kAdded) (q\<lparr>kernel := k\<rparr>))"
      using Update_inv [OF inv laws new _ _ q_def, of op] by auto
    have "?ch\<lparr>chan_index := kAdded\<rparr> = ?ch" using True by (cases "chan_heap p c") simp
    then have "SetIndex c kAdded (q\<lparr>kernel := k\<rparr>) = q\<lparr>kernel := k\<rparr>" by (intro EPollPoller.equality) (simp_all add: q_def)
    with k True known show ?thesis
      by (auto simp: poll_apply_def UpdateChannel_def Let_def op_def q_def split: if_splits)
  next
    case False
    obtain k where k: "Poller_Update ctl EPOLL_CTL_ADD c q1 = (None, q1\<lparr>kernel := k\<rparr>)" "poll_inv regs (SetIndex c kAdded (q1\<lparr>kernel := k\<rparr>))"
      using Update_inv [OF inv laws new _ _ q1_def, of EPOLL_CTL_ADD] False by auto
    have "UpdateChannel ctl c (upd_chan c (\<lambda>ch. ch\<lparr>events := ev, updates := updates ch @ [ev]\<rparr>) p) = Poller_Update ctl EPOLL_CTL_ADD c q1"
      using False poll_invD(1) [OF inv, of c] known by (auto simp: UpdateChannel_def Let_def q1_def q_def upd_chan_def)
    moreover have "SetIndex c kAdded (q1\<lparr>kernel := k\<rparr>) = q1\<lparr>kernel := k\<rparr>" by (intro EPollPoller.equality) (simp_all add: q1_def)
    ultimately show ?thesis using k by (simp add: poll_apply_def)
  qed
qed

lemma PollRemove_inv:
  assumes inv: "poll_inv regs p" and laws: "epoll_laws ctl regs"
    and new: "chan_index (chan_heap p c) = kNew \<Longrightarrow> poller_channels p (chan_fd (chan_heap p c)) = None"
  shows "\<exists>p'. RemoveChannel ctl c p = (None, p') \<and> poll_inv regs p'"
proof -
  let ?fd = "chan_fd (chan_heap p c)"
  define p1 where "p1 = p\<lparr>poller_channels := (poller_channels p)(?fd := None)\<rparr>"
  show ?thesis
  proof (cases "chan_index (chan_heap p c) = kAdded")
    case True
    have "(EPOLL_CTL_DEL = EPOLL_CTL_ADD) = (regs (kernel p1) (chan_fd (chan_heap p1 c)) = None)"
      using poll_invD(3) [OF inv, of ?fd "events (chan_heap p c)" c] True by (simp add: p1_def)
    from Update_ok [OF laws this] obtain k where k: "Poller_Update ctl EPOLL_CTL_DEL c p1 = (None, p1\<lparr>kernel := k\<rparr>)" "regs k = (regs (kernel p))(?fd := None)"
      by (auto simp: p1_def)
    have "poll_inv regs (SetIndex c kNew (p1\<lparr>kernel := k\<rparr>))"
      using poll_inv_removed [OF inv new, of "(chan_heap p c)\<lparr>chan_index := kNew\<rparr>" k] k(2) True by (simp add: p1_def)
    with k(1) True show ?thesis by (simp add: RemoveChannel_def Let_def p1_def)
  next
    case False
    with poll_inv_removed [OF inv new, of "(chan_heap p c)\<lparr>chan_index := kNew\<rparr>" "kernel p"] show ?thesis
      by (simp add: RemoveChannel_def Let_def)
  qed
qed

text \<open>\<open>Poll\<close> only sets \<open>revents\<close> and may enlarge its array.\<close>

lemma poll_inv_cong:
  assumes "poll_inv regs p" "poller_channels p' = poller_channels p" "kernel p' = kernel p" "0 < events_size p'"
    "\<And>c. chan_fd (chan_heap p' c) = chan_fd (chan_heap p c)" "\<And>c. chan_index (chan_heap p' c) = chan_index (chan_heap p c)"
    "\<And>c. events (chan_heap p' c) = events (chan_heap p c)"
  shows "poll_inv regs p'"
  using assms(1) unfolding poll_inv_def assms(2,3,5-) using assms(4) by blast

lemma Fill_frame:
  "fold (\<lambda>(ev, c). upd_chan c (\<lambda>ch. ch\<lparr>revents := ev\<rparr>)) evs p = p' \<Longrightarrow>
   poller_channels p' = poller_channels p \<and> kernel p' = kernel p \<and> events_size p' = events_size p
   \<and> (\<forall>c. chan_fd (chan_heap p' c) = chan_fd (chan_heap p c) \<and> chan_index (chan_heap p' c) = chan_index (chan_heap p c)
        \<and> events (chan_heap p' c) = events (chan_heap p c))"
proof (induction evs arbitrary: p)
  case (Cons e evs)
  obtain ev c where e: "e = (ev, c)" by (cases e)
  from Cons.IH [of "upd_chan c (\<lambda>ch. ch\<lparr>revents := ev\<rparr>) p"] Cons.prems show ?case by (auto simp: e)
qed simp

lemma Poll_inv:
  assumes "poll_inv regs p"
  shows "poll_inv regs (snd (Poll wait p))"
proof (cases wait)
  case (Inr evs)
  define p1 where "p1 = fold (\<lambda>(ev, c). upd_chan c (\<lambda>ch. ch\<lparr>revents := ev\<rparr>)) evs p"
  note fr = Fill_frame [OF p1_def [symmetric]]
  show ?thesis
    by (rule poll_inv_cong [OF assms])
      (use fr poll_invD(4) [OF assms] in \<open>auto simp: Poll_def Inr FillActiveChannels_def p1_def [symmetric]\<close>)
qed (use assms in \<open>simp add: Poll_def\<close>)

lemma NewChannel_inv:
  assumes inv: "poll_inv regs p" and new: "chan_index (chan_heap p c) = kNew"
  shows "poll_inv regs (upd_chan c (\<lambda>_. PolledChannel_new fd) p)"
  using poll_invD [OF inv] new unfolding poll_inv_def by (auto simp: PolledChannel_new_def)

lemma poll_run_inv:
  assumes "epoll_laws ctl regs"
  shows "poll_inv regs p \<Longrightarrow> poll_ops_ok ctl regs ops p \<Longrightarrow> \<exists>p'. poll_run ctl ops p = (None, p') \<and> poll_inv regs p'"
proof (induction ops arbitrary: p)
  case (Cons op ops)
  have ok: "poll_op_ok regs op p" "poll_ops_ok ctl regs ops (snd (poll_apply ctl op p))" using Cons.prems by simp_all
  have "\<exists>p1. poll_apply ctl op p = (None, p1) \<and> poll_inv regs p1"
  proof (cases op)
    case (PollInterest c ev)
    with Interest_inv [OF Cons.prems(1) assms] ok(1) show ?thesis by (auto simp: poll_op_ok_def)
  next
    case (PollRemove c)
    with PollRemove_inv [OF Cons.prems(1) assms] ok(1) show ?thesis by (auto simp: poll_op_ok_def poll_apply_def)
  next
    case (PollNewChannel c fd)
    with NewChannel_inv [OF Cons.prems(1)] ok(1) show ?thesis by (auto simp: poll_op_ok_def poll_apply_def)
  next
    case (PollWait wait)
    with Poll_inv [OF Cons.prems(1)] show ?thesis by (auto simp: poll_apply_def)
  qed
  with Cons.IH ok(2) show ?case by auto
qed simp

text \<open>Those that \<open>Poll\<close> reports are the channels that the kernel names, each with its events, in their order.\<close>

lemma Poll_active: "fst (Poll (Inr evs) p) = map snd evs"
  by (simp add: Poll_def FillActiveChannels_def)

section \<open>Property\<close>

text \<open>C15: With a kernel that behaves as documented no call of the poller fails, and at every moment the interest list of the kernel holds exactly the channels
  that are added, each under its descriptor with its present interest; \<open>HasChannel\<close> holds exactly of the channels that were updated and not removed; the array
  for \<open>epoll_wait\<close> never shrinks to nothing.\<close>

theorem poller_agrees_with_kernel:
  assumes "epoll_laws ctl regs" "regs k = Map.empty" "poll_ops_ok ctl regs ops (EPollPoller_new fds k)"
  shows "\<exists>p. poll_run ctl ops (EPollPoller_new fds k) = (None, p)
    \<and> (\<forall>fd ev c. regs (kernel p) fd = Some (ev, c) \<longleftrightarrow>
         chan_fd (chan_heap p c) = fd \<and> chan_index (chan_heap p c) = kAdded \<and> events (chan_heap p c) = ev)
    \<and> (\<forall>c. HasChannel c p \<longleftrightarrow> chan_index (chan_heap p c) \<noteq> kNew) \<and> 0 < events_size p"
proof -
  have "poll_inv regs (EPollPoller_new fds k)"
    using assms(2) by (simp add: poll_inv_def EPollPoller_new_def PolledChannel_new_def kInitialEventListSize_def)
  from poll_run_inv [OF assms(1) this assms(3)] obtain p where "poll_run ctl ops (EPollPoller_new fds k) = (None, p)" and inv: "poll_inv regs p" by auto
  moreover have "HasChannel c p \<longleftrightarrow> chan_index (chan_heap p c) \<noteq> kNew" for c
    using poll_invD(2) [OF inv] by (simp add: HasChannel_def)
  ultimately show ?thesis using poll_invD(3,4) [OF inv] by blast
qed

text \<open>The interest list as a map is a kernel that keeps the laws.\<close>

definition epoll_list :: "(int \<rightharpoonup> u32 \<times> nat) epoll_ctl" where
  "epoll_list op fd ev k =
     (case op of
        EPOLL_CTL_ADD \<Rightarrow> (if k fd = None then (None, k(fd \<mapsto> ev)) else (Some EEXIST, k))
      | EPOLL_CTL_MOD \<Rightarrow> (if k fd = None then (Some ENOENT, k) else (None, k(fd \<mapsto> ev)))
      | EPOLL_CTL_DEL \<Rightarrow> (if k fd = None then (Some ENOENT, k) else (None, k(fd := None))))"

lemma epoll_list_laws: "epoll_laws epoll_list (\<lambda>k. k)"
  by (simp add: epoll_laws_def epoll_list_def)

definition demo_poll :: "poll_op list" where
  "demo_poll = [PollInterest 0 kReadEvent, PollInterest 0 kNoneEvent, PollInterest 0 kWriteEvent, PollWait (Inr [(EPOLLOUT, 0)]), PollInterest 1 kReadEvent, PollRemove 0]"

theorem poller_agrees_with_kernel_witness:
  "\<exists>p. poll_run epoll_list demo_poll (EPollPoller_new (\<lambda>c. int c + 5) Map.empty) = (None, p)
     \<and> HasChannel 1 p \<and> \<not> HasChannel 0 p \<and> kernel p 6 = Some (kReadEvent, 1) \<and> kernel p 5 = None"
proof -
  let ?p0 = "EPollPoller_new (\<lambda>c. int c + 5) Map.empty :: (int \<rightharpoonup> u32 \<times> nat) EPollPoller"
  have bits: "kReadEvent \<noteq> kNoneEvent" "kWriteEvent \<noteq> kNoneEvent"
    by (simp_all add: kReadEvent_def kWriteEvent_def kNoneEvent_def EPOLLIN_def EPOLLPRI_def EPOLLRDHUP_def EPOLLOUT_def)
  note run = demo_poll_def EPollPoller_new_def PolledChannel_new_def poll_op_ok_def poll_apply_def UpdateChannel_def RemoveChannel_def Poller_Update_def
    upd_chan_def epoll_list_def Poll_def FillActiveChannels_def kInitialEventListSize_def Let_def bits
  have "poll_ops_ok epoll_list (\<lambda>k. k) demo_poll ?p0" by (simp add: run)
  from poller_agrees_with_kernel [OF epoll_list_laws _ this] obtain p where p: "poll_run epoll_list demo_poll ?p0 = (None, p)"
      "\<And>c. HasChannel c p \<longleftrightarrow> chan_index (chan_heap p c) \<noteq> kNew"
      "\<And>fd ev c. kernel p fd = Some (ev, c) \<longleftrightarrow> chan_fd (chan_heap p c) = fd \<and> chan_index (chan_heap p c) = kAdded \<and> events (chan_heap p c) = ev"
    by blast
  have "chan_index (chan_heap p 1) = kAdded \<and> chan_index (chan_heap p 0) = kNew \<and> kernel p 6 = Some (kReadEvent, 1) \<and> kernel p 5 = None"
    using p(1) by (auto simp: run)
  with p show ?thesis by auto
qed

end
